(* ===== verification/Prelude.thy ===== *)
theory Prelude
  imports Main "HOL-Library.Word"
begin

text \<open>
  Shared vocabulary of the development: the machine integers of the C sources, C strings and
  their decimal printing and parsing (\<open>printf\<close> with \<open>%u\<close>, \<open>strtoul\<close> in base 10), little-endian
  accesses to a byte memory, and the result type of operations that may trap.
\<close>

unbundle bit_operations_syntax

named_theorems cstr_simps \<open>C strings, decimal printing and parsing\<close>
named_theorems mem_simps \<open>loads and stores of the host memory\<close>

section \<open>Machine integers\<close>

type_synonym u8 = "8 word"
type_synonym u16 = "16 word"
type_synonym u32 = "32 word"
type_synonym u64 = "64 word"

lemma unat_bounds:
  "unat (a :: u8) < 2 ^ 8" "unat (b :: u16) < 2 ^ 16"
  "unat (c :: u32) < 2 ^ 32" "unat (d :: u64) < 2 ^ 64"
  using unsigned_less [where 'a = nat, of a] unsigned_less [where 'a = nat, of b]
    unsigned_less [where 'a = nat, of c] unsigned_less [where 'a = nat, of d] by simp_all

lemma unat_inc32: "unat (a :: u32) < unat (b :: u32) \<Longrightarrow> unat (a + 1) = unat a + 1"
  using unat_bounds(3) [of b] by (simp add: unat_word_ariths)

lemma unat_of_nat_u64: "n < 2 ^ 64 \<Longrightarrow> unat (of_nat n :: u64) = n"
  by (simp add: unat_of_nat take_bit_nat_eq_self)

lemma ucast_down_add:
  fixes x :: u16 and y :: u32
  shows "(ucast (ucast x + y) :: u16) = x + ucast y"
  by (simp add: word_unat_eq_iff unsigned_ucast_eq unat_word_ariths take_bit_eq_mod
      mod_mod_cancel mod_simps)

lemma ucast_down_neg: "(ucast (- y :: u32) :: u16) = - ucast y"
  by (simp add: word_uint_eq_iff unsigned_ucast_eq uint_word_ariths take_bit_eq_mod mod_mod_cancel mod_simps)

lemma ucast_down_sub:
  fixes x :: u16 and y :: u32
  shows "(ucast (ucast x - y) :: u16) = x - ucast y"
  using ucast_down_add [of x "- y"] ucast_down_neg [of y] by simp

lemma ucast_inc: "(ucast (x + 1 :: u32) :: u16) = ucast x + 1"
  by (simp add: word_unat_eq_iff unsigned_ucast_eq unat_word_ariths take_bit_eq_mod mod_mod_cancel mod_simps)

lemma ucast_ucast_u16: "(ucast (ucast (x :: u16) :: u32) :: u16) = x"
  by (rule bit_word_eqI) (simp add: bit_simps)

lemma u32_inc_le: "n + 1 \<le> (n :: u32) \<Longrightarrow> n = - 1"
proof -
  assume "n + 1 \<le> n"
  then have "(unat n + 1) mod 2 ^ 32 \<le> unat n" by (simp add: word_le_nat_alt unat_word_ariths)
  moreover have "unat n < 2 ^ 32" by (rule unat_bounds(3))
  ultimately have "unat n + 1 = 2 ^ 32" by (cases "unat n + 1 < 2 ^ 32") simp_all
  then have "(of_nat (unat n + 1) :: u32) = 0" by (simp only:) simp
  then show ?thesis by (simp add: eq_neg_iff_add_eq_0 add.commute)
qed

section \<open>Operations that may trap\<close>

text \<open>
  What the C code cannot survive: an access outside an array, a null pointer, a failed
  \<open>assert\<close>, a division by zero, an overflow of a signed integer, a call of \<open>exit\<close>, or a loop without end (\<open>Diverges\<close> is the value
  of a loop that used up the fuel its caller gives). An operation that may trap returns
  \<open>Inl\<close> of the trap or \<open>Inr\<close> of its result.
\<close>

datatype trap =
  OutOfBounds | NullDeref | AssertFailed | DivByZero | SignedOverflow | ExitCalled | Diverges

type_synonym 'a trapping = "trap + 'a"

definition tbind :: "'a trapping \<Rightarrow> ('a \<Rightarrow> 'b trapping) \<Rightarrow> 'b trapping" where
  "tbind m f = (case m of Inl t \<Rightarrow> Inl t | Inr x \<Rightarrow> f x)"

lemma tbind_simps [simp]:
  "tbind (Inl t) f = Inl t"
  "tbind (Inr x) f = f x"
  by (simp_all add: tbind_def)

lemma tbind_eq_Inr_iff: "tbind m f = Inr y \<longleftrightarrow> (\<exists>x. m = Inr x \<and> f x = Inr y)"
  by (cases m) simp_all

section \<open>Characters and C strings\<close>

text \<open>
  A C string is the list of characters before the first NUL of its buffer.
\<close>

definition nul :: char where
  "nul = CHR 0x00"

definition newline :: char where
  "newline = CHR 0x0A"

definition cr :: char where
  "cr = CHR 0x0D"

definition c_str :: "string \<Rightarrow> string" where
  "c_str buf = takeWhile (\<lambda>c. c \<noteq> nul) buf"

definition is_digit :: "char \<Rightarrow> bool" where
  "is_digit c \<longleftrightarrow> 48 \<le> (of_char c :: nat) \<and> (of_char c :: nat) \<le> 57"

definition digit_val :: "char \<Rightarrow> nat" where
  "digit_val c = of_char c - 48"

text \<open>\<open>isspace\<close> of the C locale: space, and the control characters 9 to 13.\<close>

definition is_space :: "char \<Rightarrow> bool" where
  "is_space c \<longleftrightarrow> (of_char c :: nat) = 32 \<or> 9 \<le> (of_char c :: nat) \<and> (of_char c :: nat) \<le> 13"

lemma c_str_no_nul: "nul \<notin> set s \<Longrightarrow> c_str s = s"
  by (auto simp: c_str_def intro: takeWhile_eq_all_conv [THEN iffD2])

lemma nul_notin_c_str [simp]: "nul \<notin> set (c_str s)"
  by (auto simp: c_str_def dest: set_takeWhileD)

section \<open>Line ends\<close>

text \<open>A line without the newlines and carriage returns at its end.\<close>

definition strip_line :: "string \<Rightarrow> string" where
  "strip_line s = rev (dropWhile (\<lambda>c. c = newline \<or> c = cr) (rev s))"

lemma strip_line_line_end [simp]:
  "strip_line (s @ [newline]) = strip_line s" "strip_line (s @ [cr]) = strip_line s"
  by (simp_all add: strip_line_def)

lemma strip_line_keep: "s = [] \<or> last s \<noteq> newline \<and> last s \<noteq> cr \<Longrightarrow> strip_line s = s"
  by (cases s rule: rev_cases) (auto simp: strip_line_def)

lemma length_strip_line: "length (strip_line s) \<le> length s"
  using length_dropWhile_le [of _ "rev s"] by (simp add: strip_line_def)

section \<open>Decimal printing and parsing\<close>

fun dec :: "nat \<Rightarrow> string" where
  "dec n = (if n < 10 then [char_of (48 + n)] else dec (n div 10) @ [char_of (48 + n mod 10)])"

declare dec.simps [simp del]

definition digits_val :: "string \<Rightarrow> int" where
  "digits_val ds = foldl (\<lambda>a c. a * 10 + int (digit_val c)) 0 ds"

text \<open>
  \<open>strtoul (s, NULL, 10)\<close> with a 64-bit \<open>unsigned long\<close>: leading white space, an optional
  sign, digits; a value that does not fit is \<open>ULONG_MAX\<close>, a minus sign negates modulo
  \<open>2 ^ 64\<close>, and no digit at all gives 0.
\<close>

definition strtoul10 :: "string \<Rightarrow> u64" where
  "strtoul10 s =
     (let t = dropWhile is_space s;
          neg = (t \<noteq> [] \<and> hd t = CHR ''-'');
          u = (if t \<noteq> [] \<and> (hd t = CHR ''-'' \<or> hd t = CHR ''+'') then tl t else t);
          n = digits_val (takeWhile is_digit u)
      in if 2 ^ 64 \<le> n then - 1 else if neg then - of_int n else of_int n)"

lemma of_char_digit: "n < 10 \<Longrightarrow> (of_char (char_of (48 + n) :: char) :: nat) = 48 + n"
  by simp

lemma digit_char_props [cstr_simps]:
  assumes "n < 10"
  shows "is_digit (char_of (48 + n))" "digit_val (char_of (48 + n)) = n"
    "\<not> is_space (char_of (48 + n))"
  using assms by (simp_all add: is_digit_def digit_val_def is_space_def of_char_digit)

lemma dec_nonempty [simp]: "dec n \<noteq> []"
  by (subst dec.simps) simp

lemma dec_digits: "c \<in> set (dec n) \<Longrightarrow> is_digit c"
  by (induction n rule: dec.induct)
     (subst (asm) (2) dec.simps, auto split: if_splits simp: cstr_simps)

lemma digits_val_snoc [cstr_simps]: "digits_val (ds @ [c]) = digits_val ds * 10 + int (digit_val c)"
  by (simp add: digits_val_def)

lemma digits_val_dec [cstr_simps]: "digits_val (dec n) = int n"
proof (induction n rule: dec.induct)
  case (1 n)
  show ?case
  proof (cases "n < 10")
    case True
    then have "dec n = [] @ [char_of (48 + n)]" by (simp add: dec.simps)
    with True show ?thesis
      by (simp only: digits_val_snoc digit_char_props) (simp add: digits_val_def)
  next
    case False
    then have "dec n = dec (n div 10) @ [char_of (48 + n mod 10)]" by (simp add: dec.simps)
    then have "digits_val (dec n) = digits_val (dec (n div 10)) * 10 + int (n mod 10)"
      by (simp only: digits_val_snoc) (simp add: digit_char_props)
    also have "\<dots> = int (n div 10) * 10 + int (n mod 10)" using "1" False by simp
    also have "\<dots> = int (n div 10 * 10 + n mod 10)"
      by (simp only: of_nat_add of_nat_mult of_nat_numeral)
    finally show ?thesis by (simp only: div_mult_mod_eq)
  qed
qed

lemma dec_inject [simp]: "dec m = dec n \<longleftrightarrow> m = n"
  by (metis digits_val_dec of_nat_eq_iff)

lemma not_digit_chars [cstr_simps]:
  "\<not> is_digit nul" "\<not> is_digit newline" "\<not> is_digit CHR '' ''" "\<not> is_digit CHR '']''"
  "\<not> is_digit CHR ''-''" "\<not> is_digit CHR ''+''"
  by (simp_all add: is_digit_def nul_def newline_def)

lemma takeWhile_dec:
  "takeWhile is_digit (dec n @ rest) = dec n @ takeWhile is_digit rest"
  using dec_digits by (induction "dec n" arbitrary: n) (auto simp: takeWhile_append)

lemma hd_dec_digit: "is_digit (hd (dec n))"
  using dec_digits [of "hd (dec n)" n] by simp

lemma digit_not_space: "is_digit c \<Longrightarrow> \<not> is_space c"
  by (auto simp: is_digit_def is_space_def)

lemma strtoul10_dec:
  assumes "n < 2 ^ 64" and "rest = [] \<or> \<not> is_digit (hd rest)"
  shows "strtoul10 (dec n @ rest) = of_nat n"
proof -
  obtain c cs where d: "dec n = c # cs" by (cases "dec n") auto
  with hd_dec_digit [of n] have c: "is_digit c" by simp
  then have nsp: "\<not> is_space c" by (rule digit_not_space)
  from c have sign: "c \<noteq> CHR ''-''" "c \<noteq> CHR ''+''" by (auto simp: cstr_simps)
  from assms(2) have "takeWhile is_digit rest = []" by (cases rest) auto
  then have tw: "takeWhile is_digit (dec n @ rest) = dec n" by (simp add: takeWhile_dec)
  have "dropWhile is_space (dec n @ rest) = dec n @ rest" using d nsp by simp
  with sign d have "strtoul10 (dec n @ rest) =
      (let n' = digits_val (takeWhile is_digit (dec n @ rest))
       in if 2 ^ 64 \<le> n' then - 1 else of_int n')"
    by (simp add: strtoul10_def Let_def)
  with tw assms(1) show ?thesis by (simp add: digits_val_dec)
qed

section \<open>Signed numbers\<close>

definition dec_int :: "int \<Rightarrow> string" where
  "dec_int i = (if i < 0 then ''-'' @ dec (nat (- i)) else dec (nat i))"

text \<open>
  \<open>strtoll (s, &end, 10)\<close> with a 64-bit \<open>long long\<close>: the value, cut to the range, and the
  characters from \<open>end\<close> on, which are all of \<open>s\<close> when there is no number.
\<close>

definition strtoll10 :: "string \<Rightarrow> int \<times> string" where
  "strtoll10 s =
     (let t = dropWhile is_space s;
          neg = (t \<noteq> [] \<and> hd t = CHR ''-'');
          u = (if t \<noteq> [] \<and> (hd t = CHR ''-'' \<or> hd t = CHR ''+'') then tl t else t);
          ds = takeWhile is_digit u; n = digits_val ds
      in if ds = [] then (0, s)
         else (max (- (2 ^ 63)) (min (2 ^ 63 - 1) (if neg then - n else n)), dropWhile is_digit u))"

text \<open>\<open>atoi\<close> of the C library used: \<open>(int) strtol (s, NULL, 10)\<close>.\<close>

definition atoi10 :: "string \<Rightarrow> int" where
  "atoi10 s = signed_take_bit 31 (fst (strtoll10 s))"

lemma strtoll10_dec_int:
  assumes "- (2 ^ 63) \<le> i" and "i < 2 ^ 63" and "rest = [] \<or> \<not> is_digit (hd rest)"
  shows "strtoll10 (dec_int i @ rest) = (i, rest)"
proof -
  have first: "\<exists>c cs. dec n = c # cs \<and> is_digit c \<and> \<not> is_space c \<and> c \<noteq> CHR ''-'' \<and> c \<noteq> CHR ''+''" for n
  proof -
    obtain c cs where d: "dec n = c # cs" by (cases "dec n") auto
    with hd_dec_digit [of n] have "is_digit c" by simp
    with d digit_not_space show ?thesis by (auto simp: cstr_simps)
  qed
  from assms(3) have r: "takeWhile is_digit rest = []" "dropWhile is_digit rest = rest" by (cases rest; auto)+
  have tw: "takeWhile is_digit (dec n @ rest) = dec n" "dropWhile is_digit (dec n @ rest) = rest" for n
    using takeWhile_dec [of n rest] dropWhile_append2 [of "dec n" is_digit rest] dec_digits [of _ n] r
    by simp_all
  show ?thesis
  proof (cases "i < 0")
    case True
    with assms(1) tw show ?thesis
      by (simp add: strtoll10_def dec_int_def is_space_def digits_val_dec)
  next
    case False
    have "dropWhile is_space (dec (nat i) @ rest) = dec (nat i) @ rest"
      "hd (dec (nat i) @ rest) \<noteq> CHR ''-''" "hd (dec (nat i) @ rest) \<noteq> CHR ''+''"
      using first [of "nat i"] by auto
    with assms(2) tw False show ?thesis
      by (simp add: strtoll10_def dec_int_def digits_val_dec Let_def)
  qed
qed

section \<open>Polling\<close>

text \<open>The \<open>revents\<close> bits of Linux.\<close>

definition POLLIN :: u16 where "POLLIN = 1"
definition POLLERR :: u16 where "POLLERR = 8"
definition POLLHUP :: u16 where "POLLHUP = 16"
definition POLLNVAL :: u16 where "POLLNVAL = 32"

end
