(* ===== verification/Device.thy ===== *)
theory Device
  imports Prelude
begin

text \<open>
  The register level of the MMIO logging device: what \<^verbatim>\<open>project_1/emulator/device.c\<close> provides, and the
  guest's library \<^verbatim>\<open>project_1/guest/vlog.c\<close> on the other side of the registers. The MMIO handlers
  are stubs in the repository; the library is modelled over any bus.
\<close>

section \<open>The device\<close>

definition RAM_BASE :: u64 where "RAM_BASE = 0x100000"
definition RAM_SIZE :: u64 where "RAM_SIZE = 0x1000000"
definition SERIAL_BASE :: u64 where "SERIAL_BASE = 0x10000000"
definition SERIAL_TX :: u64 where "SERIAL_TX = 0"
definition SERIAL_POWEROFF :: u64 where "SERIAL_POWEROFF = 8"
definition DEV_BASE :: u64 where "DEV_BASE = 0x20000000"
definition VLOG_REG_ID :: u64 where "VLOG_REG_ID = 0"
definition VLOG_REG_STATUS :: u64 where "VLOG_REG_STATUS = 8"
definition VLOG_REG_CMD :: u64 where "VLOG_REG_CMD = 0xC"
definition VLOG_REG_MSG_LO :: u64 where "VLOG_REG_MSG_LO = 0x10"
definition VLOG_REG_MSG_HI :: u64 where "VLOG_REG_MSG_HI = 0x14"
definition VLOG_REG_LEN :: u64 where "VLOG_REG_LEN = 0x18"
definition VLOG_REG_LEVEL :: u64 where "VLOG_REG_LEVEL = 0x1C"
definition VLOG_REG_SEQ :: u64 where "VLOG_REG_SEQ = 0x20"
definition VLOG_STATUS_READY :: u32 where "VLOG_STATUS_READY = 1"
definition VLOG_STATUS_ERROR :: u32 where "VLOG_STATUS_ERROR = 4"
definition VLOG_STATUS_ERR_SHIFT :: nat where "VLOG_STATUS_ERR_SHIFT = 8"
definition VLOG_MAGIC :: u32 where "VLOG_MAGIC = 0x31474C56"
definition VLOG_CMD_NOP :: u32 where "VLOG_CMD_NOP = 0"
definition VLOG_CMD_LOG :: u32 where "VLOG_CMD_LOG = 1"
definition VLOG_CMD_STAT :: u32 where "VLOG_CMD_STAT = 3"
definition VLOG_LVL_DEBUG :: u32 where "VLOG_LVL_DEBUG = 0"
definition VLOG_LVL_INFO :: u32 where "VLOG_LVL_INFO = 1"
definition VLOG_LVL_WARN :: u32 where "VLOG_LVL_WARN = 2"
definition VLOG_LVL_ERROR :: u32 where "VLOG_LVL_ERROR = 3"

text \<open>The back-reference to the VMM is left out.\<close>

record vlog_device =
  d_status :: u32
  d_msg_addr_lo :: u32
  d_msg_addr_hi :: u32
  d_msg_len :: u32
  d_level :: u32
  d_seq :: u32
  d_bytes :: u32

definition msg_addr :: "vlog_device \<Rightarrow> u64" where
  "msg_addr dev = ucast (d_msg_addr_lo dev) OR push_bit 32 (ucast (d_msg_addr_hi dev))"

definition set_error :: "vlog_device \<Rightarrow> u32 \<Rightarrow> vlog_device" where
  "set_error dev code =
     dev\<lparr>d_status := d_status dev OR (VLOG_STATUS_ERROR OR push_bit VLOG_STATUS_ERR_SHIFT code)\<rparr>"

definition clear_error :: "vlog_device \<Rightarrow> vlog_device" where
  "clear_error dev =
     dev\<lparr>d_status := d_status dev AND NOT (VLOG_STATUS_ERROR OR push_bit VLOG_STATUS_ERR_SHIFT 0xff)\<rparr>"

definition vlog_device_init :: "vlog_device \<Rightarrow> vlog_device" where
  "vlog_device_init dev =
     \<lparr>d_status = VLOG_STATUS_READY, d_msg_addr_lo = 0, d_msg_addr_hi = 0, d_msg_len = 0,
      d_level = VLOG_LVL_INFO, d_seq = 0, d_bytes = 0\<rparr>"

text \<open>The handlers as they stand.\<close>

definition vlog_device_mmio_read :: "u64 \<Rightarrow> vlog_device \<Rightarrow> u64" where
  "vlog_device_mmio_read offset dev = 0"

definition vlog_device_mmio_write :: "u64 \<Rightarrow> u64 \<Rightarrow> vlog_device \<Rightarrow> vlog_device" where
  "vlog_device_mmio_write offset v dev = dev"

section \<open>The guest's library\<close>

text \<open>
  A bus with a state \<open>'s\<close>: \<open>mmio_w32\<close> and \<open>mmio_r32\<close>, the accesses through volatile pointers.
\<close>

record 's bus =
  mmio_w32 :: "u64 \<Rightarrow> u32 \<Rightarrow> 's \<Rightarrow> 's"
  mmio_r32 :: "u64 \<Rightarrow> 's \<Rightarrow> u32 \<times> 's"

definition vputc :: "'s bus \<Rightarrow> char \<Rightarrow> 's \<Rightarrow> 's" where
  "vputc b c s = mmio_w32 b (SERIAL_BASE + SERIAL_TX) (of_nat (of_char c)) s"

definition vputs :: "'s bus \<Rightarrow> string \<Rightarrow> 's \<Rightarrow> 's" where
  "vputs b str s = fold (vputc b) (c_str str) s"

definition hex_digit :: "u32 \<Rightarrow> char" where
  "hex_digit d = ''0123456789abcdef'' ! unat d"

text \<open>The shifts \<open>28, 24, \<dots>, 0\<close>.\<close>

definition vputhex :: "'s bus \<Rightarrow> u32 \<Rightarrow> 's \<Rightarrow> 's" where
  "vputhex b v s =
     fold (vputc b) (map (\<lambda>i. hex_digit (drop_bit i v AND 0xf)) [28, 24, 20, 16, 12, 8, 4, 0])
       (vputc b CHR ''x'' (vputc b CHR ''0'' s))"

text \<open>\<open>vm_exit\<close>: after the write the guest only spins.\<close>

definition vm_exit :: "'s bus \<Rightarrow> int \<Rightarrow> 's \<Rightarrow> 's" where
  "vm_exit b code s = mmio_w32 b (SERIAL_BASE + SERIAL_POWEROFF) (word_of_int code) s"

definition vlog_id :: "'s bus \<Rightarrow> 's \<Rightarrow> u32 \<times> 's" where
  "vlog_id b s = mmio_r32 b (DEV_BASE + VLOG_REG_ID) s"

definition vlog_status :: "'s bus \<Rightarrow> 's \<Rightarrow> u32 \<times> 's" where
  "vlog_status b s = mmio_r32 b (DEV_BASE + VLOG_REG_STATUS) s"

definition vlog_seq :: "'s bus \<Rightarrow> 's \<Rightarrow> u32 \<times> 's" where
  "vlog_seq b s = mmio_r32 b (DEV_BASE + VLOG_REG_SEQ) s"

definition status_result :: "u32 \<Rightarrow> int" where
  "status_result st = (if st AND VLOG_STATUS_ERROR \<noteq> 0 then uint (drop_bit 8 st AND 0xff) else 0)"

text \<open>\<open>gpa\<close> is the address of the message.\<close>

definition vlog_write :: "'s bus \<Rightarrow> u32 \<Rightarrow> u64 \<Rightarrow> u32 \<Rightarrow> 's \<Rightarrow> int \<times> 's" where
  "vlog_write b level gpa len s =
     (let s1 = mmio_w32 b (DEV_BASE + VLOG_REG_MSG_LO) (ucast gpa) s;
          s2 = mmio_w32 b (DEV_BASE + VLOG_REG_MSG_HI) (ucast (drop_bit 32 gpa)) s1;
          s3 = mmio_w32 b (DEV_BASE + VLOG_REG_LEN) len s2;
          s4 = mmio_w32 b (DEV_BASE + VLOG_REG_LEVEL) level s3;
          s5 = mmio_w32 b (DEV_BASE + VLOG_REG_CMD) VLOG_CMD_LOG s4;
          (st, s6) = mmio_r32 b (DEV_BASE + VLOG_REG_STATUS) s5
      in (status_result st, s6))"

text \<open>\<open>vlog\<close>: the string lies at \<open>gpa\<close>.\<close>

definition vlog :: "'s bus \<Rightarrow> u32 \<Rightarrow> u64 \<Rightarrow> string \<Rightarrow> 's \<Rightarrow> int \<times> 's" where
  "vlog b level gpa str s = vlog_write b level gpa (of_nat (length (c_str str))) s"

definition vlog_stat :: "'s bus \<Rightarrow> u64 \<Rightarrow> u32 \<Rightarrow> 's \<Rightarrow> int \<times> 's" where
  "vlog_stat b addr len s =
     (let s1 = mmio_w32 b (DEV_BASE + VLOG_REG_MSG_LO) (ucast (addr AND 0xffffffff)) s;
          s2 = mmio_w32 b (DEV_BASE + VLOG_REG_MSG_HI) (ucast (drop_bit 32 addr)) s1;
          s3 = mmio_w32 b (DEV_BASE + VLOG_REG_LEN) len s2;
          s4 = mmio_w32 b (DEV_BASE + VLOG_REG_CMD) VLOG_CMD_STAT s3;
          (st, s5) = mmio_r32 b (DEV_BASE + VLOG_REG_STATUS) s4
      in (status_result st, s5))"

section \<open>The guest programs\<close>

text \<open>\<open>at\<close> gives the address of a string constant.\<close>

definition test_log_main :: "'s bus \<Rightarrow> (string \<Rightarrow> u64) \<Rightarrow> 's \<Rightarrow> int \<times> 's" where
  "test_log_main b at s0 =
     (let s1 = vputs b (''guest: logging test'' @ [newline]) s0; (dev_id, s2) = vlog_id b s1
      in if dev_id \<noteq> VLOG_MAGIC then (1, vputs b (''guest: device MISSING'' @ [newline]) s2)
         else
           let log = (\<lambda>level str s. snd (vlog b level (at str) str s));
               s3 = log VLOG_LVL_INFO ''function runner started'' s2;
               s4 = log VLOG_LVL_DEBUG ''processing request 1'' s3;
               s5 = log VLOG_LVL_WARN ''cache miss'' s4;
               s6 = log VLOG_LVL_ERROR ''request 1 failed'' s5;
               s7 = vputs b ''guest: logged '' s6; (n, s8) = vlog_seq b s7;
               s9 = vputs b ('' records'' @ [newline]) (vputhex b n s8)
           in (0, vputs b (''guest: done'' @ [newline]) s9))"

definition test_nop_main :: "'s bus \<Rightarrow> 's \<Rightarrow> int \<times> 's" where
  "test_nop_main b s0 =
     (let s1 = vputs b (''guest: booting'' @ [newline]) s0; (dev_id, s2) = vlog_id b s1
      in if dev_id \<noteq> VLOG_MAGIC then (1, vputs b (''guest: device MISSING'' @ [newline]) s2)
         else
           let s3 = vputs b (''guest: device discovered'' @ [newline]) s2;
               s4 = mmio_w32 b (DEV_BASE + VLOG_REG_CMD) VLOG_CMD_NOP s3; (st, s5) = vlog_status b s4
           in if st AND VLOG_STATUS_ERROR \<noteq> 0 then (1, vputs b (''guest: nop FAILED'' @ [newline]) s5)
              else (0, vputs b (''guest: done'' @ [newline]) (vputs b (''guest: nop ok'' @ [newline]) s5)))"

section \<open>Lemmas\<close>

lemma halves_make_the_address:
  "msg_addr (d\<lparr>d_msg_addr_lo := ucast gpa, d_msg_addr_hi := ucast (drop_bit 32 gpa)\<rparr>) = gpa"
  by (rule bit_word_eqI) (auto simp: msg_addr_def bit_simps)

lemma error_bits:
  "bit VLOG_STATUS_ERROR i \<longleftrightarrow> i = 2"
  "bit (push_bit VLOG_STATUS_ERR_SHIFT (mask 8) :: u32) i \<longleftrightarrow> 8 \<le> i \<and> i < 16"
proof -
  have e: "VLOG_STATUS_ERROR = push_bit 2 1" by (simp add: VLOG_STATUS_ERROR_def)
  have "possible_bit TYPE(u32) 2" by simp
  then show "bit VLOG_STATUS_ERROR i \<longleftrightarrow> i = 2"
    unfolding e bit_push_bit_iff bit_1_iff by auto
  show "bit (push_bit VLOG_STATUS_ERR_SHIFT (mask 8) :: u32) i \<longleftrightarrow> 8 \<le> i \<and> i < 16"
    unfolding VLOG_STATUS_ERR_SHIFT_def bit_push_bit_iff bit_mask_iff by auto
qed

lemma low_byte: "(0xff :: u32) = mask 8"
  by (simp add: mask_eq_exp_minus_1)

lemma status_result_eq:
  "status_result st = (if bit st 2 then uint (drop_bit 8 st AND mask 8) else 0)"
proof -
  have "st AND VLOG_STATUS_ERROR = 0" if "\<not> bit st 2"
    using that by (intro bit_word_eqI) (auto simp: bit_and_iff error_bits(1))
  moreover have "st AND VLOG_STATUS_ERROR \<noteq> 0" if "bit st 2"
  proof -
    have "bit (st AND VLOG_STATUS_ERROR) 2" using that by (simp add: bit_and_iff error_bits(1))
    then show ?thesis by auto
  qed
  ultimately show ?thesis by (simp add: status_result_def low_byte)
qed

lemma clear_error_clears: "status_result (d_status (clear_error d)) = 0"
  by (simp add: status_result_eq clear_error_def low_byte bit_and_iff bit_or_iff bit_not_iff error_bits)

lemma cleared_error_is_read:
  assumes "code < 256"
  shows "status_result (d_status (set_error (clear_error d) code)) = uint code"
proof -
  have high: "\<not> bit code i" if "8 \<le> i" for i
  proof -
    have "unat code < 2 ^ 8" using assms by (simp add: word_less_nat_alt)
    then have "unat (take_bit 8 code) = unat code" by (simp add: unsigned_take_bit_eq take_bit_nat_eq_self)
    then have "take_bit 8 code = code" by (simp only: word_unat_eq_iff)
    with that show ?thesis by (metis bit_take_bit_iff leD)
  qed
  have "drop_bit 8 (d_status (set_error (clear_error d) code)) AND mask 8 = code"
  proof (rule bit_word_eqI)
    fix i
    assume "i < LENGTH(32)"
    moreover have "bit code i \<Longrightarrow> i < 8" using high [of i] by (meson not_le)
    ultimately show "bit (drop_bit 8 (d_status (set_error (clear_error d) code)) AND mask 8) i = bit code i"
      by (auto simp: set_error_def clear_error_def low_byte bit_and_iff bit_or_iff bit_not_iff bit_drop_bit_eq
          bit_mask_iff error_bits) (auto simp: VLOG_STATUS_ERR_SHIFT_def bit_push_bit_iff)
  qed
  moreover have "bit (d_status (set_error (clear_error d) code)) 2"
    by (simp add: set_error_def bit_or_iff error_bits)
  ultimately show ?thesis by (simp add: status_result_eq)
qed

lemma second_error_is_mixed:
  "status_result (d_status (set_error (set_error (vlog_device_init d) 1) 2)) = 3"
  by (simp add: vlog_device_init_def) code_simp

text \<open>
  A bus with a console and a device made of its two handlers, here those of the repository. The sample
  guest finds no device there and says so.
\<close>

definition machine_bus ::
    "(u64 \<Rightarrow> vlog_device \<Rightarrow> u64) \<Rightarrow> (u64 \<Rightarrow> u64 \<Rightarrow> vlog_device \<Rightarrow> vlog_device) \<Rightarrow> (string \<times> vlog_device) bus"
where
  "machine_bus read_reg write_reg =
     \<lparr>mmio_w32 = (\<lambda>a v (out, d).
        if a = SERIAL_BASE + SERIAL_TX then (out @ [char_of (unat (v AND 0xff))], d)
        else if DEV_BASE \<le> a \<and> a < DEV_BASE + 0x1000 then (out, write_reg (a - DEV_BASE) (ucast v) d)
        else (out, d)),
      mmio_r32 = (\<lambda>a (out, d).
        (if DEV_BASE \<le> a \<and> a < DEV_BASE + 0x1000 then ucast (read_reg (a - DEV_BASE) d) else 0, (out, d)))\<rparr>"

lemma sample_guest_finds_no_device:
  "test_log_main (machine_bus vlog_device_mmio_read vlog_device_mmio_write) at ([], d) =
     (1, ''guest: logging test'' @ [newline] @ ''guest: device MISSING'' @ [newline], d)"
proof -
  have p: "vputs (machine_bus r w) str (out, d) = (out @ c_str str, d)" for r w str out d
  proof -
    have "fold (vputc (machine_bus r w)) cs (out, d) = (out @ cs, d)" for cs
    proof (induction cs arbitrary: out)
      case (Cons c cs)
      have "unat ((of_nat (of_char c) :: u32) AND 0xff) = of_char c"
        by (simp add: low_byte unsigned_take_bit_eq unsigned_of_nat take_bit_nat_eq_self flip: take_bit_eq_mask)
      then have "vputc (machine_bus r w) c (out, d) = (out @ [c], d)"
        by (simp add: vputc_def machine_bus_def)
      with Cons show ?case by simp
    qed simp
    then show ?thesis by (simp add: vputs_def)
  qed
  have "vlog_id (machine_bus vlog_device_mmio_read vlog_device_mmio_write) (out, d) = (0, out, d)" for out d
    by (simp add: vlog_id_def machine_bus_def vlog_device_mmio_read_def)
  then show ?thesis
    by (simp add: test_log_main_def Let_def p VLOG_MAGIC_def c_str_def newline_def nul_def)
qed

text \<open>
  C22: \<^bold>\<open>A guest's call and the device's answer meet.\<close> Take a bus whose operand registers store what is written,
  whose STATUS register is read from the device, and whose LOG command runs \<open>log_cmd\<close>. Then \<open>vlog_write\<close> runs the
  command exactly once, on a device that holds the caller's address, length and level; the call
  gives 0 if the command leaves the error cleared, and the error's code if the command sets it.
\<close>

theorem guest_call_meets_device:
  assumes "\<And>v d. mmio_w32 b 0x20000010 v d = d\<lparr>d_msg_addr_lo := v\<rparr>"
    and "\<And>v d. mmio_w32 b 0x20000014 v d = d\<lparr>d_msg_addr_hi := v\<rparr>"
    and "\<And>v d. mmio_w32 b 0x20000018 v d = d\<lparr>d_msg_len := v\<rparr>"
    and "\<And>v d. mmio_w32 b 0x2000001C v d = d\<lparr>d_level := v\<rparr>"
    and "\<And>d. mmio_w32 b 0x2000000C 1 d = log_cmd d"
    and "\<And>d. mmio_r32 b 0x20000008 d = (d_status d, d)"
  shows "\<exists>d1 rc. vlog_write b level gpa len d = (rc, log_cmd d1) \<and>
    msg_addr d1 = gpa \<and> d_msg_len d1 = len \<and> d_level d1 = level \<and>
    d_status d1 = d_status d \<and> d_seq d1 = d_seq d \<and> d_bytes d1 = d_bytes d \<and>
    (\<forall>x. log_cmd d1 = clear_error x \<longrightarrow> rc = 0) \<and>
    (\<forall>x code. code < 256 \<and> log_cmd d1 = set_error (clear_error x) code \<longrightarrow> rc = uint code)"
proof -
  let ?d1 = "d\<lparr>d_msg_addr_lo := ucast gpa, d_msg_addr_hi := ucast (drop_bit 32 gpa), d_msg_len := len, d_level := level\<rparr>"
  have "vlog_write b level gpa len d = (status_result (d_status (log_cmd ?d1)), log_cmd ?d1)"
    using assms by (simp add: vlog_write_def Let_def DEV_BASE_def VLOG_REG_MSG_LO_def VLOG_REG_MSG_HI_def VLOG_REG_LEN_def
        VLOG_REG_LEVEL_def VLOG_REG_CMD_def VLOG_REG_STATUS_def VLOG_CMD_LOG_def)
  moreover have "msg_addr ?d1 = gpa" using halves_make_the_address [where d = d and gpa = gpa] by (simp add: msg_addr_def)
  moreover have "status_result (d_status (set_error (clear_error x) code)) = uint code" if "code < 256" for x code
    using that by (rule cleared_error_is_read)
  ultimately show ?thesis
    by (intro exI [of _ ?d1] exI [of _ "status_result (d_status (log_cmd ?d1))"]) (simp add: clear_error_clears)
qed

text \<open>A bus with a device whose LOG command refuses every message as too long.\<close>

definition demo_bus :: "vlog_device bus" where
  "demo_bus =
     \<lparr>mmio_w32 = (\<lambda>a v d.
        if a = 0x20000010 then d\<lparr>d_msg_addr_lo := v\<rparr>
        else if a = 0x20000014 then d\<lparr>d_msg_addr_hi := v\<rparr>
        else if a = 0x20000018 then d\<lparr>d_msg_len := v\<rparr>
        else if a = 0x2000001C then d\<lparr>d_level := v\<rparr>
        else if a = 0x2000000C then set_error (clear_error d) 3 else d),
      mmio_r32 = (\<lambda>a d. (if a = 0x20000008 then d_status d else 0, d))\<rparr>"

theorem guest_call_meets_device_witness:
  "fst (vlog_write demo_bus 1 0x100010 9999 (vlog_device_init undefined)) = 3"
proof -
  obtain d1 rc where "vlog_write demo_bus 1 0x100010 9999 (vlog_device_init undefined) = (rc, set_error (clear_error d1) 3)"
    and "\<forall>x code. code < 256 \<and> set_error (clear_error d1) 3 = set_error (clear_error x) code \<longrightarrow> rc = uint code"
    using guest_call_meets_device [where b = demo_bus and log_cmd = "\<lambda>d. set_error (clear_error d) 3" and level = 1
        and gpa = "0x100010" and len = 9999 and d = "vlog_device_init undefined"]
    by (auto simp: demo_bus_def)
  from this(1) this(2) [rule_format, of 3 d1] show ?thesis by simp
qed

end
