(* ===== verification/LogStore.thy ===== *)
theory LogStore
  imports Prelude
begin

text \<open>
  The log store of \<^verbatim>\<open>project_1/emulator/logstore.c\<close>: the one sink all ingest paths append to.
  The first part is the sequential meaning of each function; the second runs any number of
  threads that call \<open>logstore_append\<close> and \<open>logstore_flush\<close>, one stdio or mutex operation at a
  time, and shows that the mutex keeps the records whole. The interface the producers rely
  on is the locale \<open>record_store\<close>, interpreted here on \<open>logstore_append\<close>.
\<close>

section \<open>The store and its functions\<close>

text \<open>
  \<open>ls_disk\<close> is what has reached the file, \<open>ls_buf\<close> what still sits in the stdio buffer of
  \<open>FILE *f\<close>, \<open>ls_lock\<close> the thread that holds the mutex.
\<close>

record logstore =
  ls_disk :: string
  ls_buf :: string
  ls_lock :: "nat option"

definition level_name :: "u32 \<Rightarrow> string" where
  "level_name level =
     (if level = 0 then ''DEBUG''
      else if level = 1 then ''INFO''
      else if level = 2 then ''WARN''
      else if level = 3 then ''ERROR''
      else ''LVL?'')"

text \<open>\<open>calloc\<close> and \<open>fopen (path, "w")\<close> may fail; opening truncates the file.\<close>

definition logstore_open :: "bool \<Rightarrow> bool \<Rightarrow> logstore option" where
  "logstore_open calloc_ok fopen_ok =
     (if \<not> calloc_ok then None
      else if \<not> fopen_ok then None
      else Some \<lparr>ls_disk = [], ls_buf = [], ls_lock = None\<rparr>)"

text \<open>Closing gives the final contents of the file (\<open>fclose\<close> flushes); a null store is ignored.\<close>

definition logstore_close :: "logstore option \<Rightarrow> string option" where
  "logstore_close ls = map_option (\<lambda>s. ls_disk s @ ls_buf s) ls"

definition ls_write :: "string \<Rightarrow> logstore \<Rightarrow> logstore" where
  "ls_write w s = s\<lparr>ls_buf := ls_buf s @ w\<rparr>"

definition ls_fflush :: "logstore \<Rightarrow> logstore" where
  "ls_fflush s = s\<lparr>ls_disk := ls_disk s @ ls_buf s, ls_buf := []\<rparr>"

definition ls_stream :: "logstore \<Rightarrow> string" where
  "ls_stream s = ls_disk s @ ls_buf s"

text \<open>\<open>fprintf (f, "[%u] %s ", seq, level_name (level))\<close>\<close>

definition log_header :: "u32 \<Rightarrow> u32 \<Rightarrow> string" where
  "log_header seq level = ''['' @ dec (unat seq) @ ''] '' @ level_name level @ '' ''"

text \<open>The record format the header file promises: \<open>[<seq>] <LEVEL> <bytes>\<close> and a newline.\<close>

definition log_record :: "u32 \<Rightarrow> u32 \<Rightarrow> string \<Rightarrow> string" where
  "log_record seq level msg = log_header seq level @ msg @ [newline]"

definition logstore_append :: "logstore \<Rightarrow> u32 \<Rightarrow> u32 \<Rightarrow> string \<Rightarrow> u32 \<Rightarrow> logstore" where
  "logstore_append ls seq level bytes len =
     (let s1 = ls_write (log_header seq level) ls;
          s2 = (if len \<noteq> 0 then ls_write (take (unat len) bytes) s1 else s1);
          s3 = ls_write [newline] s2
      in ls_fflush s3)"

definition logstore_flush :: "logstore \<Rightarrow> logstore" where
  "logstore_flush ls = ls_fflush ls"

lemma ls_stream_simps [simp]:
  "ls_stream (ls_write w s) = ls_stream s @ w"
  "ls_stream (ls_fflush s) = ls_stream s"
  "ls_lock (ls_write w s) = ls_lock s"
  "ls_lock (ls_fflush s) = ls_lock s"
  "ls_buf (ls_fflush s) = []"
  "ls_disk (ls_fflush s) = ls_stream s"
  by (simp_all add: ls_stream_def ls_write_def ls_fflush_def)

lemma ls_stream_append:
  "ls_stream (logstore_append ls seq level bytes len)
     = ls_stream ls @ log_record seq level (take (unat len) bytes)"
  by (simp add: logstore_append_def Let_def log_record_def unat_eq_zero)

lemma logstore_append_flushed:
  "ls_buf (logstore_append ls seq level bytes len) = []"
  "ls_disk (logstore_append ls seq level bytes len)
     = ls_stream ls @ log_record seq level (take (unat len) bytes)"
proof -
  show buf: "ls_buf (logstore_append ls seq level bytes len) = []"
    by (simp add: logstore_append_def Let_def)
  show "ls_disk (logstore_append ls seq level bytes len)
     = ls_stream ls @ log_record seq level (take (unat len) bytes)"
    using ls_stream_append [of ls seq level bytes len] buf by (simp add: ls_stream_def)
qed

section \<open>Reading a record back\<close>

text \<open>
  The prefix of a record determines the sequence number: the digits after the bracket.
\<close>

definition record_seq :: "string \<Rightarrow> int" where
  "record_seq r = digits_val (takeWhile is_digit (tl r))"

lemma record_seq_log_record: "record_seq (log_record seq level msg) = uint seq"
  by (simp add: record_seq_def log_record_def log_header_def takeWhile_dec cstr_simps)

section \<open>The interface the producers use\<close>

text \<open>
  A producer numbers its own records: \<open>numbered n rs\<close> is the text of the records \<open>rs\<close>
  numbered from \<open>n\<close> on (modulo \<open>2 ^ 32\<close>), and \<open>append_all\<close> the loop of a producer that
  hands them to the store one at a time.
\<close>

fun numbered :: "u32 \<Rightarrow> (u32 \<times> string) list \<Rightarrow> string" where
  "numbered n [] = []"
| "numbered n ((level, msg) # rs) = log_record n level msg @ numbered (n + 1) rs"

fun append_all ::
    "('s \<Rightarrow> u32 \<Rightarrow> u32 \<Rightarrow> string \<Rightarrow> u32 \<Rightarrow> 's) \<Rightarrow> 's \<Rightarrow> u32 \<Rightarrow> (u32 \<times> string) list \<Rightarrow> 's \<times> u32"
where
  "append_all app s n [] = (s, n)"
| "append_all app s n ((level, msg) # rs) =
     append_all app (app s n level msg (of_nat (length msg))) (n + 1) rs"

text \<open>Messages whose length survives the cast to \<open>uint32_t\<close>.\<close>

definition short_msgs :: "(u32 \<times> string) list \<Rightarrow> bool" where
  "short_msgs rs \<longleftrightarrow> list_all (\<lambda>(_, msg). length msg < 2 ^ 32) rs"

lemma short_msgs_simps [simp]:
  "short_msgs []"
  "short_msgs ((l, m) # rs) \<longleftrightarrow> length m < 2 ^ 32 \<and> short_msgs rs"
  "short_msgs (rs @ qs) \<longleftrightarrow> short_msgs rs \<and> short_msgs qs"
  by (simp_all add: short_msgs_def)

lemma unat_of_length: "length m < 2 ^ 32 \<Longrightarrow> unat (of_nat (length m) :: u32) = length m"
  by (simp add: unat_of_nat take_bit_nat_eq_self)

lemma numbered_append:
  "numbered n (rs @ qs) = numbered n rs @ numbered (n + of_nat (length rs)) qs"
  by (induction n rs rule: numbered.induct) (simp_all add: ac_simps)

lemma append_all_Cons:
  "append_all app s n (r # rs) =
     append_all app (app s n (fst r) (snd r) (of_nat (length (snd r)))) (n + 1) rs"
  by (cases r) simp

lemma append_all_append:
  "append_all app s n (rs @ qs)
     = (let (s', n') = append_all app s n rs in append_all app s' n' qs)"
  by (induction app s n rs rule: append_all.induct) simp_all

lemma append_all_seq: "snd (append_all app s n rs) = n + of_nat (length rs)"
  by (induction app s n rs rule: append_all.induct) (simp_all add: ac_simps)

locale record_store =
  fixes append :: "'s \<Rightarrow> u32 \<Rightarrow> u32 \<Rightarrow> string \<Rightarrow> u32 \<Rightarrow> 's"
    and contents :: "'s \<Rightarrow> string"
  assumes contents_append:
    "contents (append s seq level bytes len)
       = contents s @ log_record seq level (take (unat len) bytes)"
begin

lemma contents_append_msg:
  "length msg < 2 ^ 32 \<Longrightarrow>
     contents (append s seq level msg (of_nat (length msg))) = contents s @ log_record seq level msg"
  by (simp add: contents_append unat_of_length)

lemma contents_append_all:
  "short_msgs rs \<Longrightarrow> contents (fst (append_all append s n rs)) = contents s @ numbered n rs"
proof (induction rs arbitrary: s n)
  case Nil
  then show ?case by simp
next
  case (Cons r rs)
  obtain l m where r: "r = (l, m)" by (cases r)
  with Cons.prems have "length m < 2 ^ 32" "short_msgs rs" by simp_all
  with Cons.IH r show ?case by (simp add: contents_append_msg)
qed

lemma contents_only_grow:
  "\<exists>w. contents (append s seq level bytes len) = contents s @ w"
  by (simp add: contents_append)

end

interpretation file_store: record_store logstore_append ls_stream
  by unfold_locales (rule ls_stream_append)

section \<open>Threads that share the store\<close>

text \<open>
  The mutex and stdio operations a call performs, in program order. \<open>OpLock\<close> blocks while
  another thread holds the mutex.
\<close>

datatype ls_op = OpLock | OpWrite string | OpFlush | OpUnlock

datatype ls_call = CallAppend u32 u32 string u32 | CallFlush

fun call_ops :: "ls_call \<Rightarrow> ls_op list" where
  "call_ops (CallAppend seq level bytes len) =
     [OpLock, OpWrite (log_header seq level)]
       @ (if len \<noteq> 0 then [OpWrite (take (unat len) bytes)] else [])
       @ [OpWrite [newline], OpFlush, OpUnlock]"
| "call_ops CallFlush = [OpLock, OpFlush, OpUnlock]"

fun ls_exec :: "nat \<Rightarrow> ls_op \<Rightarrow> logstore \<Rightarrow> logstore option" where
  "ls_exec t OpLock s = (if ls_lock s = None then Some (s\<lparr>ls_lock := Some t\<rparr>) else None)"
| "ls_exec t (OpWrite w) s = Some (ls_write w s)"
| "ls_exec t OpFlush s = Some (ls_fflush s)"
| "ls_exec t OpUnlock s = Some (s\<lparr>ls_lock := None\<rparr>)"

fun ls_run :: "nat \<Rightarrow> ls_op list \<Rightarrow> logstore \<Rightarrow> logstore option" where
  "ls_run t [] s = Some s"
| "ls_run t (op # ops) s = (case ls_exec t op s of None \<Rightarrow> None | Some s' \<Rightarrow> ls_run t ops s')"

text \<open>
  A system: the store, what is left of each thread's current call (\<open>sys_pc\<close>, empty between
  calls), the calls each thread still has to finish (the current one first), and the calls
  finished so far, in the order of their unlocks.
\<close>

record ls_sys =
  sys_store :: logstore
  sys_pc :: "nat \<Rightarrow> ls_op list"
  sys_todo :: "nat \<Rightarrow> ls_call list"
  sys_done :: "(nat \<times> ls_call) list"

text \<open>
  Any thread may move next. \<open>spill\<close> is stdio writing out part of a full buffer on its own.
\<close>

inductive ls_step :: "ls_sys \<Rightarrow> ls_sys \<Rightarrow> bool" where
  enter: "sys_pc S t = [] \<Longrightarrow> sys_todo S t = c # cs \<Longrightarrow>
    ls_step S (S\<lparr>sys_pc := (sys_pc S)(t := call_ops c)\<rparr>)"
| exec: "sys_pc S t = op # ops \<Longrightarrow> ops \<noteq> [] \<Longrightarrow> ls_exec t op (sys_store S) = Some s' \<Longrightarrow>
    ls_step S (S\<lparr>sys_store := s', sys_pc := (sys_pc S)(t := ops)\<rparr>)"
| leave: "sys_pc S t = [op] \<Longrightarrow> sys_todo S t = c # cs \<Longrightarrow>
    ls_exec t op (sys_store S) = Some s' \<Longrightarrow>
    ls_step S (S\<lparr>sys_store := s', sys_pc := (sys_pc S)(t := []),
                 sys_todo := (sys_todo S)(t := cs), sys_done := sys_done S @ [(t, c)]\<rparr>)"
| spill: "ls_buf (sys_store S) = w @ v \<Longrightarrow>
    ls_step S (S\<lparr>sys_store := (sys_store S)\<lparr>ls_disk := ls_disk (sys_store S) @ w, ls_buf := v\<rparr>\<rparr>)"

definition ls_start :: "(nat \<Rightarrow> ls_call list) \<Rightarrow> ls_sys" where
  "ls_start progs =
     \<lparr>sys_store = \<lparr>ls_disk = [], ls_buf = [], ls_lock = None\<rparr>, sys_pc = (\<lambda>_. []),
      sys_todo = progs, sys_done = []\<rparr>"

inductive ls_reach :: "(nat \<Rightarrow> ls_call list) \<Rightarrow> ls_sys \<Rightarrow> bool" for progs where
  start: "ls_reach progs (ls_start progs)"
| step: "ls_reach progs S \<Longrightarrow> ls_step S S' \<Longrightarrow> ls_reach progs S'"

fun op_output :: "ls_op \<Rightarrow> string" where
  "op_output (OpWrite w) = w"
| "op_output _ = []"

definition ops_output :: "ls_op list \<Rightarrow> string" where
  "ops_output ops = concat (map op_output ops)"

fun call_output :: "ls_call \<Rightarrow> string" where
  "call_output (CallAppend seq level bytes len) = log_record seq level (take (unat len) bytes)"
| "call_output CallFlush = []"

definition calls_of :: "nat \<Rightarrow> (nat \<times> ls_call) list \<Rightarrow> ls_call list" where
  "calls_of t ds = map snd (filter (\<lambda>(u, _). u = t) ds)"

lemma ops_output_simps [simp]:
  "ops_output [] = []"
  "ops_output (op # ops) = op_output op @ ops_output ops"
  "ops_output (ops @ ops') = ops_output ops @ ops_output ops'"
  by (simp_all add: ops_output_def)

lemma call_ops_output: "ops_output (call_ops c) = call_output c"
  by (cases c) (auto simp: log_record_def unat_eq_zero)

lemma calls_of_simps [simp]:
  "calls_of t [] = []"
  "calls_of t (ds @ [(u, c)]) = calls_of t ds @ (if u = t then [c] else [])"
  by (simp_all add: calls_of_def)

text \<open>Every call begins with the lock, ends with the unlock, and has neither in between.\<close>

lemma call_ops_shape:
  "\<exists>body. call_ops c = OpLock # body @ [OpUnlock] \<and> OpLock \<notin> set body \<and> OpUnlock \<notin> set body"
  by (cases c) (auto intro: exI [of _ "[OpWrite a, OpFlush]" for a])

lemma ls_run_append: "ls_run t (xs @ ys) s = Option.bind (ls_run t xs s) (ls_run t ys)"
  by (induction xs arbitrary: s) (auto split: option.splits)

text \<open>Run alone, the operations of a call are the sequential function.\<close>

lemma ls_run_call_append:
  "ls_lock s = None \<Longrightarrow>
     ls_run t (call_ops (CallAppend seq level bytes len)) s
       = Some (logstore_append s seq level bytes len)"
  by (simp add: logstore_append_def Let_def ls_write_def ls_fflush_def)

lemma ls_run_call_flush:
  "ls_lock s = None \<Longrightarrow> ls_run t (call_ops CallFlush) s = Some (logstore_flush s)"
  by (simp add: logstore_flush_def ls_fflush_def)

text \<open>
  The invariant: every thread but the mutex holder is between calls or about to lock, the
  file holds the records of the finished calls, and on top of them what the holder's current
  call has written so far.
\<close>

definition idle_thread :: "ls_sys \<Rightarrow> nat \<Rightarrow> bool" where
  "idle_thread S t \<longleftrightarrow>
     sys_pc S t = [] \<or> (\<exists>c cs. sys_todo S t = c # cs \<and> sys_pc S t = call_ops c)"

definition done_text :: "ls_sys \<Rightarrow> string" where
  "done_text S = concat (map (\<lambda>(_, c). call_output c) (sys_done S))"

definition mid_call :: "ls_sys \<Rightarrow> nat \<Rightarrow> bool" where
  "mid_call S h \<longleftrightarrow>
     (\<exists>c cs pre. sys_todo S h = c # cs \<and> sys_pc S h \<noteq> [] \<and> pre \<noteq> [] \<and>
        call_ops c = pre @ sys_pc S h \<and>
        ls_stream (sys_store S) = done_text S @ ops_output pre)"

definition ls_inv :: "(nat \<Rightarrow> ls_call list) \<Rightarrow> ls_sys \<Rightarrow> bool" where
  "ls_inv progs S \<longleftrightarrow>
     (\<forall>t. progs t = calls_of t (sys_done S) @ sys_todo S t) \<and>
     (\<forall>t. ls_lock (sys_store S) \<noteq> Some t \<longrightarrow> idle_thread S t) \<and>
     (case ls_lock (sys_store S) of
        None \<Rightarrow> ls_stream (sys_store S) = done_text S
      | Some h \<Rightarrow> mid_call S h)"

lemma ls_inv_start: "ls_inv progs (ls_start progs)"
  by (simp add: ls_inv_def ls_start_def idle_thread_def done_text_def ls_stream_def)

lemma call_ops_inner:
  assumes "call_ops c = pre @ op # ops" and "pre \<noteq> []"
  shows "op \<noteq> OpLock" and "ops \<noteq> [] \<Longrightarrow> op \<noteq> OpUnlock" and "ops = [] \<Longrightarrow> op = OpUnlock"
proof -
  obtain body where body: "call_ops c = OpLock # body @ [OpUnlock]"
      "OpLock \<notin> set body" "OpUnlock \<notin> set body"
    using call_ops_shape by blast
  from assms obtain pre' where pre': "body @ [OpUnlock] = pre' @ op # ops"
    using body(1) by (cases pre) auto
  show "op \<noteq> OpLock"
  proof
    assume "op = OpLock"
    with pre' have "OpLock \<in> set (body @ [OpUnlock])" by simp
    with body(2) show False by simp
  qed
  show "ops = [] \<Longrightarrow> op = OpUnlock" using pre' by simp
  assume "ops \<noteq> []"
  then obtain ops' o' where "ops = ops' @ [o']" by (cases ops rule: rev_cases) auto
  with pre' have "op \<in> set body" by auto
  with body(3) show "op \<noteq> OpUnlock" by blast
qed

lemma call_ops_first: "call_ops c = op # ops \<Longrightarrow> op = OpLock \<and> ops \<noteq> []"
  by (cases c) auto

lemma ls_exec_inner:
  assumes "ls_exec t op s = Some s'" and "op \<noteq> OpLock" and "op \<noteq> OpUnlock"
  shows "ls_lock s' = ls_lock s" and "ls_stream s' = ls_stream s @ op_output op"
  using assms by (cases op; force)+

lemma ls_exec_unlock:
  assumes "ls_exec t OpUnlock s = Some s'"
  shows "ls_lock s' = None" and "ls_stream s' = ls_stream s"
  using assms by (auto simp: ls_stream_def)

lemma ls_exec_lock:
  assumes "ls_exec t OpLock s = Some s'"
  shows "ls_lock s = None" and "ls_lock s' = Some t" and "ls_stream s' = ls_stream s"
  using assms by (auto simp: ls_stream_def split: if_splits)

lemma ls_inv_enter:
  assumes inv: "ls_inv progs S" and pc: "sys_pc S t = []" and todo: "sys_todo S t = c # cs"
  shows "ls_inv progs (S\<lparr>sys_pc := (sys_pc S)(t := call_ops c)\<rparr>)" (is "ls_inv progs ?S")
proof -
  have dtext: "done_text ?S = done_text S" by (simp add: done_text_def)
  have idle: "idle_thread S u \<Longrightarrow> idle_thread ?S u" for u
    using todo by (simp add: idle_thread_def)
  have mid: "mid_call S h \<Longrightarrow> mid_call ?S h" for h
    using pc dtext by (cases "h = t") (simp_all add: mid_call_def)
  from inv show ?thesis
    unfolding ls_inv_def using dtext by (cases "ls_lock (sys_store S)") (simp_all add: idle mid)
qed

lemma ls_inv_exec:
  assumes inv: "ls_inv progs S" and pc: "sys_pc S t = op # ops" and ops: "ops \<noteq> []"
    and ex: "ls_exec t op (sys_store S) = Some s'"
  shows "ls_inv progs (S\<lparr>sys_store := s', sys_pc := (sys_pc S)(t := ops)\<rparr>)"
proof (cases "ls_lock (sys_store S) = Some t")
  case True
  with inv have "mid_call S t" by (simp add: ls_inv_def)
  then obtain c cs pre where m: "sys_todo S t = c # cs" "pre \<noteq> []" "call_ops c = pre @ op # ops"
      "ls_stream (sys_store S) = done_text S @ ops_output pre"
    using pc by (auto simp: mid_call_def)
  note op = call_ops_inner [OF m(3,2)]
  note ex' = ls_exec_inner [OF ex op(1) op(2) [OF ops]]
  let ?S = "S\<lparr>sys_store := s', sys_pc := (sys_pc S)(t := ops)\<rparr>"
  have "mid_call ?S t"
    using m ops ex' by (auto simp: mid_call_def done_text_def intro!: exI [of _ "pre @ [op]"])
  with inv True ex' show ?thesis by (auto simp: ls_inv_def idle_thread_def)
next
  case False
  with inv have "idle_thread S t" by (simp add: ls_inv_def)
  with pc obtain c cs where m: "sys_todo S t = c # cs" "call_ops c = op # ops"
    by (auto simp: idle_thread_def)
  from call_ops_first [OF m(2)] ex have lock: "ls_exec t OpLock (sys_store S) = Some s'" by simp
  note ex' = ls_exec_lock [OF lock]
  let ?S = "S\<lparr>sys_store := s', sys_pc := (sys_pc S)(t := ops)\<rparr>"
  have "op_output op = []" using call_ops_first [OF m(2)] by simp
  then have "mid_call ?S t"
    using m ops ex' inv by (auto simp: mid_call_def done_text_def ls_inv_def intro!: exI [of _ "[op]"])
  with inv ex' show ?thesis by (auto simp: ls_inv_def idle_thread_def)
qed

lemma ls_inv_leave:
  assumes inv: "ls_inv progs S" and pc: "sys_pc S t = [op]" and todo: "sys_todo S t = c # cs"
    and ex: "ls_exec t op (sys_store S) = Some s'"
  shows "ls_inv progs (S\<lparr>sys_store := s', sys_pc := (sys_pc S)(t := []),
      sys_todo := (sys_todo S)(t := cs), sys_done := sys_done S @ [(t, c)]\<rparr>)"
proof -
  have holder: "ls_lock (sys_store S) = Some t"
  proof (rule ccontr)
    assume "ls_lock (sys_store S) \<noteq> Some t"
    with inv have "idle_thread S t" by (simp add: ls_inv_def)
    with pc todo have "call_ops c = op # []" by (auto simp: idle_thread_def)
    then show False using call_ops_first by blast
  qed
  with inv have "mid_call S t" by (simp add: ls_inv_def)
  then obtain pre where m: "pre \<noteq> []" "call_ops c = pre @ op # []"
      "ls_stream (sys_store S) = done_text S @ ops_output pre"
    using pc todo by (auto simp: mid_call_def)
  have op: "op = OpUnlock" using call_ops_inner(3) [OF m(2,1)] by simp
  note ex' = ls_exec_unlock [OF ex [unfolded op]]
  have "call_output c = ops_output pre"
    using m(2) op by (simp flip: call_ops_output)
  with inv holder m ex' todo pc show ?thesis
    by (auto simp: ls_inv_def idle_thread_def done_text_def)
qed

lemma ls_inv_spill:
  assumes inv: "ls_inv progs S" and buf: "ls_buf (sys_store S) = w @ v"
  shows "ls_inv progs
    (S\<lparr>sys_store := (sys_store S)\<lparr>ls_disk := ls_disk (sys_store S) @ w, ls_buf := v\<rparr>\<rparr>)"
  using assms
  by (auto simp: ls_inv_def idle_thread_def mid_call_def done_text_def ls_stream_def
      split: option.splits)

lemma ls_step_inv: "ls_step S S' \<Longrightarrow> ls_inv progs S \<Longrightarrow> ls_inv progs S'"
  by (induction rule: ls_step.induct)
     (auto intro: ls_inv_enter ls_inv_exec ls_inv_leave ls_inv_spill)

lemma ls_reach_inv: "ls_reach progs S \<Longrightarrow> ls_inv progs S"
  by (induction rule: ls_reach.induct) (auto intro: ls_inv_start ls_step_inv)

text \<open>
  The second invariant is about the file itself, without the stdio buffer: outside the calls
  the buffer is empty, inside one the file holds the finished records and on top of them only
  text of the call in progress, all of it once the flush is over.
\<close>

definition ls_flushed :: "ls_sys \<Rightarrow> bool" where
  "ls_flushed S \<longleftrightarrow>
     (case ls_lock (sys_store S) of
        None \<Rightarrow> ls_buf (sys_store S) = []
      | Some h \<Rightarrow> (\<exists>part. ls_disk (sys_store S) = done_text S @ part) \<and>
                 (OpFlush \<notin> set (sys_pc S h) \<longrightarrow> ls_buf (sys_store S) = []))"

lemma ls_flushed_start: "ls_flushed (ls_start progs)"
  by (simp add: ls_flushed_def ls_start_def)

text \<open>No call writes after its flush, and every call flushes before it unlocks.\<close>

lemma call_ops_flush_last: "call_ops c = pre @ op # ops \<Longrightarrow> OpFlush \<notin> set ops \<Longrightarrow> op = OpFlush \<or> op = OpUnlock"
proof (induction ops rule: rev_induct)
  case Nil
  then show ?case by (cases c) auto
next
  case (snoc o' ops)
  then show ?case
    by (cases c; cases ops rule: rev_cases) (auto split: if_splits)
qed

lemma ls_exec_disk:
  assumes "ls_exec t op s = Some s'" and "ls_disk s = d @ part"
  shows "\<exists>part. ls_disk s' = d @ part"
  using assms by (cases op) (auto simp: ls_write_def ls_fflush_def split: if_splits)

lemma ls_flushed_exec:
  assumes inv: "ls_inv progs S" and fl: "ls_flushed S" and pc: "sys_pc S t = op # ops"
    and ops: "ops \<noteq> []" and ex: "ls_exec t op (sys_store S) = Some s'"
  shows "ls_flushed (S\<lparr>sys_store := s', sys_pc := (sys_pc S)(t := ops)\<rparr>)"
proof (cases "ls_lock (sys_store S) = Some t")
  case True
  with inv have "mid_call S t" by (simp add: ls_inv_def)
  then obtain c pre where m: "pre \<noteq> []" "call_ops c = pre @ op # ops"
    using pc by (auto simp: mid_call_def)
  note op = call_ops_inner [OF m(2,1)]
  have lock: "ls_lock s' = Some t" using ls_exec_inner(1) [OF ex op(1) op(2) [OF ops]] True by simp
  obtain part where "ls_disk (sys_store S) = done_text S @ part" using fl True by (auto simp: ls_flushed_def)
  from ls_exec_disk [OF ex this] have disk: "\<exists>part. ls_disk s' = done_text S @ part" .
  have "ls_buf s' = []" if "OpFlush \<notin> set ops"
    using call_ops_flush_last [OF m(2) that] op(2) [OF ops] ex by auto
  with lock disk show ?thesis by (simp add: ls_flushed_def done_text_def)
next
  case False
  with inv have "idle_thread S t" by (simp add: ls_inv_def)
  with pc obtain c where "call_ops c = op # ops" by (auto simp: idle_thread_def)
  from call_ops_first [OF this] ex have lock: "ls_exec t OpLock (sys_store S) = Some s'" by simp
  with inv fl show ?thesis
    by (auto simp: ls_flushed_def ls_inv_def ls_stream_def done_text_def split: if_splits)
qed

lemma ls_flushed_leave:
  assumes inv: "ls_inv progs S" and fl: "ls_flushed S" and pc: "sys_pc S t = [op]"
    and todo: "sys_todo S t = c # cs" and ex: "ls_exec t op (sys_store S) = Some s'"
  shows "ls_flushed (S\<lparr>sys_store := s', sys_pc := (sys_pc S)(t := []),
      sys_todo := (sys_todo S)(t := cs), sys_done := sys_done S @ [(t, c)]\<rparr>)"
proof -
  have holder: "ls_lock (sys_store S) = Some t"
  proof (rule ccontr)
    assume "ls_lock (sys_store S) \<noteq> Some t"
    with inv have "idle_thread S t" by (simp add: ls_inv_def)
    with pc todo have "call_ops c = op # []" by (auto simp: idle_thread_def)
    then show False using call_ops_first by blast
  qed
  with inv have "mid_call S t" by (simp add: ls_inv_def)
  then obtain pre where m: "pre \<noteq> []" "call_ops c = pre @ op # []" using pc todo by (auto simp: mid_call_def)
  have op: "op = OpUnlock" using call_ops_inner(3) [OF m(2,1)] by simp
  with fl holder pc ex show ?thesis by (auto simp: ls_flushed_def)
qed

lemma ls_flushed_spill:
  assumes "ls_flushed S" and "ls_buf (sys_store S) = w @ v"
  shows "ls_flushed
    (S\<lparr>sys_store := (sys_store S)\<lparr>ls_disk := ls_disk (sys_store S) @ w, ls_buf := v\<rparr>\<rparr>)"
  using assms by (auto simp: ls_flushed_def done_text_def split: option.splits)

lemma ls_flushed_enter:
  assumes "ls_inv progs S" and "ls_flushed S" and "sys_pc S t = []"
  shows "ls_flushed (S\<lparr>sys_pc := (sys_pc S)(t := call_ops c)\<rparr>)"
  using assms by (auto simp: ls_flushed_def ls_inv_def mid_call_def done_text_def split: option.splits)

lemma ls_step_flushed: "ls_step S S' \<Longrightarrow> ls_inv progs S \<Longrightarrow> ls_flushed S \<Longrightarrow> ls_flushed S'"
  by (induction rule: ls_step.induct)
     (auto intro: ls_flushed_enter ls_flushed_exec ls_flushed_leave ls_flushed_spill)

lemma ls_reach_flushed: "ls_reach progs S \<Longrightarrow> ls_flushed S"
  by (induction rule: ls_reach.induct) (auto intro: ls_flushed_start ls_step_flushed ls_reach_inv)

text \<open>
  The file in a reachable state: the finished records and the beginning of the record the
  mutex holder is writing.
\<close>

lemma ls_disk_reachable:
  assumes "ls_reach progs S"
  obtains part where "ls_disk (sys_store S) = done_text S @ part"
    and "ls_lock (sys_store S) = None \<Longrightarrow> part = [] \<and> ls_buf (sys_store S) = []"
    and "\<And>h. ls_lock (sys_store S) = Some h \<Longrightarrow>
      \<exists>c cs rest. sys_todo S h = c # cs \<and> call_output c = part @ rest"
proof (cases "ls_lock (sys_store S)")
  case None
  with ls_reach_inv [OF assms] ls_reach_flushed [OF assms] that [of "[]"] show ?thesis
    by (simp add: ls_inv_def ls_flushed_def ls_stream_def)
next
  case (Some h)
  with ls_reach_inv [OF assms] have "mid_call S h" by (simp add: ls_inv_def)
  then obtain c cs pre where m: "sys_todo S h = c # cs" "call_ops c = pre @ sys_pc S h"
      "ls_stream (sys_store S) = done_text S @ ops_output pre"
    by (auto simp: mid_call_def)
  obtain part where part: "ls_disk (sys_store S) = done_text S @ part"
    using Some ls_reach_flushed [OF assms] by (auto simp: ls_flushed_def)
  with m(3) have "ops_output pre = part @ ls_buf (sys_store S)" by (simp add: ls_stream_def)
  moreover have "call_output c = ops_output pre @ ops_output (sys_pc S h)"
    using m(2) by (simp flip: call_ops_output)
  ultimately show ?thesis using m(1) part Some that by simp
qed

text \<open>A thread that runs its whole call without being interrupted.\<close>

lemma ls_reach_run:
  "ls_reach progs S \<Longrightarrow> sys_pc S t \<noteq> [] \<Longrightarrow> sys_todo S t = c # cs \<Longrightarrow>
     ls_run t (sys_pc S t) (sys_store S) = Some s' \<Longrightarrow>
     ls_reach progs (S\<lparr>sys_store := s', sys_pc := (sys_pc S)(t := []),
       sys_todo := (sys_todo S)(t := cs), sys_done := sys_done S @ [(t, c)]\<rparr>)"
proof (induction "sys_pc S t" arbitrary: S)
  case Nil
  then show ?case by simp
next
  case (Cons op ops)
  from Cons.prems(4) obtain s1 where ex: "ls_exec t op (sys_store S) = Some s1"
      and run: "ls_run t ops s1 = Some s'"
    by (auto simp flip: Cons.hyps(2) split: option.splits)
  show ?case
  proof (cases "ops = []")
    case True
    with run have "s1 = s'" by simp
    with ls_step.leave [of S t op c cs s1] True Cons.hyps(2) Cons.prems(3) ex
    show ?thesis by (auto intro: ls_reach.step [OF Cons.prems(1)])
  next
    case False
    let ?S = "S\<lparr>sys_store := s1, sys_pc := (sys_pc S)(t := ops)\<rparr>"
    have "ls_reach progs ?S"
      using ls_step.exec [OF Cons.hyps(2) [symmetric] False ex] by (rule ls_reach.step [OF Cons.prems(1)])
    from Cons.hyps(1) [OF _ this] False Cons.prems(3) run show ?thesis by simp
  qed
qed

lemma ls_reach_call:
  assumes "ls_reach progs S" and "sys_pc S t = []" and "sys_todo S t = c # cs"
    and "ls_run t (call_ops c) (sys_store S) = Some s'"
  shows "ls_reach progs (S\<lparr>sys_store := s', sys_pc := sys_pc S,
       sys_todo := (sys_todo S)(t := cs), sys_done := sys_done S @ [(t, c)]\<rparr>)"
proof -
  let ?S = "S\<lparr>sys_pc := (sys_pc S)(t := call_ops c)\<rparr>"
  have "ls_reach progs ?S"
    using assms(1) ls_step.enter [OF assms(2,3)] by (rule ls_reach.step)
  moreover have "call_ops c \<noteq> []" by (cases c) simp_all
  ultimately show ?thesis
    using ls_reach_run [of progs ?S t c cs s'] assms by (simp add: fun_upd_idem)
qed

text \<open>
  While a call is unfinished, some thread can move: the holder of the mutex if there is one,
  any thread with work otherwise.
\<close>

lemma thread_can_move:
  assumes inv: "ls_inv progs S" and work: "sys_todo S t \<noteq> []"
  shows "\<exists>S' u. ls_step S S' \<and> sys_pc S' u \<noteq> sys_pc S u"
proof (cases "ls_lock (sys_store S)")
  case (Some h)
  with inv have "mid_call S h" by (simp add: ls_inv_def)
  then obtain c cs pre op ops where m: "sys_todo S h = c # cs" "pre \<noteq> []"
      "call_ops c = pre @ op # ops" "sys_pc S h = op # ops"
    by (cases "sys_pc S h") (auto simp: mid_call_def)
  from call_ops_inner(1) [OF m(3,2)] obtain s' where ex: "ls_exec h op (sys_store S) = Some s'"
    by (cases op) auto
  show ?thesis
  proof (cases "ops = []")
    case True
    with m ls_step.leave [OF _ m(1) ex] show ?thesis by (intro exI [of _ h] exI conjI) auto
  next
    case False
    with m ls_step.exec [OF m(4) False ex] show ?thesis by (intro exI [of _ h] exI conjI) auto
  qed
next
  case None
  with inv have "idle_thread S t" by (simp add: ls_inv_def)
  from work obtain c cs where todo: "sys_todo S t = c # cs" by (cases "sys_todo S t") auto
  obtain op ops where ops: "call_ops c = op # ops" by (cases "call_ops c") (use call_ops_shape [of c] in auto)
  note first = call_ops_first [OF ops]
  show ?thesis
  proof (cases "sys_pc S t = []")
    case True
    with todo ops ls_step.enter [OF True todo] show ?thesis
      by (intro exI [of _ t] exI conjI) auto
  next
    case False
    with \<open>idle_thread S t\<close> todo ops have pc: "sys_pc S t = op # ops" by (auto simp: idle_thread_def)
    from None first have ex: "ls_exec t op (sys_store S) = Some ((sys_store S)\<lparr>ls_lock := Some t\<rparr>)" by simp
    from pc first ls_step.exec [OF pc _ ex] show ?thesis
      by (intro exI [of _ t] exI conjI) auto
  qed
qed

section \<open>Properties\<close>

text \<open>
  C23: \<^bold>\<open>no torn or interleaved records in the file.\<close> However any number of threads interleave
  their calls of \<open>logstore_append\<close> and \<open>logstore_flush\<close> (one mutex or stdio operation at a
  time, with stdio free to write its buffer out early), at every moment the file itself (not
  counting the stdio buffer) holds the records of the finished calls, whole and in the order
  the calls ended, followed at most by the beginning of the one record that the mutex holder
  is writing; whenever the mutex is free it holds exactly the finished records and nothing
  waits in the buffer; and the finished calls of a thread are the beginning of its program,
  in order.
\<close>
theorem concurrent_appends_keep_records_whole:
  assumes "ls_reach progs S"
  shows "(\<exists>part. ls_disk (sys_store S) = concat (map (\<lambda>(_, c). call_output c) (sys_done S)) @ part \<and>
           (case ls_lock (sys_store S) of
              None \<Rightarrow> part = [] \<and> ls_buf (sys_store S) = []
            | Some h \<Rightarrow> \<exists>c cs rest. sys_todo S h = c # cs \<and> call_output c = part @ rest)) \<and>
         (\<forall>t. progs t = calls_of t (sys_done S) @ sys_todo S t)"
proof -
  have progs: "\<forall>t. progs t = calls_of t (sys_done S) @ sys_todo S t"
    using ls_reach_inv [OF assms] by (simp add: ls_inv_def)
  obtain part where "ls_disk (sys_store S) = done_text S @ part"
    and "ls_lock (sys_store S) = None \<Longrightarrow> part = [] \<and> ls_buf (sys_store S) = []"
    and "\<And>h. ls_lock (sys_store S) = Some h \<Longrightarrow>
      \<exists>c cs rest. sys_todo S h = c # cs \<and> call_output c = part @ rest"
    using ls_disk_reachable [OF assms] by metis
  with progs show ?thesis by (cases "ls_lock (sys_store S)") (auto simp: done_text_def)
qed

text \<open>
  The witness: threads 1 and 2 have each one record to append; both have done so, thread 2
  first, and the file holds the two lines.
\<close>
theorem concurrent_appends_keep_records_whole_witness:
  "\<exists>S. ls_reach (\<lambda>t. if t = 1 then [CallAppend 0 1 ''x'' 1]
                     else if t = 2 then [CallAppend 0 2 ''y'' 1] else []) S \<and>
     length (sys_done S) = 2 \<and> ls_lock (sys_store S) = None \<and> ls_buf (sys_store S) = [] \<and>
     ls_disk (sys_store S) = ''[0] WARN y'' @ newline # ''[0] INFO x'' @ [newline]"
proof -
  define progs where "progs = (\<lambda>t::nat. if t = 1 then [CallAppend 0 1 ''x'' 1]
                     else if t = 2 then [CallAppend 0 2 ''y'' 1] else [])"
  define s2 where "s2 = logstore_append \<lparr>ls_disk = [], ls_buf = [], ls_lock = None\<rparr> 0 2 ''y'' 1"
  define s1 where "s1 = logstore_append s2 0 1 ''x'' 1"
  define S2 where "S2 = (ls_start progs)\<lparr>sys_store := s2, sys_pc := \<lambda>_. [],
      sys_todo := progs(2 := []), sys_done := [(2, CallAppend 0 2 ''y'' 1)]\<rparr>"
  have free: "ls_lock s2 = None" "ls_lock s1 = None" by (simp_all add: s1_def s2_def logstore_append_def Let_def)
  have "ls_reach progs S2"
    using ls_reach_call [OF ls_reach.start, of progs 2 "CallAppend 0 2 ''y'' 1" "[]" s2]
    by (simp del: call_ops.simps ls_run.simps
        add: S2_def s2_def ls_start_def progs_def ls_run_call_append)
  then have "ls_reach progs (S2\<lparr>sys_store := s1, sys_pc := \<lambda>_. [],
      sys_todo := progs(2 := [], 1 := []),
      sys_done := [(2, CallAppend 0 2 ''y'' 1), (1, CallAppend 0 1 ''x'' 1)]\<rparr>)" (is "ls_reach _ ?S")
    using ls_reach_call [of progs S2 1 "CallAppend 0 1 ''x'' 1" "[]" s1] free
    by (simp del: call_ops.simps ls_run.simps
        add: S2_def s1_def ls_start_def progs_def ls_run_call_append)
  moreover from concurrent_appends_keep_records_whole [OF this] free
  have "ls_buf (sys_store ?S) = [] \<and> ls_disk (sys_store ?S)
      = concat (map (\<lambda>(_, c). call_output c) (sys_done ?S))" by simp
  moreover have "dec 0 = ''0''" by code_simp
  ultimately show ?thesis
    unfolding progs_def [symmetric]
    using free by (intro exI [of _ ?S])
      (simp add: S2_def log_record_def log_header_def level_name_def cstr_simps)
qed

text \<open>
  C27: \<^bold>\<open>the log never deadlocks.\<close> In every reachable state of the threads that share the store,
  as long as some thread still has a call to finish, some thread can take a step.
\<close>
theorem log_store_never_deadlocks:
  assumes "ls_reach progs S" and "sys_todo S t \<noteq> []"
  shows "\<exists>S' u. ls_step S S' \<and> sys_pc S' u \<noteq> sys_pc S u"
  using thread_can_move [OF ls_reach_inv [OF assms(1)] assms(2)] .

theorem log_store_never_deadlocks_witness:
  "\<exists>S' u. ls_step (ls_start (\<lambda>_. [CallAppend 0 1 ''x'' 1, CallFlush])) S' \<and>
     sys_pc S' u \<noteq> sys_pc (ls_start (\<lambda>_. [CallAppend 0 1 ''x'' 1, CallFlush])) u"
proof -
  have "sys_todo (ls_start (\<lambda>_. [CallAppend 0 1 ''x'' 1, CallFlush])) 5 \<noteq> []"
    by (simp add: ls_start_def)
  with ls_reach.start show ?thesis by (rule log_store_never_deadlocks)
qed

text \<open>
  One uncontended call appends one record and flushes it. Run alone with the mutex free,
  the operations of \<open>logstore_append\<close> leave in the file what was in it and in the buffer, and
  after it one line: \<open>[\<close>, the sequence number in decimal, \<open>] \<close>, the level name, a space, the \<open>len\<close>
  message bytes, a newline; nothing is left in the buffer and the mutex is free again.
\<close>
lemma append_writes_one_flushed_record:
  assumes "ls_lock s = None" and "unat len \<le> length bytes"
  shows "\<exists>s'. ls_run t (call_ops (CallAppend seq level bytes len)) s = Some s' \<and>
    ls_disk s' = ls_disk s @ ls_buf s @ ''['' @ dec (unat seq) @ ''] '' @ level_name level @ '' ''
      @ take (unat len) bytes @ [newline] \<and>
    ls_buf s' = [] \<and> ls_lock s' = None"
  using assms ls_run_call_append [OF assms(1), of t seq level bytes len]
    logstore_append_flushed [of s seq level bytes len]
  by (auto simp: ls_stream_def log_record_def log_header_def logstore_append_def Let_def)

end
