(* ===== verification/Netlog.thy ===== *)
theory Netlog
  imports LogStore "HOL-Library.Multiset"
begin

text \<open>
  The network ingest listener of \<^verbatim>\<open>project_1/emulator/netlog.c\<close>: line reassembly and parsing
  (\<open>feed\<close>, \<open>process_line\<close>), one round of the \<open>poll\<close> loop over all producers, and start and stop.
  The poll results, accepted descriptors and bytes read are the environment's and come in as
  arguments.
\<close>

section \<open>State\<close>

definition NL_LINE_MAX :: nat where "NL_LINE_MAX = 4200"

definition NL_MAX_CONN :: nat where "NL_MAX_CONN = 64"

record netlog =
  nl_store :: logstore
  nl_lfd :: int
  nl_stop :: bool
  nl_seq :: u32

text \<open>\<open>c_buf\<close> is the part \<open>buf[0 .. len)\<close> of the line buffer, so \<open>len\<close> is its length.\<close>

record conn =
  c_fd :: int
  c_buf :: string

section \<open>Lines\<close>

definition process_line :: "netlog \<Rightarrow> string \<Rightarrow> netlog" where
  "process_line nl buf =
     (let line = c_str buf;
          (level, msg) =
            (if CHR '' '' \<in> set line
             then (ucast (strtoul10 (takeWhile (\<lambda>c. c \<noteq> CHR '' '') line)) :: u32,
                   tl (dropWhile (\<lambda>c. c \<noteq> CHR '' '') line))
             else (ucast (strtoul10 line), ''''))
      in nl\<lparr>nl_store := logstore_append (nl_store nl) (nl_seq nl) level msg (of_nat (length msg)),
            nl_seq := nl_seq nl + 1\<rparr>)"

fun feed :: "netlog \<Rightarrow> conn \<Rightarrow> string \<Rightarrow> netlog \<times> conn" where
  "feed nl c [] = (nl, c)"
| "feed nl c (ch # data) =
     (if ch = newline
      then feed (process_line nl (c_buf c)) (c\<lparr>c_buf := []\<rparr>) data
      else if length (c_buf c) < NL_LINE_MAX - 1
      then feed nl (c\<lparr>c_buf := c_buf c @ [ch]\<rparr>) data
      else feed (process_line nl (c_buf c)) (c\<lparr>c_buf := [ch]\<rparr>) data)"

text \<open>The meaning of one line, and the lines a byte stream is cut into.\<close>

definition netlog_parse :: "string \<Rightarrow> u32 \<times> string" where
  "netlog_parse buf =
     (let line = c_str buf; word = takeWhile (\<lambda>c. c \<noteq> CHR '' '') line
      in (ucast (strtoul10 word), tl (dropWhile (\<lambda>c. c \<noteq> CHR '' '') line)))"

text \<open>
  \<open>cut_lines buf data\<close>: the lines that complete while \<open>data\<close> arrives behind \<open>buf\<close>, and what
  is left in the buffer. A line ends at a newline, or when the buffer is full.
\<close>

fun cut_lines :: "string \<Rightarrow> string \<Rightarrow> string list \<times> string" where
  "cut_lines buf [] = ([], buf)"
| "cut_lines buf (ch # data) =
     (if ch = newline then (let (ls, r) = cut_lines [] data in (buf # ls, r))
      else if length buf < NL_LINE_MAX - 1 then cut_lines (buf @ [ch]) data
      else (let (ls, r) = cut_lines [ch] data in (buf # ls, r)))"

lemma process_line_parse:
  "process_line nl buf =
     (let (level, msg) = netlog_parse buf
      in nl\<lparr>nl_store := logstore_append (nl_store nl) (nl_seq nl) level msg (of_nat (length msg)),
            nl_seq := nl_seq nl + 1\<rparr>)"
proof (cases "CHR '' '' \<in> set (c_str buf)")
  case True
  then show ?thesis by (simp add: process_line_def netlog_parse_def Let_def)
next
  case False
  then have tw: "takeWhile (\<lambda>c. c \<noteq> CHR '' '') (c_str buf) = c_str buf"
    by (auto intro: takeWhile_eq_all_conv [THEN iffD2])
  have dw: "dropWhile (\<lambda>c. c \<noteq> CHR '' '') (c_str buf) = []"
    using False by (auto simp: dropWhile_eq_Nil_conv)
  show ?thesis using False
    unfolding process_line_def netlog_parse_def Let_def tw dw by simp
qed

lemma feed_conn: "snd (feed nl c data) = c\<lparr>c_buf := snd (cut_lines (c_buf c) data)\<rparr>"
  by (induction nl c data rule: feed.induct) (auto simp: case_prod_beta)

text \<open>Feeding is the producer loop of the log store interface over the parsed lines.\<close>

lemma feed_append_all:
  "(nl_store (fst (feed nl c data)), nl_seq (fst (feed nl c data)))
     = append_all logstore_append (nl_store nl) (nl_seq nl)
         (map netlog_parse (fst (cut_lines (c_buf c) data)))"
  by (induction nl c data rule: feed.induct)
     (auto simp: case_prod_beta process_line_parse append_all_Cons)

lemma feed_frame:
  "nl_lfd (fst (feed nl c data)) = nl_lfd nl" "nl_stop (fst (feed nl c data)) = nl_stop nl"
  by (induction nl c data rule: feed.induct) (auto simp: case_prod_beta process_line_parse)

lemma feed_append:
  "feed nl c (xs @ ys) = (let (nl', c') = feed nl c xs in feed nl' c' ys)"
  by (induction nl c xs rule: feed.induct) auto

lemma cut_lines_append:
  "cut_lines buf (xs @ ys) =
     (let (ls, r) = cut_lines buf xs; (ls', r') = cut_lines r ys in (ls @ ls', r'))"
  by (induction buf xs rule: cut_lines.induct) (auto simp: case_prod_beta Let_def)

text \<open>Each completed line, and nothing else, goes through \<open>process_line\<close>, in order.\<close>

lemma feed_process_lines:
  "fst (feed nl c data) = foldl process_line nl (fst (cut_lines (c_buf c) data))"
  by (induction nl c data rule: feed.induct) (auto simp: case_prod_beta)

text \<open>The buffer never fills up: the terminating NUL always has room.\<close>

lemma cut_lines_bound:
  "length buf < NL_LINE_MAX \<Longrightarrow>
     length (snd (cut_lines buf data)) < NL_LINE_MAX \<and>
     (\<forall>l \<in> set (fst (cut_lines buf data)). length l < NL_LINE_MAX)"
  by (induction buf data rule: cut_lines.induct)
     (auto simp: case_prod_beta NL_LINE_MAX_def)

text \<open>No byte is lost but the newlines.\<close>

lemma cut_lines_concat:
  assumes "newline \<notin> set buf"
  shows "concat (fst (cut_lines buf data)) @ snd (cut_lines buf data)
    = buf @ filter (\<lambda>c. c \<noteq> newline) data"
  using assms by (induction buf data rule: cut_lines.induct) (auto simp: case_prod_beta)

lemma cut_lines_partial:
  assumes "newline \<notin> set xs" and "length buf + length xs < NL_LINE_MAX"
  shows "cut_lines buf xs = ([], buf @ xs)"
  using assms by (induction buf xs rule: cut_lines.induct) auto

lemma cut_lines_line:
  assumes "newline \<notin> set xs" and "length xs < NL_LINE_MAX"
  shows "cut_lines [] (xs @ [newline] @ rest) = (let (ls, r) = cut_lines [] rest in (xs # ls, r))"
  using assms by (simp add: cut_lines_append cut_lines_partial case_prod_beta)

lemma netlog_parse_wire:
  assumes "l < 2 ^ 32" and "nul \<notin> set msg"
  shows "netlog_parse (dec l @ '' '' @ msg) = (of_nat l, msg)"
proof -
  have "nul \<notin> set (dec l)" using dec_digits [of nul l] not_digit_chars(1) by blast
  with assms(2) have line: "c_str (dec l @ '' '' @ msg) = dec l @ '' '' @ msg"
    by (intro c_str_no_nul) (auto simp: nul_def)
  have nsp: "c \<noteq> CHR '' ''" if "c \<in> set (dec l)" for c
    using dec_digits [OF that] not_digit_chars(3) by blast
  then have word: "takeWhile (\<lambda>c. c \<noteq> CHR '' '') (dec l @ '' '' @ msg) = dec l"
    and rest: "dropWhile (\<lambda>c. c \<noteq> CHR '' '') (dec l @ '' '' @ msg) = '' '' @ msg"
    by (auto simp: takeWhile_append dropWhile_append)
  from assms(1) have "strtoul10 (dec l) = of_nat l" using strtoul10_dec [of l "[]"] by simp
  with assms(1) show ?thesis unfolding netlog_parse_def line Let_def word rest
    by (simp add: unsigned_of_nat take_bit_nat_eq_self)
qed

section \<open>One round of the poll loop\<close>

text \<open>
  What a round does to the outside, in order: the descriptors it accepts, reads from and
  closes. \<open>read\<close> gives \<open>None\<close> for end of file or an error.
\<close>

datatype nl_event = NlAccept int | NlRead int | NlClose int

type_synonym nl_read = "int \<Rightarrow> string option"

text \<open>
  The service loop \<open>for (int i = 0; i < nc; i++)\<close>: each connection comes with the \<open>revents\<close> of its
  slot; those that are not dropped are kept in order.
\<close>

fun service :: "nl_read \<Rightarrow> netlog \<Rightarrow> (u16 \<times> conn) list \<Rightarrow> netlog \<times> conn list \<times> nl_event list" where
  "service rd nl [] = (nl, [], [])"
| "service rd nl ((re, c) # rest) =
     (let ready = (re AND POLLIN \<noteq> 0);
          (nl1, c1, drop1) =
            (if ready
             then (case rd (c_fd c) of
                     None \<Rightarrow> (nl, c, True)
                   | Some data \<Rightarrow> (let (nl', c') = feed nl c data in (nl', c', False)))
             else (nl, c, False));
          gone = (drop1 \<or> re AND (POLLHUP OR POLLERR OR POLLNVAL) \<noteq> 0);
          (nl2, keep, ev) = service rd nl1 rest
      in (nl2,
          (if gone then keep else c1 # keep),
          (if ready then [NlRead (c_fd c)] else []) @ (if gone then [NlClose (c_fd c)] else []) @ ev))"

text \<open>
  \<open>lst_conns\<close> is \<open>conns[0 .. nc)\<close> and \<open>lst_revents\<close> the \<open>revents\<close> fields of the array \<open>pfds\<close>. That
  array is not initialised: its first contents are whatever is on the stack.
\<close>

record listener =
  lst_nl :: netlog
  lst_conns :: "conn list"
  lst_revents :: "u16 list"

datatype poll_result = PollEINTR | PollFailed | PollReady "nat \<Rightarrow> u16"

text \<open>
  The body of the \<open>while\<close> loop after its condition. \<open>stop\<close> is the flag as seen after \<open>poll\<close>; \<open>pr\<close>
  the outcome of \<open>poll\<close>, which sets the \<open>revents\<close> of the first \<open>nc + 1\<close> slots only (the loop
  cleared them before); \<open>acc\<close> the result of \<open>accept\<close>. The last component says whether the loop
  goes on.
\<close>

definition accept_conn :: "int \<Rightarrow> conn list \<Rightarrow> conn list \<times> nl_event list" where
  "accept_conn fd conns =
     (if 0 \<le> fd
      then if length conns < NL_MAX_CONN
           then (conns @ [\<lparr>c_fd = fd, c_buf = []\<rparr>], [NlAccept fd])
           else (conns, [NlAccept fd, NlClose fd])
      else (conns, []))"

definition listener_round ::
    "poll_result \<Rightarrow> bool \<Rightarrow> int \<Rightarrow> nl_read \<Rightarrow> listener \<Rightarrow> listener \<times> nl_event list \<times> bool"
where
  "listener_round pr stop acc rd L =
     (let n = length (lst_conns L) + 1;
          cleared = replicate n 0 @ drop n (lst_revents L)
      in case pr of
        PollEINTR \<Rightarrow> (L\<lparr>lst_revents := cleared\<rparr>, [], True)
      | PollFailed \<Rightarrow> (L\<lparr>lst_revents := cleared\<rparr>, [], False)
      | PollReady rs \<Rightarrow>
          (let revents = map rs [0..<n] @ drop n cleared
           in if stop then (L\<lparr>lst_revents := revents\<rparr>, [], False)
              else
                let (conns, ev1) =
                      (if revents ! 0 AND POLLIN \<noteq> 0 then accept_conn acc (lst_conns L)
                       else (lst_conns L, []));
                    (nl', keep, ev2) =
                      service rd (lst_nl L) (zip (take (length conns) (tl revents)) conns)
                in (\<lparr>lst_nl = nl', lst_conns = keep, lst_revents = revents\<rparr>, ev1 @ ev2, True)))"

text \<open>
  A run: one entry of the list per round, with the stop flag as the loop condition sees it
  first. The loop ends on its condition or when a round says so; then every connection is
  closed. A run that has not ended yet has the last component \<open>True\<close>.
\<close>

fun listener_run ::
    "(bool \<times> poll_result \<times> bool \<times> int \<times> nl_read) list \<Rightarrow> listener
       \<Rightarrow> listener \<times> nl_event list \<times> bool"
where
  "listener_run [] L = (L, [], True)"
| "listener_run ((stop0, pr, stop, acc, rd) # rounds) L =
     (if stop0 then (L\<lparr>lst_conns := []\<rparr>, map (\<lambda>c. NlClose (c_fd c)) (lst_conns L), False)
      else
        let (L1, ev, go) = listener_round pr stop acc rd L
        in if \<not> go
           then (L1\<lparr>lst_conns := []\<rparr>, ev @ map (\<lambda>c. NlClose (c_fd c)) (lst_conns L1), False)
           else (let (L2, ev2, go2) = listener_run rounds L1 in (L2, ev @ ev2, go2)))"

text \<open>\<open>listener\<close> begins with no connection; \<open>junk\<close> is the uninitialised array.\<close>

definition listener_start :: "netlog \<Rightarrow> u16 list \<Rightarrow> listener" where
  "listener_start nl junk = \<lparr>lst_nl = nl, lst_conns = [], lst_revents = junk\<rparr>"

section \<open>Start and stop\<close>

text \<open>
  The outcomes of the system calls of \<open>netlog_start\<close>: \<open>calloc\<close>, the descriptor of \<open>socket\<close>, \<open>bind\<close>
  on a port, \<open>listen\<close>, \<open>pthread_create\<close>. The result comes with the descriptors closed.
\<close>

record net_env =
  env_calloc_ok :: bool
  env_socket :: int
  env_bind :: "u16 \<Rightarrow> int"
  env_listen :: int
  env_pthread_create :: int

definition netlog_start :: "net_env \<Rightarrow> logstore \<Rightarrow> int \<Rightarrow> netlog option \<times> int list" where
  "netlog_start e store port =
     (if \<not> env_calloc_ok e then (None, [])
      else
        let lfd = env_socket e
        in if lfd < 0 then (None, [])
           else if env_bind e (word_of_int port) < 0 \<or> env_listen e < 0 then (None, [lfd])
           else if env_pthread_create e \<noteq> 0 then (None, [lfd])
           else (Some \<lparr>nl_store = store, nl_lfd = lfd, nl_stop = False, nl_seq = 0\<rparr>, []))"

text \<open>The steps of \<open>netlog_stop\<close> in order: set the flag, wake the listener, join it, close.\<close>

datatype stop_step = SetStop | ShutdownFd int | JoinListener | CloseFd int

definition netlog_stop :: "netlog option \<Rightarrow> stop_step list" where
  "netlog_stop nlo =
     (case nlo of
        None \<Rightarrow> []
      | Some nl \<Rightarrow> [SetStop, ShutdownFd (nl_lfd nl), JoinListener, CloseFd (nl_lfd nl)])"

section \<open>What the listener keeps\<close>

definition conns_ok :: "conn list \<Rightarrow> bool" where
  "conns_ok cs \<longleftrightarrow> length cs \<le> NL_MAX_CONN \<and> (\<forall>c \<in> set cs. length (c_buf c) < NL_LINE_MAX)"

definition listener_ok :: "listener \<Rightarrow> bool" where
  "listener_ok L \<longleftrightarrow> conns_ok (lst_conns L) \<and> length (lst_revents L) = NL_MAX_CONN + 1"

definition accepted :: "nl_event list \<Rightarrow> int multiset" where
  "accepted ev = mset (List.map_filter (\<lambda>e. case e of NlAccept fd \<Rightarrow> Some fd | _ \<Rightarrow> None) ev)"

definition closed :: "nl_event list \<Rightarrow> int multiset" where
  "closed ev = mset (List.map_filter (\<lambda>e. case e of NlClose fd \<Rightarrow> Some fd | _ \<Rightarrow> None) ev)"

definition fds :: "conn list \<Rightarrow> int multiset" where
  "fds cs = mset (map c_fd cs)"

lemma event_simps [simp]:
  "accepted [] = {#}" "closed [] = {#}"
  "accepted (e # ev) = (case e of NlAccept fd \<Rightarrow> {#fd#} | _ \<Rightarrow> {#}) + accepted ev"
  "closed (e # ev) = (case e of NlClose fd \<Rightarrow> {#fd#} | _ \<Rightarrow> {#}) + closed ev"
  by (simp_all add: accepted_def closed_def split: nl_event.split)

lemma event_append [simp]:
  "accepted (ev @ ev') = accepted ev + accepted ev'"
  "closed (ev @ ev') = closed ev + closed ev'"
  by (induction ev) (simp_all split: nl_event.split)

lemma fds_simps [simp]:
  "fds [] = {#}" "fds (c # cs) = {#c_fd c#} + fds cs" "fds (cs @ ds) = fds cs + fds ds"
  by (simp_all add: fds_def)

lemma closed_all [simp]:
  "closed (map (\<lambda>c. NlClose (c_fd c)) cs) = fds cs"
  "accepted (map (\<lambda>c. NlClose (c_fd c)) cs) = {#}"
  by (induction cs) simp_all

lemma feed_fd [simp]: "c_fd (snd (feed nl c data)) = c_fd c"
  by (simp add: feed_conn)

lemma feed_bound:
  "length (c_buf c) < NL_LINE_MAX \<Longrightarrow> length (c_buf (snd (feed nl c data))) < NL_LINE_MAX"
  using cut_lines_bound [of "c_buf c" data] by (simp add: feed_conn)

text \<open>Unfolding the service loop by one connection.\<close>

definition serve_one :: "nl_read \<Rightarrow> netlog \<Rightarrow> u16 \<Rightarrow> conn \<Rightarrow> netlog \<times> conn \<times> bool" where
  "serve_one rd nl re c =
     (if re AND POLLIN \<noteq> 0
      then (case rd (c_fd c) of
              None \<Rightarrow> (nl, c, True)
            | Some data \<Rightarrow> (fst (feed nl c data), snd (feed nl c data), re AND (POLLHUP OR POLLERR OR POLLNVAL) \<noteq> 0))
      else (nl, c, re AND (POLLHUP OR POLLERR OR POLLNVAL) \<noteq> 0))"

lemma service_Cons:
  "service rd nl ((re, c) # rest) =
     (let (nl1, c1, gone) = serve_one rd nl re c; (nl2, keep, ev) = service rd nl1 rest
      in (nl2, (if gone then keep else c1 # keep),
          (if re AND POLLIN \<noteq> 0 then [NlRead (c_fd c)] else [])
            @ (if gone then [NlClose (c_fd c)] else []) @ ev))"
  by (simp add: serve_one_def Let_def case_prod_beta split: option.split)

lemma serve_one_conn:
  assumes "serve_one rd nl re c = (nl1, c1, gone)"
  shows "c_fd c1 = c_fd c" and "length (c_buf c) < NL_LINE_MAX \<Longrightarrow> length (c_buf c1) < NL_LINE_MAX"
  using assms by (auto simp: serve_one_def feed_bound split: if_splits option.splits)

text \<open>One listener state follows another by appending records to the log and numbering on.\<close>

definition logs_more :: "netlog \<Rightarrow> netlog \<Rightarrow> bool" where
  "logs_more nl nl' \<longleftrightarrow>
     (\<exists>rs. (nl_store nl', nl_seq nl') = append_all logstore_append (nl_store nl) (nl_seq nl) rs)"

lemma logs_more_refl [simp, intro]: "logs_more nl nl"
  unfolding logs_more_def by (rule exI [of _ "[]"]) simp

lemma logs_more_trans [trans]:
  assumes "logs_more a b" and "logs_more b c"
  shows "logs_more a c"
proof -
  from assms obtain rs1 rs2 where
    rs: "(nl_store b, nl_seq b) = append_all logstore_append (nl_store a) (nl_seq a) rs1"
      "(nl_store c, nl_seq c) = append_all logstore_append (nl_store b) (nl_seq b) rs2"
    by (auto simp: logs_more_def)
  then have "(nl_store c, nl_seq c) = append_all logstore_append (nl_store a) (nl_seq a) (rs1 @ rs2)"
    by (simp add: append_all_append flip: rs(1))
  then show ?thesis by (auto simp: logs_more_def)
qed

lemma logs_more_feed [intro]: "logs_more nl (fst (feed nl c data))"
  by (auto simp: logs_more_def feed_append_all)

lemma serve_one_records: "serve_one rd nl re c = (nl1, c1, gone) \<Longrightarrow> logs_more nl nl1"
  by (auto simp: serve_one_def split: if_splits option.splits)

declare service.simps(2) [simp del]

lemma service_fds:
  "service rd nl rcs = (nl', keep, ev) \<Longrightarrow>
     fds (map snd rcs) = fds keep + closed ev \<and> accepted ev = {#}"
proof (induction rcs arbitrary: nl nl' keep ev)
  case Nil
  then show ?case by simp
next
  case (Cons rc rcs)
  obtain re c where rc: "rc = (re, c)" by (cases rc)
  obtain nl1 c1 gone where one: "serve_one rd nl re c = (nl1, c1, gone)" by (cases "serve_one rd nl re c")
  obtain nl2 keep2 ev2 where rest: "service rd nl1 rcs = (nl2, keep2, ev2)" by (cases "service rd nl1 rcs")
  note fd = serve_one_conn(1) [OF one]
  from Cons.IH [OF rest] Cons.prems one rest rc fd show ?case
    by (auto simp: service_Cons ac_simps)
qed

lemma service_ok:
  "service rd nl rcs = (nl', keep, ev) \<Longrightarrow> conns_ok (map snd rcs) \<Longrightarrow> conns_ok keep"
proof (induction rcs arbitrary: nl nl' keep ev)
  case Nil
  then show ?case by simp
next
  case (Cons rc rcs)
  obtain re c where rc: "rc = (re, c)" by (cases rc)
  obtain nl1 c1 gone where one: "serve_one rd nl re c = (nl1, c1, gone)" by (cases "serve_one rd nl re c")
  obtain nl2 keep2 ev2 where rest: "service rd nl1 rcs = (nl2, keep2, ev2)" by (cases "service rd nl1 rcs")
  from Cons.prems rc have "conns_ok (map snd rcs)" by (simp add: conns_ok_def)
  with Cons.IH [OF rest] have "conns_ok keep2" by blast
  moreover have "length keep2 \<le> length rcs"
    using service_fds [OF rest] by (metis fds_def length_map mset_subset_eq_add_left size_mset size_mset_mono)
  ultimately show ?case using Cons.prems one rest rc serve_one_conn(2) [OF one]
    by (auto simp: service_Cons conns_ok_def split: if_splits)
qed

lemma service_records: "service rd nl rcs = (nl', keep, ev) \<Longrightarrow> logs_more nl nl'"
proof (induction rcs arbitrary: nl nl' keep ev)
  case (Cons rc rcs)
  obtain re c where rc: "rc = (re, c)" by (cases rc)
  obtain nl1 c1 gone where one: "serve_one rd nl re c = (nl1, c1, gone)" by (cases "serve_one rd nl re c")
  obtain nl2 keep2 ev2 where rest: "service rd nl1 rcs = (nl2, keep2, ev2)" by (cases "service rd nl1 rcs")
  have "logs_more nl nl1" using one by (rule serve_one_records)
  also have "logs_more nl1 nl2" using rest by (rule Cons.IH)
  also have "nl2 = nl'" using Cons.prems one rest rc by (simp add: service_Cons)
  finally show ?case .
qed simp

text \<open>
  What every stretch of the listener's life keeps: the table stays well formed, the descriptors
  held and accepted are the ones held and closed, and the log only grows by numbered records.
\<close>

definition accounts :: "listener \<Rightarrow> nl_event list \<Rightarrow> listener \<Rightarrow> bool" where
  "accounts L ev L' \<longleftrightarrow> listener_ok L' \<and>
     fds (lst_conns L) + accepted ev = fds (lst_conns L') + closed ev \<and> logs_more (lst_nl L) (lst_nl L')"

lemma accounts_idle:
  "listener_ok L' \<Longrightarrow> lst_conns L' = lst_conns L \<Longrightarrow> lst_nl L' = lst_nl L \<Longrightarrow> accounts L [] L'"
  by (simp add: accounts_def)

lemma accounts_append:
  assumes "accounts L ev L1" and "accounts L1 ev1 L2"
  shows "accounts L (ev @ ev1) L2"
proof -
  let ?f = "\<lambda>L. fds (lst_conns L)"
  from assms have eqs: "?f L + accepted ev = ?f L1 + closed ev" "?f L1 + accepted ev1 = ?f L2 + closed ev1"
    by (simp_all add: accounts_def)
  have "?f L + (accepted ev + accepted ev1) = ?f L1 + closed ev + accepted ev1"
    by (simp only: eqs(1) flip: add.assoc)
  also have "\<dots> = ?f L1 + accepted ev1 + closed ev" by (simp only: ac_simps)
  also have "\<dots> = ?f L2 + (closed ev + closed ev1)" unfolding eqs(2) by (simp only: ac_simps)
  finally show ?thesis using assms by (auto simp: accounts_def intro: logs_more_trans)
qed

lemma accounts_close_all:
  "listener_ok L \<Longrightarrow> accounts L (map (\<lambda>c. NlClose (c_fd c)) (lst_conns L)) (L\<lparr>lst_conns := []\<rparr>)"
  by (auto simp: accounts_def listener_ok_def conns_ok_def)

text \<open>One round, as its parts.\<close>

lemma accept_conn_ok:
  assumes "accept_conn fd cs = (cs', ev)" and "conns_ok cs"
  shows "conns_ok cs'" and "fds cs + accepted ev = fds cs' + closed ev"
  using assms by (auto simp: accept_conn_def conns_ok_def NL_LINE_MAX_def split: if_splits)

lemma round_ready_accounts:
  assumes ok: "listener_ok L" and rlen: "length slots = NL_MAX_CONN + 1"
    and acc: "(if slots ! 0 AND POLLIN \<noteq> 0 then accept_conn fd (lst_conns L) else (lst_conns L, [])) = (cs, ev1)"
    and serv: "service rd (lst_nl L) (zip (take (length cs) (tl slots)) cs) = (nl', keep, ev2)"
  shows "accounts L (ev1 @ ev2) \<lparr>lst_nl = nl', lst_conns = keep, lst_revents = slots\<rparr>"
proof -
  have cs: "conns_ok cs" "fds (lst_conns L) + accepted ev1 = fds cs + closed ev1"
    using acc ok accept_conn_ok [of fd "lst_conns L" cs ev1] by (auto simp: listener_ok_def split: if_splits)
  have snd: "map snd (zip (take (length cs) (tl slots)) cs) = cs"
    using cs(1) rlen by (intro map_snd_zip) (simp add: conns_ok_def)
  from service_ok [OF serv] service_fds [OF serv] service_records [OF serv] snd cs rlen
  show ?thesis by (simp add: accounts_def listener_ok_def ac_simps)
qed

lemma listener_round_accounts:
  assumes round: "listener_round pr stop acc rd L = (L', ev, go)" and ok: "listener_ok L"
  shows "accounts L ev L'"
proof -
  let ?n = "length (lst_conns L) + 1"
  let ?cleared = "replicate ?n 0 @ drop ?n (lst_revents L)"
  from ok have n: "?n \<le> NL_MAX_CONN + 1" and len: "length (lst_revents L) = NL_MAX_CONN + 1"
    by (simp_all add: listener_ok_def conns_ok_def)
  show ?thesis
  proof (cases "\<exists>rs. pr = PollReady rs \<and> \<not> stop")
    case False
    with round ok n len show ?thesis
      by (auto simp: listener_round_def listener_ok_def Let_def split: poll_result.splits intro!: accounts_idle)
  next
    case True
    then obtain rs where pr: "pr = PollReady rs" "\<not> stop" by blast
    let ?rev = "map rs [0..<?n] @ drop ?n ?cleared"
    obtain cs ev1 where acc:
        "(if ?rev ! 0 AND POLLIN \<noteq> 0 then accept_conn acc (lst_conns L) else (lst_conns L, [])) = (cs, ev1)"
      by fastforce
    obtain nl' keep ev2 where serv:
        "service rd (lst_nl L) (zip (take (length cs) (tl ?rev)) cs) = (nl', keep, ev2)"
      by (metis prod_cases3)
    have "length ?rev = NL_MAX_CONN + 1" using n len by simp
    from round_ready_accounts [OF ok this acc serv] round pr acc serv show ?thesis
      by (simp add: listener_round_def Let_def)
  qed
qed

lemma listener_run_accounts:
  assumes "listener_run rounds L = (L', ev, go)" and "listener_ok L"
  shows "accounts L ev L' \<and> (\<not> go \<longrightarrow> lst_conns L' = [])"
  using assms
proof (induction rounds L arbitrary: L' ev go rule: listener_run.induct)
  case (1 L)
  then show ?case by (auto intro: accounts_idle)
next
  case (2 stop0 pr stop acc rd rounds L)
  show ?case
  proof (cases stop0)
    case True
    with 2(2) accounts_close_all [OF 2(3)] show ?thesis by auto
  next
    case False
    obtain L1 ev1 go1 where round: "listener_round pr stop acc rd L = (L1, ev1, go1)"
      by (cases "listener_round pr stop acc rd L")
    have L1: "accounts L ev1 L1" using round 2(3) by (rule listener_round_accounts)
    then have ok: "listener_ok L1" by (simp add: accounts_def)
    obtain L2 ev2 go2 where run: "listener_run rounds L1 = (L2, ev2, go2)"
      by (cases "listener_run rounds L1")
    show ?thesis
    proof (cases go1)
      case go: False
      with 2(2) False round accounts_append [OF L1 accounts_close_all [OF ok]] show ?thesis by auto
    next
      case True
      then have "accounts L1 ev2 L2 \<and> (\<not> go2 \<longrightarrow> lst_conns L2 = [])"
        using 2(1) [OF False round [symmetric] refl refl _ run ok] by simp
      with 2(2) False True round run accounts_append [OF L1] show ?thesis by auto
    qed
  qed
qed

lemma listener_start_ok:
  "length junk = NL_MAX_CONN + 1 \<Longrightarrow> listener_ok (listener_start nl junk)"
  by (simp add: listener_ok_def conns_ok_def listener_start_def)

section \<open>Properties\<close>

text \<open>
  C24: \<^bold>\<open>no descriptor is leaked or closed twice.\<close> Over a whole run of the listener, from its first
  round to its exit, whatever \<open>poll\<close>, \<open>accept\<close> and \<open>read\<close> return and whatever the uninitialised
  \<open>pfds\<close> array holds, the descriptors closed are exactly the descriptors accepted.
\<close>
theorem listener_closes_what_it_accepts:
  assumes "length junk = NL_MAX_CONN + 1"
    and "listener_run rounds (listener_start nl junk) = (L', ev, False)"
  shows "closed ev = accepted ev \<and> lst_conns L' = []"
  using listener_run_accounts [OF assms(2) listener_start_ok [OF assms(1)]]
  by (simp add: accounts_def listener_start_def)

text \<open>The witness: one producer is accepted, sends a line, and the listener is stopped.\<close>

definition demo_nl :: netlog where
  "demo_nl = \<lparr>nl_store = \<lparr>ls_disk = [], ls_buf = [], ls_lock = None\<rparr>, nl_lfd = 3, nl_stop = False, nl_seq = 0\<rparr>"

definition demo_rounds :: "(bool \<times> poll_result \<times> bool \<times> int \<times> nl_read) list" where
  "demo_rounds =
     [(False, PollReady (\<lambda>i. if i = 0 then POLLIN else 0), False, 7, \<lambda>_. None),
      (False, PollReady (\<lambda>i. if i = 1 then POLLIN else 0), False, -1, \<lambda>_. Some ''1 hi\<newline>''),
      (True, PollEINTR, False, -1, \<lambda>_. None)]"

theorem listener_closes_what_it_accepts_witness:
  "\<exists>L' ev. listener_run demo_rounds (listener_start demo_nl (replicate 65 0)) = (L', ev, False) \<and>
     closed ev = accepted ev \<and> 7 \<in># accepted ev"
proof -
  let ?r = "listener_run demo_rounds (listener_start demo_nl (replicate 65 0))"
  have "snd ?r = ([NlAccept 7, NlRead 7, NlClose 7], False)" by code_simp
  then obtain L' where run: "?r = (L', [NlAccept 7, NlRead 7, NlClose 7], False)"
    by (cases ?r) auto
  from listener_closes_what_it_accepts [OF _ run] have
    "closed [NlAccept 7, NlRead 7, NlClose 7] = accepted [NlAccept 7, NlRead 7, NlClose 7]"
    by (simp add: NL_MAX_CONN_def)
  with run show ?thesis by auto
qed

text \<open>A record on the wire, and a connection whose bytes arrive in any pieces.\<close>

definition wire_line :: "nat \<times> string \<Rightarrow> string" where
  "wire_line r = dec (fst r) @ '' '' @ snd r @ [newline]"

definition wire_ok :: "nat \<times> string \<Rightarrow> bool" where
  "wire_ok r \<longleftrightarrow> fst r < 2 ^ 32 \<and> nul \<notin> set (snd r) \<and> newline \<notin> set (snd r) \<and>
     length (wire_line r) \<le> NL_LINE_MAX"

definition feed_chunks :: "netlog \<Rightarrow> conn \<Rightarrow> string list \<Rightarrow> netlog \<times> conn" where
  "feed_chunks nl c ds = foldl (\<lambda>(nl', c') d. feed nl' c' d) (nl, c) ds"

lemma feed_chunks_concat: "feed_chunks nl c ds = feed nl c (concat ds)"
  unfolding feed_chunks_def
proof (induction ds arbitrary: nl c)
  case (Cons d ds)
  then show ?case by (cases "feed nl c d") (simp add: feed_append)
qed simp

lemma cut_lines_wire:
  "list_all wire_ok recs \<Longrightarrow>
     cut_lines [] (concat (map wire_line recs)) = (map (\<lambda>r. dec (fst r) @ '' '' @ snd r) recs, [])"
proof (induction recs)
  case Nil
  then show ?case by simp
next
  case (Cons r recs)
  have "newline \<notin> set (dec (fst r))" using dec_digits [of newline "fst r"] not_digit_chars(2) by blast
  with Cons.prems have "newline \<notin> set (dec (fst r) @ '' '' @ snd r)"
      "length (dec (fst r) @ '' '' @ snd r) < NL_LINE_MAX"
    by (auto simp: wire_ok_def wire_line_def newline_def)
  from cut_lines_line [OF this] Cons show ?case by (simp add: wire_line_def)
qed

lemma feed_wire_records:
  assumes "list_all wire_ok recs" and "concat pieces = concat (map wire_line recs)"
    and "c_buf c = []"
  shows "ls_stream (nl_store (fst (feed_chunks nl c pieces)))
           = ls_stream (nl_store nl)
             @ numbered (nl_seq nl) (map (\<lambda>r. (of_nat (fst r), snd r)) recs) \<and>
         c_buf (snd (feed_chunks nl c pieces)) = []"
proof -
  let ?rs = "map (\<lambda>r. (of_nat (fst r) :: u32, snd r)) recs"
  let ?f = "feed nl c (concat (map wire_line recs))"
  have parse: "map netlog_parse (map (\<lambda>r. dec (fst r) @ '' '' @ snd r) recs) = ?rs"
    using assms(1) by (auto simp: wire_ok_def list_all_iff netlog_parse_wire [simplified])
  have "short_msgs ?rs"
    using assms(1) by (induction recs) (auto simp: wire_ok_def wire_line_def NL_LINE_MAX_def)
  moreover have "(nl_store (fst ?f), nl_seq (fst ?f))
      = append_all logstore_append (nl_store nl) (nl_seq nl) ?rs"
    unfolding feed_append_all assms(3) cut_lines_wire [OF assms(1)] fst_conv parse ..
  then have "nl_store (fst ?f) = fst (append_all logstore_append (nl_store nl) (nl_seq nl) ?rs)"
    by (metis fst_conv)
  ultimately show ?thesis
    using file_store.contents_append_all [of ?rs] cut_lines_wire [OF assms(1)] assms(2,3)
    by (simp add: feed_chunks_concat feed_conn)
qed

text \<open>
  C21: \<^bold>\<open>what producers send is what the log holds.\<close> For any records whose lines fit the line
  buffer, sent as \<open><level> <message>\<close> lines and cut by the network into any pieces at all, the
  log receives exactly these records, in order, numbered from the listener's counter on, and
  the line buffer is empty again.
\<close>
theorem wire_records_reach_the_log:
  assumes "list_all wire_ok recs" and "concat pieces = concat (map wire_line recs)"
    and "c_buf c = []"
  shows "ls_stream (nl_store (fst (feed_chunks nl c pieces)))
           = ls_stream (nl_store nl)
             @ numbered (nl_seq nl) (map (\<lambda>r. (of_nat (fst r), snd r)) recs) \<and>
         c_buf (snd (feed_chunks nl c pieces)) = []"
  using assms by (rule feed_wire_records)

theorem wire_records_reach_the_log_witness:
  "ls_stream (nl_store (fst (feed_chunks demo_nl \<lparr>c_fd = 5, c_buf = []\<rparr> [''1 h'', ''i\<newline>3 '', ''no\<newline>''])))
     = numbered 0 [(1, ''hi''), (3, ''no'')]"
proof -
  have d: "dec (Suc 0) = ''1''" "dec 3 = ''3''" by code_simp+
  have "list_all wire_ok [(1, ''hi''), (3, ''no'')]"
    by (simp add: wire_ok_def wire_line_def d nul_def newline_def NL_LINE_MAX_def)
  from wire_records_reach_the_log [OF this, of "[''1 h'', ''i\<newline>3 '', ''no\<newline>'']"
      "\<lparr>c_fd = 5, c_buf = []\<rparr>" demo_nl]
  show ?thesis by (simp add: wire_line_def d newline_def demo_nl_def ls_stream_def)
qed

text \<open>
  C25: \<^bold>\<open>a line never overruns its buffer and no byte is lost.\<close> Whatever bytes arrive behind a
  buffer that is not full and holds no newline, there is a list of lines that \<open>feed\<close> hands to
  \<open>process_line\<close> one after the other, and nothing else happens to the log: each of them is
  shorter than the buffer, so the terminating NUL has room, as it has in the buffer that is
  left; and the lines together with what is left are the buffered and the received bytes
  without the newlines, in order. The lines are those of \<open>cut_lines\<close>: cut at the newlines and
  where the buffer is full.
\<close>
theorem line_buffer_bounded_and_lossless:
  assumes "length (c_buf c) < NL_LINE_MAX" and "newline \<notin> set (c_buf c)"
  shows "\<exists>ls. fst (feed nl c data) = foldl process_line nl ls \<and>
    ls = fst (cut_lines (c_buf c) data) \<and>
    (\<forall>l \<in> set ls. length l < NL_LINE_MAX) \<and>
    length (c_buf (snd (feed nl c data))) < NL_LINE_MAX \<and>
    concat ls @ c_buf (snd (feed nl c data)) = c_buf c @ filter (\<lambda>ch. ch \<noteq> newline) data"
  using cut_lines_bound [OF assms(1), of data] cut_lines_concat [OF assms(2), of data]
  by (simp add: feed_conn feed_process_lines)

theorem line_buffer_bounded_and_lossless_witness:
  "fst (feed demo_nl \<lparr>c_fd = 5, c_buf = ''1 a''\<rparr> ''b\<newline>c'') = process_line demo_nl ''1 ab'' \<and>
   length (c_buf (snd (feed demo_nl \<lparr>c_fd = 5, c_buf = ''1 a''\<rparr> ''b\<newline>c''))) < NL_LINE_MAX"
proof -
  have nonl: "newline \<notin> set (c_buf \<lparr>c_fd = 5, c_buf = ''1 a''\<rparr>)" by (simp add: newline_def)
  have "fst (cut_lines ''1 a'' ''b\<newline>c'') = [''1 ab'']" by (simp add: newline_def NL_LINE_MAX_def)
  with line_buffer_bounded_and_lossless [OF _ nonl, of demo_nl "''b\<newline>c''"] show ?thesis
    by (simp add: NL_LINE_MAX_def del: feed.simps cut_lines.simps)
qed

text \<open>
  C28: \<^bold>\<open>a fresh connection is judged by a stale slot.\<close> In the round that accepts the first producer,
  \<open>poll\<close> has filled slot 0 only, yet the service loop already looks at slot 1, which nobody has
  written: whether the newcomer is read from at once (blocking the one thread) or closed at
  once is decided by the uninitialised contents of that slot.
\<close>
theorem newcomer_serviced_from_stale_slot:
  assumes "length junk = NL_MAX_CONN + 1" and "rs 0 AND POLLIN \<noteq> 0" and "0 \<le> fd"
  shows "snd (listener_round (PollReady rs) False fd rd (listener_start nl junk)) =
    ([NlAccept fd]
       @ (if junk ! 1 AND POLLIN \<noteq> 0 then [NlRead fd] else [])
       @ (if junk ! 1 AND POLLIN \<noteq> 0 \<and> rd fd = None
             \<or> junk ! 1 AND (POLLHUP OR POLLERR OR POLLNVAL) \<noteq> 0 then [NlClose fd] else []),
     True)"
proof -
  obtain j0 j1 js where j: "junk = j0 # j1 # js"
    using assms(1) by (cases junk; cases "tl junk") (auto simp: NL_MAX_CONN_def)
  show ?thesis using assms(2,3)
    by (auto simp: listener_round_def listener_start_def Let_def j accept_conn_def NL_MAX_CONN_def
        service_Cons serve_one_def split: option.split)
qed

theorem newcomer_serviced_from_stale_slot_witness:
  "snd (listener_round (PollReady (\<lambda>i. if i = 0 then 1 else 0)) False 9 (\<lambda>_. None)
          (listener_start demo_nl (replicate 65 16)))
     = ([NlAccept 9, NlClose 9], True)"
  using newcomer_serviced_from_stale_slot [of "replicate 65 16" "\<lambda>i. if i = 0 then 1 else 0" 9 "\<lambda>_. None" demo_nl]
  by (simp add: NL_MAX_CONN_def POLLIN_def POLLHUP_def POLLERR_def POLLNVAL_def)

end
