(* ===== verification/Emulator.thy ===== *)
theory Emulator
  imports Device Netlog
begin

text \<open>
  The emulator's frame, \<^verbatim>\<open>project_1/emulator/vmm.c\<close> and \<^verbatim>\<open>main.c\<close>: creating and destroying the VMM, loading
  the boot parameters, and \<open>main\<close> with its two ways to run, as collector and with a guest. The Unicorn
  engine and the kernel answer through \<open>em_env\<close>; what is acquired and released is recorded.
\<close>

section \<open>The VMM\<close>

definition BOOTINFO_SIZE :: u64 where "BOOTINFO_SIZE = 0x10000"

definition BOOTINFO_BASE :: u64 where "BOOTINFO_BASE = RAM_BASE + RAM_SIZE - BOOTINFO_SIZE"

text \<open>\<open>v_uc\<close> says whether the engine is open; \<open>v_ram\<close>, \<open>v_dev\<close> and \<open>v_store\<close> are \<open>None\<close> for null.\<close>

record vmm =
  v_uc :: bool
  v_ram :: "u8 list option"
  v_dev :: "vlog_device option"
  v_store :: "logstore option"
  v_trace :: bool
  v_powered_off :: bool
  v_exit_code :: int
  v_faulted :: bool
  v_fault_addr :: u64

datatype em_event =
    EmStoreOpened string
  | EmStoreClosed
  | EmUcOpened
  | EmUcClosed
  | EmRegRdi u64
  | EmHookCode u64 u64
  | EmListening int
  | EmListenerStopped

text \<open>
  \<open>ee_boot\<close>: \<open>None\<close> when the file cannot be opened, otherwise what \<open>ftell\<close> says and the bytes \<open>fread\<close> finds.
\<close>

record em_env =
  ee_store_calloc :: bool
  ee_store_fopen :: bool
  ee_uc_open :: int
  ee_dev_calloc :: bool
  ee_net :: net_env
  ee_boot :: "(int \<times> u8 list) option"
  ee_signalled :: bool

definition zero_device :: vlog_device where
  "zero_device =
     \<lparr>d_status = 0, d_msg_addr_lo = 0, d_msg_addr_hi = 0, d_msg_len = 0, d_level = 0, d_seq = 0, d_bytes = 0\<rparr>"

definition vmm_create :: "em_env \<Rightarrow> bool \<Rightarrow> string \<Rightarrow> int \<times> vmm \<times> em_event list" where
  "vmm_create e trace log_path =
     (let v0 = \<lparr>v_uc = False, v_ram = None, v_dev = None, v_store = None, v_trace = trace, v_powered_off = False,
                v_exit_code = 0, v_faulted = False, v_fault_addr = 0\<rparr>
      in case logstore_open (ee_store_calloc e) (ee_store_fopen e) of
           None \<Rightarrow> (-1, v0, [])
         | Some st \<Rightarrow>
             let v1 = v0\<lparr>v_store := Some st\<rparr>; t1 = [EmStoreOpened log_path]
             in if ee_uc_open e \<noteq> 0 then (-1, v1, t1)
                else
                  let v2 = v1\<lparr>v_uc := True\<rparr>; t2 = t1 @ [EmUcOpened]
                  in if \<not> ee_dev_calloc e then (-1, v2, t2)
                     else (0, v2\<lparr>v_dev := Some (vlog_device_init zero_device)\<rparr>,
                           t2 @ [EmRegRdi BOOTINFO_BASE]
                              @ (if trace then [EmHookCode RAM_BASE (RAM_BASE + RAM_SIZE - 1)] else [])))"

text \<open>The functions left as exercises, as they stand.\<close>

definition vmm_load_binary :: "vmm \<Rightarrow> string \<Rightarrow> int \<times> vmm" where
  "vmm_load_binary v path = (-1, v)"

definition vmm_run :: "vmm \<Rightarrow> int \<times> vmm" where
  "vmm_run v = (1, v)"

definition serial_read :: "u64 \<Rightarrow> vmm \<Rightarrow> u64" where
  "serial_read offset v = 0"

definition serial_write :: "u64 \<Rightarrow> u64 \<Rightarrow> vmm \<Rightarrow> vmm" where
  "serial_write offset val v = v"

definition mem_invalid :: "u64 \<Rightarrow> vmm \<Rightarrow> bool \<times> vmm" where
  "mem_invalid address v = (False, v)"

definition vmm_gpa_to_host :: "vmm \<Rightarrow> u64 \<Rightarrow> u64 \<Rightarrow> u64" where
  "vmm_gpa_to_host v gpa len = 0"

text \<open>\<open>fread\<close> into \<open>v->ram + (BOOTINFO_BASE - RAM_BASE)\<close>.\<close>

definition vmm_load_bootinfo :: "em_env \<Rightarrow> vmm \<Rightarrow> (int \<times> vmm) trapping" where
  "vmm_load_bootinfo e v =
     (case ee_boot e of
        None \<Rightarrow> Inr (-1, v)
      | Some (sz, bytes) \<Rightarrow>
          if sz < 0 \<or> sz > uint BOOTINFO_SIZE then Inr (-1, v)
          else
            let data = take (nat sz) bytes; off = unat (BOOTINFO_BASE - RAM_BASE);
                rc = (if length data \<noteq> nat sz then -1 else 0)
            in if data = [] then Inr (rc, v)
               else (case v_ram v of
                       None \<Rightarrow> Inl NullDeref
                     | Some ram \<Rightarrow>
                         if off + length data > length ram then Inl OutOfBounds
                         else Inr (rc, v\<lparr>v_ram := Some (take off ram @ data @ drop (off + length data) ram)\<rparr>)))"

definition vmm_destroy :: "vmm \<Rightarrow> vmm \<times> em_event list" where
  "vmm_destroy v =
     (v\<lparr>v_uc := False, v_store := None, v_ram := None, v_dev := None\<rparr>,
      (if v_uc v then [EmUcClosed] else []) @ (if v_store v \<noteq> None then [EmStoreClosed] else []))"

section \<open>Main\<close>

record em_opts =
  o_bin :: "string option"
  o_log :: string
  o_boot :: "string option"
  o_trace :: bool
  o_listen :: int

text \<open>\<open>None\<close>: an option lacks its argument.\<close>

fun em_args :: "string list \<Rightarrow> em_opts \<Rightarrow> em_opts option" where
  "em_args [] opt = Some opt"
| "em_args (a # rest) opt =
     (if a = ''--trace'' then em_args rest (opt\<lparr>o_trace := True\<rparr>)
      else if a = ''--log'' then
        (case rest of [] \<Rightarrow> None | b # rest' \<Rightarrow> em_args rest' (opt\<lparr>o_log := b\<rparr>))
      else if a = ''--bootinfo'' then
        (case rest of [] \<Rightarrow> None | b # rest' \<Rightarrow> em_args rest' (opt\<lparr>o_boot := Some b\<rparr>))
      else if a = ''--listen'' then
        (case rest of [] \<Rightarrow> None | b # rest' \<Rightarrow> em_args rest' (opt\<lparr>o_listen := atoi10 b\<rparr>))
      else em_args rest (opt\<lparr>o_bin := Some a\<rparr>))"

text \<open>The collector: it runs until a signal comes (\<open>Diverges\<close>: none does).\<close>

definition run_collector :: "em_env \<Rightarrow> em_opts \<Rightarrow> (int \<times> em_event list) trapping" where
  "run_collector e opt =
     (case logstore_open (ee_store_calloc e) (ee_store_fopen e) of
        None \<Rightarrow> Inr (1, [])
      | Some st \<Rightarrow>
          (case fst (netlog_start (ee_net e) st (o_listen opt)) of
             None \<Rightarrow> Inr (1, [EmStoreOpened (o_log opt), EmStoreClosed])
           | Some nl \<Rightarrow>
               if \<not> ee_signalled e then Inl Diverges
               else Inr (0, [EmStoreOpened (o_log opt), EmListening (o_listen opt), EmListenerStopped,
                             EmStoreClosed])))"

text \<open>With a guest: \<open>load\<close> and \<open>run\<close> stand for \<open>vmm_load_binary\<close> and \<open>vmm_run\<close>.\<close>

definition run_booted :: "(vmm \<Rightarrow> int \<times> vmm) \<Rightarrow> em_env \<Rightarrow> em_opts \<Rightarrow> vmm \<Rightarrow> int \<times> em_event list" where
  "run_booted run e opt v =
     (let nl = (case v_store v of
                  None \<Rightarrow> None
                | Some st \<Rightarrow> if o_listen opt > 0 then fst (netlog_start (ee_net e) st (o_listen opt)) else None);
          t1 = (if nl \<noteq> None then [EmListening (o_listen opt)] else []);
          (rc, v1) = run v;
          t2 = (if nl \<noteq> None then [EmListenerStopped] else [])
      in (rc, t1 @ t2 @ snd (vmm_destroy v1)))"

definition run_guest ::
    "(vmm \<Rightarrow> string \<Rightarrow> int \<times> vmm) \<Rightarrow> (vmm \<Rightarrow> int \<times> vmm) \<Rightarrow> em_env \<Rightarrow> em_opts \<Rightarrow> string \<Rightarrow>
       (int \<times> em_event list) trapping"
where
  "run_guest load run e opt binpath =
     (let (rc, v, t) = vmm_create e (o_trace opt) (o_log opt)
      in if rc \<noteq> 0 then Inr (1, t)
         else
           let (rc1, v1) = load v binpath
           in if rc1 \<noteq> 0 then Inr (1, t @ snd (vmm_destroy v1))
              else tbind (case o_boot opt of None \<Rightarrow> Inr (0, v1) | Some path \<Rightarrow> vmm_load_bootinfo e v1) (\<lambda>(rc2, v2).
                if rc2 \<noteq> 0 then Inr (1, t @ snd (vmm_destroy v2))
                else
                  let (rc3, t3) = run_booted run e opt v2 in Inr (rc3, t @ t3)))"

definition emulator_main ::
    "(vmm \<Rightarrow> string \<Rightarrow> int \<times> vmm) \<Rightarrow> (vmm \<Rightarrow> int \<times> vmm) \<Rightarrow> em_env \<Rightarrow> string list \<Rightarrow>
       (int \<times> em_event list) trapping"
where
  "emulator_main load run e args =
     (case em_args args \<lparr>o_bin = None, o_log = ''vlog.log'', o_boot = None, o_trace = False, o_listen = 0\<rparr> of
        None \<Rightarrow> Inr (2, [])
      | Some opt \<Rightarrow>
          (case o_bin opt of
             None \<Rightarrow> if o_listen opt > 0 then run_collector e opt else Inr (2, [])
           | Some binpath \<Rightarrow> run_guest load run e opt binpath))"

section \<open>What is acquired is released in order\<close>

text \<open>
  An observer of the trace: the store is open or not, the listener runs or not, the engine is open or
  not. It rejects a listener on a closed store, closing the store under a listener, and anything opened
  twice or closed without being open.
\<close>

fun observe :: "em_event list \<Rightarrow> bool \<times> bool \<times> bool \<Rightarrow> (bool \<times> bool \<times> bool) option" where
  "observe [] s = Some s"
| "observe (EmStoreOpened p # es) (st, li, uc) = (if st then None else observe es (True, li, uc))"
| "observe (EmStoreClosed # es) (st, li, uc) = (if \<not> st \<or> li then None else observe es (False, li, uc))"
| "observe (EmListening port # es) (st, li, uc) = (if \<not> st \<or> li then None else observe es (st, True, uc))"
| "observe (EmListenerStopped # es) (st, li, uc) = (if \<not> li then None else observe es (st, False, uc))"
| "observe (EmUcOpened # es) (st, li, uc) = (if uc then None else observe es (st, li, True))"
| "observe (EmUcClosed # es) (st, li, uc) = (if \<not> uc then None else observe es (st, li, False))"
| "observe (EmRegRdi a # es) (st, li, uc) = (if \<not> uc then None else observe es (st, li, uc))"
| "observe (EmHookCode a b # es) (st, li, uc) = (if \<not> uc then None else observe es (st, li, uc))"

lemma observe_append:
  "observe (es @ fs) s = (case observe es s of None \<Rightarrow> None | Some s' \<Rightarrow> observe fs s')"
  by (induction es s rule: observe.induct) simp_all

lemma create_facts:
  assumes "vmm_create e tr p = (rc, v, t)"
  shows "rc = 0 \<Longrightarrow> observe t (False, False, False) = Some (True, False, True) \<and> v_uc v \<and> v_store v \<noteq> None"
    and "rc \<noteq> 0 \<Longrightarrow> \<exists>st uc. observe t (False, False, False) = Some (st, False, uc) \<and> (uc \<longrightarrow> st) \<and>
      (st \<longleftrightarrow> ee_store_calloc e \<and> ee_store_fopen e)"
  using assms by (auto simp: vmm_create_def Let_def logstore_open_def split: option.splits if_splits)

lemma destroy_facts:
  "v_uc v \<Longrightarrow> v_store v \<noteq> None \<Longrightarrow> snd (vmm_destroy v) = [EmUcClosed, EmStoreClosed]"
  by (simp add: vmm_destroy_def)

lemma bootinfo_keeps:
  "vmm_load_bootinfo e v = Inr (rc, v') \<Longrightarrow> v_uc v' = v_uc v \<and> v_store v' = v_store v"
  by (auto simp: vmm_load_bootinfo_def Let_def split: option.splits if_splits prod.splits)

text \<open>The functions left as exercises are trusted not to close the engine or the store.\<close>

definition load_keeps :: "(vmm \<Rightarrow> string \<Rightarrow> int \<times> vmm) \<Rightarrow> bool" where
  "load_keeps load \<longleftrightarrow> (\<forall>v p rc v'. load v p = (rc, v') \<longrightarrow> v_uc v' = v_uc v \<and> v_store v' = v_store v)"

definition run_keeps :: "(vmm \<Rightarrow> int \<times> vmm) \<Rightarrow> bool" where
  "run_keeps run \<longleftrightarrow> (\<forall>v rc v'. run v = (rc, v') \<longrightarrow> v_uc v' = v_uc v \<and> (v_store v' = None \<longleftrightarrow> v_store v = None))"

lemma stubs_keep: "load_keeps vmm_load_binary" "run_keeps vmm_run"
  by (simp_all add: load_keeps_def run_keeps_def vmm_load_binary_def vmm_run_def)

lemma booted_releases:
  assumes "run_keeps run" and "v_uc v" and "v_store v \<noteq> None"
  shows "observe (snd (run_booted run e opt v)) (True, False, True) = Some (False, False, False)"
proof -
  obtain rc v1 where r: "run v = (rc, v1)" by fastforce
  then have "v_uc v1 = v_uc v" "v_store v1 = None \<longleftrightarrow> v_store v = None"
    using assms(1) unfolding run_keeps_def by blast+
  with assms have "v_uc v1" "v_store v1 \<noteq> None" by simp_all
  then show ?thesis by (simp add: run_booted_def r Let_def destroy_facts)
qed

lemma guest_releases:
  assumes "load_keeps load" and "run_keeps run" and "run_guest load run e opt p = Inr (rc, t)"
  shows "\<exists>st uc. observe t (False, False, False) = Some (st, False, uc) \<and>
    (st \<longrightarrow> fst (vmm_create e (o_trace opt) (o_log opt)) \<noteq> 0 \<and> ee_store_calloc e \<and> ee_store_fopen e) \<and> (uc \<longrightarrow> st)"
proof -
  obtain rc0 v t0 where c: "vmm_create e (o_trace opt) (o_log opt) = (rc0, v, t0)" by (metis prod_cases3)
  show ?thesis
  proof (cases "rc0 = 0")
    case False
    with c assms(3) have "t = t0" by (simp add: run_guest_def)
    with create_facts(2) [OF c False] False c show ?thesis by auto
  next
    case True
    note v = create_facts(1) [OF c True]
    obtain rc1 v1 where l: "load v p = (rc1, v1)" by fastforce
    with v assms(1) have v1: "v_uc v1" "v_store v1 \<noteq> None" by (auto simp: load_keeps_def)
    show ?thesis
    proof (cases "rc1 = 0")
      case False
      with c True l assms(3) v1 have "t = t0 @ [EmUcClosed, EmStoreClosed]"
        by (auto simp: run_guest_def destroy_facts)
      with v have "observe t (False, False, False) = Some (False, False, False)" by (simp add: observe_append)
      then show ?thesis by blast
    next
      case ok: True
      from assms(3) c True l ok obtain rc2 v2 where
        b: "(case o_boot opt of None \<Rightarrow> Inr (0, v1) | Some path \<Rightarrow> vmm_load_bootinfo e v1) = Inr (rc2, v2)" and
        t: "t = t0 @ snd (vmm_destroy v2) \<or> t = t0 @ snd (run_booted run e opt v2)"
        by (auto simp: run_guest_def tbind_eq_Inr_iff split: if_splits prod.splits)
      have v2: "v_uc v2" "v_store v2 \<noteq> None"
        using b v1 bootinfo_keeps [of e v1 rc2 v2] by (auto split: option.splits)
      from t v booted_releases [OF assms(2) v2, of e opt]
      have "observe t (False, False, False) = Some (False, False, False)"
        by (auto simp: observe_append destroy_facts [OF v2])
      then show ?thesis by blast
    qed
  qed
qed

text \<open>
  C12: \<^bold>\<open>The emulator releases what it acquires, in order.\<close> In every run of \<open>main\<close> that returns, as collector or with
  a guest and whatever fails on the way, the store is opened before it is used, the listener is
  stopped before the store is closed, and nothing is opened twice or closed twice. At the end all is
  released, with one exception: when \<open>vmm_create\<close> fails after opening the store, the store stays
  open (and the engine, if it was the device that could not be allocated).
\<close>

theorem emulator_releases_in_order:
  assumes "load_keeps load" and "run_keeps run" and "emulator_main load run e args = Inr (rc, t)"
  shows "\<exists>st uc. observe t (False, False, False) = Some (st, False, uc) \<and> (uc \<longrightarrow> st) \<and>
    (st \<longrightarrow> ee_store_calloc e \<and> ee_store_fopen e \<and> (ee_uc_open e \<noteq> 0 \<or> \<not> ee_dev_calloc e))"
proof -
  have failed: "fst (vmm_create e tr p) \<noteq> 0 \<Longrightarrow> ee_store_calloc e \<Longrightarrow> ee_store_fopen e \<Longrightarrow>
      ee_uc_open e \<noteq> 0 \<or> \<not> ee_dev_calloc e" for tr p
    by (auto simp: vmm_create_def Let_def logstore_open_def)
  from assms(3) consider "t = []" | opt where "run_collector e opt = Inr (rc, t)"
    | opt p where "run_guest load run e opt p = Inr (rc, t)"
    by (auto simp: emulator_main_def split: option.splits if_splits)
  then show ?thesis
  proof cases
    case 1
    then have "observe t (False, False, False) = Some (False, False, False)" by simp
    then show ?thesis by blast
  next
    case (2 opt)
    then have "observe t (False, False, False) = Some (False, False, False)"
      by (auto simp: run_collector_def split: option.splits if_splits)
    then show ?thesis by blast
  next
    case (3 opt p)
    from guest_releases [OF assms(1,2) this] failed show ?thesis by blast
  qed
qed

definition demo_env :: em_env where
  "demo_env =
     \<lparr>ee_store_calloc = True, ee_store_fopen = True, ee_uc_open = 0, ee_dev_calloc = True,
      ee_net = \<lparr>env_calloc_ok = True, env_socket = 4, env_bind = (\<lambda>_. 0), env_listen = 0, env_pthread_create = 0\<rparr>,
      ee_boot = Some (2, [7, 8]), ee_signalled = True\<rparr>"

theorem emulator_releases_in_order_witness:
  "emulator_main (\<lambda>v p. (0, v)) (\<lambda>v. (7, v)) demo_env [''--listen'', ''9000'', ''guest.bin''] =
     Inr (7, [EmStoreOpened ''vlog.log'', EmUcOpened, EmRegRdi 0x10F0000, EmListening 9000, EmListenerStopped,
              EmUcClosed, EmStoreClosed]) \<and>
   (\<exists>st uc. observe [EmStoreOpened ''vlog.log'', EmUcOpened, EmRegRdi 0x10F0000, EmListening 9000, EmListenerStopped,
              EmUcClosed, EmStoreClosed] (False, False, False) = Some (st, False, uc))"
proof -
  have m: "emulator_main (\<lambda>v p. (0, v)) (\<lambda>v. (7, v)) demo_env [''--listen'', ''9000'', ''guest.bin''] =
     Inr (7, [EmStoreOpened ''vlog.log'', EmUcOpened, EmRegRdi 0x10F0000, EmListening 9000, EmListenerStopped,
              EmUcClosed, EmStoreClosed])"
    by code_simp
  have k: "load_keeps (\<lambda>v p. (0, v))" "run_keeps (\<lambda>v. (7, v))" by (simp_all add: load_keeps_def run_keeps_def)
  from emulator_releases_in_order [OF k m] m show ?thesis by blast
qed

section \<open>The boot parameters\<close>

text \<open>Loading the boot parameters stays inside the reserved region at the top of RAM, whatever the file.\<close>

lemma bootinfo_stays_reserved:
  assumes "v_ram v = Some ram" and "length ram = unat RAM_SIZE"
  shows "\<exists>rc v' ram'. vmm_load_bootinfo e v = Inr (rc, v') \<and> v_ram v' = Some ram' \<and> length ram' = length ram \<and>
    (\<forall>i < unat (BOOTINFO_BASE - RAM_BASE). ram' ! i = ram ! i)"
proof (cases "ee_boot e")
  case None
  with assms show ?thesis by (simp add: vmm_load_bootinfo_def)
next
  case (Some p)
  obtain sz bytes where p: "p = (sz, bytes)" by fastforce
  have c: "unat (BOOTINFO_BASE - RAM_BASE) = 0xFF0000" "uint BOOTINFO_SIZE = 0x10000" "length ram = 0x1000000"
    using assms(2) by (simp_all add: BOOTINFO_BASE_def RAM_BASE_def RAM_SIZE_def BOOTINFO_SIZE_def)
  let ?data = "take (nat sz) bytes"
  have "length ?data \<le> 0x10000" if "sz \<le> 0x10000" using that by simp
  with Some p assms(1) c show ?thesis
    by (auto simp: vmm_load_bootinfo_def Let_def nth_append min_def)
qed

end
