(* ===== verification/Sink.thy ===== *)
theory Sink
  imports LogStore
begin

text \<open>
  The log sink of the virtio backend, \<^verbatim>\<open>project_1/vhost/sink.c\<close>: one emitted descriptor chain is
  one record, parsed as \<open><level> <message>\<close> and appended through the log store.
\<close>

record vlog_sink =
  snk_store :: logstore
  snk_seq :: u32

definition vlog_sink_open :: "bool \<Rightarrow> bool \<Rightarrow> bool \<Rightarrow> vlog_sink option" where
  "vlog_sink_open sink_calloc_ok store_calloc_ok fopen_ok =
     (if \<not> sink_calloc_ok then None
      else (case logstore_open store_calloc_ok fopen_ok of
              None \<Rightarrow> None
            | Some st \<Rightarrow> Some \<lparr>snk_store = st, snk_seq = 0\<rparr>))"

definition vlog_sink_close :: "vlog_sink option \<Rightarrow> string option" where
  "vlog_sink_close s =
     (case s of None \<Rightarrow> None | Some k \<Rightarrow> logstore_close (Some (snk_store k)))"

text \<open>\<open>while (len && (p[len - 1] == '\n' || p[len - 1] == '\r')) len--;\<close>\<close>

fun strip_len :: "string \<Rightarrow> nat \<Rightarrow> nat" where
  "strip_len p 0 = 0"
| "strip_len p (Suc n) = (if p ! n = newline \<or> p ! n = cr then strip_len p n else Suc n)"

definition vlog_sink_emit :: "vlog_sink \<Rightarrow> string \<Rightarrow> u32 \<Rightarrow> vlog_sink" where
  "vlog_sink_emit sink bytes len0 =
     (let len = strip_len bytes (unat len0)
      in if len = 0 then sink
         else
           let (level, p, len') =
                 (if 2 \<le> len \<and> is_digit (bytes ! 0) \<and> bytes ! 1 = CHR '' ''
                  then (of_nat (digit_val (bytes ! 0)) :: u32, drop 2 bytes, len - 2)
                  else (1, bytes, len))
           in sink\<lparr>snk_store := logstore_append (snk_store sink) (snk_seq sink) level p (of_nat len'),
                   snk_seq := snk_seq sink + 1\<rparr>)"

section \<open>What one emitted buffer means\<close>

text \<open>
  The wire format as a parser: trailing line ends go, an empty line is no record, a digit and
  a space are the level, and anything else is an \<open>INFO\<close> message in full.
\<close>

definition sink_parse :: "string \<Rightarrow> (u32 \<times> string) option" where
  "sink_parse s =
     (let t = strip_line s
      in if t = [] then None
         else (case t of
                 c # d # m \<Rightarrow>
                   if is_digit c \<and> d = CHR '' '' then Some (of_nat (digit_val c), m) else Some (1, t)
               | _ \<Rightarrow> Some (1, t)))"

lemma strip_len_le: "strip_len p n \<le> n"
  by (induction p n rule: strip_len.induct) auto

lemma take_strip_len:
  "n \<le> length p \<Longrightarrow> take (strip_len p n) p = strip_line (take n p)"
proof (induction p n rule: strip_len.induct)
  case (1 p)
  then show ?case by (simp add: strip_line_def)
next
  case (2 p n)
  then have "take (Suc n) p = take n p @ [p ! n]" by (simp add: take_Suc_conv_app_nth)
  with 2 show ?case by (simp add: strip_line_def)
qed

lemma vlog_sink_emit_parse:
  assumes "unat len \<le> length bytes"
  shows "vlog_sink_emit sink bytes len =
    (case sink_parse (take (unat len) bytes) of
       None \<Rightarrow> sink
     | Some (level, msg) \<Rightarrow>
         sink\<lparr>snk_store := logstore_append (snk_store sink) (snk_seq sink) level msg (of_nat (length msg)),
              snk_seq := snk_seq sink + 1\<rparr>)"
proof -
  let ?n = "strip_len bytes (unat len)"
  let ?t = "strip_line (take (unat len) bytes)"
  have t: "?t = take ?n bytes" using assms by (simp add: take_strip_len)
  have nle: "?n \<le> unat len" by (rule strip_len_le)
  then have nb: "?n \<le> length bytes" "?n < 2 ^ 32"
    using assms unat_bounds(3) [of len] by simp_all
  have app: "logstore_append ls s l (drop k bytes) (of_nat (?n - k)) =
      logstore_append ls s l (drop k ?t) (of_nat (length (drop k ?t)))" for ls s l k
    using nb by (simp add: logstore_append_def Let_def t unat_of_nat take_bit_nat_eq_self
        drop_take min_absorb1)
  consider (empty) "?n = 0" | (one) "?n = 1" | (more) "2 \<le> ?n" by linarith
  then show ?thesis
  proof cases
    case empty
    then show ?thesis by (simp add: vlog_sink_emit_def sink_parse_def t)
  next
    case one
    with nb have "length (take ?n bytes) = Suc 0" by simp
    then obtain c where "take ?n bytes = [c]" by (auto simp only: length_Suc_conv length_0_conv)
    with t have "?t = [c]" by simp
    with one app [of _ _ _ 0] show ?thesis
      by (simp add: vlog_sink_emit_def sink_parse_def)
  next
    case more
    with nb obtain c d rest where b: "bytes = c # d # rest"
      by (metis Suc_le_length_iff numeral_2_eq_2 order_trans)
    from more obtain k where k: "?n = Suc (Suc k)" by (metis add_2_eq_Suc le_Suc_ex)
    have tt: "?t = c # d # take k rest" unfolding t k by (simp add: b)
    have first: "bytes ! 0 = c" "bytes ! 1 = d" by (simp_all add: b)
    from app [of _ _ _ 0] app [of _ _ _ 2] show ?thesis
      unfolding vlog_sink_emit_def sink_parse_def first tt k Let_def by simp
  qed
qed

lemma sink_parse_level_msg:
  assumes "l < 10" and "msg = [] \<or> last msg \<noteq> newline \<and> last msg \<noteq> cr"
  shows "sink_parse (dec l @ '' '' @ msg @ [newline]) = Some (of_nat l, msg)"
proof -
  let ?s = "dec l @ '' '' @ msg"
  have "last ?s \<noteq> newline \<and> last ?s \<noteq> cr"
    using assms(2) by (auto simp: newline_def cr_def)
  then have "strip_line ?s = ?s" by (simp add: strip_line_keep)
  then have strip: "strip_line (dec l @ '' '' @ msg @ [newline]) = ?s"
    using strip_line_line_end(1) [of ?s] by simp
  have d: "dec l = [char_of (48 + l)]" using assms(1) by (simp add: dec.simps)
  from assms(1) show ?thesis
    unfolding sink_parse_def strip by (simp add: d digit_char_props)
qed

section \<open>A run of emitted buffers\<close>

text \<open>
  Emitting buffers one after the other is the producer loop of the log store interface over
  the records the buffers hold, so the log is those records, numbered.
\<close>

definition emit_all :: "vlog_sink \<Rightarrow> string list \<Rightarrow> vlog_sink" where
  "emit_all sink bufs = foldl (\<lambda>k b. vlog_sink_emit k b (of_nat (length b))) sink bufs"

lemma emit_all_simps [simp]:
  "emit_all sink [] = sink"
  "emit_all sink (b # bufs) = emit_all (vlog_sink_emit sink b (of_nat (length b))) bufs"
  by (simp_all add: emit_all_def)

lemma emit_all_append_all:
  assumes "list_all (\<lambda>b. length b < 2 ^ 32) bufs"
  shows "(snk_store (emit_all sink bufs), snk_seq (emit_all sink bufs))
    = append_all logstore_append (snk_store sink) (snk_seq sink) (List.map_filter sink_parse bufs)"
  using assms
proof (induction bufs arbitrary: sink)
  case Nil
  then show ?case by simp
next
  case (Cons b bufs)
  then have "unat (of_nat (length b) :: u32) = length b" by (simp add: unat_of_length)
  then have "vlog_sink_emit sink b (of_nat (length b)) =
    (case sink_parse b of
       None \<Rightarrow> sink
     | Some (level, msg) \<Rightarrow>
         sink\<lparr>snk_store := logstore_append (snk_store sink) (snk_seq sink) level msg (of_nat (length msg)),
              snk_seq := snk_seq sink + 1\<rparr>)"
    by (simp add: vlog_sink_emit_parse)
  with Cons show ?case by (cases "sink_parse b") auto
qed

lemma sink_parse_short:
  assumes "sink_parse s = Some (l, m)"
  shows "length m \<le> length s"
proof -
  obtain t where t: "t = strip_line s" by simp
  have "length m \<le> length t"
    using assms unfolding sink_parse_def Let_def t [symmetric]
    by (cases t; cases "tl t") (auto split: if_splits)
  then have "length m \<le> length (strip_line s)" by (simp add: t)
  then show ?thesis using length_strip_line by (rule order_trans)
qed

lemma short_msgs_parse:
  "list_all (\<lambda>b. length b < 2 ^ 32) bufs \<Longrightarrow> short_msgs (List.map_filter sink_parse bufs)"
proof (induction bufs)
  case (Cons b bufs)
  then show ?case
    using sink_parse_short [of b] by (cases "sink_parse b") (auto intro: le_less_trans)
qed simp

end
