(* ===== verification/Runner.thy ===== *)
theory Runner
  imports Prelude "HOL-Library.Sublist"
begin

text \<open>
  The function runner, \<^verbatim>\<open>project_1/runner/runner.c\<close>: the log records it prints and sends to a
  collector, the built-in functions, the command protocol and the server loop. Calls of the
  operating system are recorded in \<open>rn_trace\<close>; their results are read from \<open>rn_sys\<close> (value and
  \<open>errno\<close>) and \<open>rn_in\<close> (bytes read) at the position of the call in the trace.
\<close>

section \<open>State\<close>

definition RUNNER_DEFAULT_PORT :: int where "RUNNER_DEFAULT_PORT = 8080"
definition LINE_MAX_LEN :: nat where "LINE_MAX_LEN = 4096"
definition LOG_DEBUG :: nat where "LOG_DEBUG = 0"
definition LOG_INFO :: nat where "LOG_INFO = 1"
definition LOG_WARN :: nat where "LOG_WARN = 2"
definition LOG_ERROR :: nat where "LOG_ERROR = 3"
definition LOG_BACKOFF_MAX :: nat where "LOG_BACKOFF_MAX = 64"
definition LOG_PEND_SIZE :: nat where "LOG_PEND_SIZE = 2048"

text \<open>The values of \<open>errno\<close> the code names.\<close>

definition EINTR :: int where "EINTR = 4"
definition EAGAIN :: int where "EAGAIN = 11"
definition ENOTCONN :: int where "ENOTCONN = 107"
definition EALREADY :: int where "EALREADY = 114"
definition EINPROGRESS :: int where "EINPROGRESS = 115"

datatype rn_event =
    RnSocket
  | RnFcntlGet int
  | RnFcntlSet int
  | RnConnect int u32 u16
  | RnWrite int string
  | RnClose int
  | RnBind u16
  | RnListen
  | RnAccept int
  | RnRead int

text \<open>
  \<open>rn_pend\<close> is \<open>g_log_pend[0 .. g_log_pend_len)\<close>; \<open>rn_stdout\<close> what was printed; \<open>rn_errno\<close> keeps its
  value over calls that succeed.
\<close>

record runner =
  rn_log_host :: "string option"
  rn_log_port :: int
  rn_log_fd :: int
  rn_log_skip :: nat
  rn_log_backoff :: nat
  rn_pend :: string
  rn_stdout :: string
  rn_errno :: int
  rn_trace :: "rn_event list"
  rn_sys :: "nat \<Rightarrow> int \<times> int"
  rn_in :: "nat \<Rightarrow> string"

definition rn_call :: "runner \<Rightarrow> rn_event \<Rightarrow> int \<times> runner" where
  "rn_call r e =
     (let (ret, err) = rn_sys r (length (rn_trace r))
      in (ret, r\<lparr>rn_trace := rn_trace r @ [e], rn_errno := (if ret < 0 then err else rn_errno r)\<rparr>))"

definition rn_emit :: "runner \<Rightarrow> rn_event \<Rightarrow> runner" where
  "rn_emit r e = r\<lparr>rn_trace := rn_trace r @ [e]\<rparr>"

section \<open>The log sink\<close>

text \<open>One octet: its digits are read as long as the value is at most 255.\<close>

fun ipv4_octet :: "nat \<Rightarrow> string \<Rightarrow> (nat \<times> string) option" where
  "ipv4_octet v [] = Some (v, [])"
| "ipv4_octet v (c # cs) =
     (if is_digit c
      then (if v * 10 + digit_val c > 255 then None else ipv4_octet (v * 10 + digit_val c) cs)
      else Some (v, c # cs))"

text \<open>The loop over the octets from \<open>i\<close> on; before all but the first there must be a dot.\<close>

fun ipv4_octets :: "nat \<Rightarrow> bool \<Rightarrow> u32 \<Rightarrow> string \<Rightarrow> (u32 \<times> string) option" where
  "ipv4_octets 0 dot v s = Some (v, s)"
| "ipv4_octets (Suc k) dot v s =
     (if dot \<and> (s = [] \<or> hd s \<noteq> CHR ''.'') then None
      else
        let t = (if dot then tl s else s)
        in if t = [] \<or> \<not> is_digit (hd t) then None
           else (case ipv4_octet 0 t of
                   None \<Rightarrow> None
                 | Some (x, rest) \<Rightarrow> ipv4_octets k True (push_bit 8 v OR of_nat x) rest))"

definition parse_ipv4 :: "string \<Rightarrow> u32 option" where
  "parse_ipv4 s =
     (case ipv4_octets 4 False 0 s of
        None \<Rightarrow> None
      | Some (v, rest) \<Rightarrow> if rest = [] then Some v else None)"

definition log_sink_connect :: "runner \<Rightarrow> int \<times> runner" where
  "log_sink_connect r =
     (case rn_log_host r of
        None \<Rightarrow> (-1, r)
      | Some host \<Rightarrow>
          (case parse_ipv4 host of
             None \<Rightarrow> (-1, r)
           | Some ip \<Rightarrow>
               (let (fd, r1) = rn_call r RnSocket
                in if fd < 0 then (-1, r1)
                   else
                     let (fl, r2) = rn_call r1 (RnFcntlGet fd);
                         r3 = (if fl \<ge> 0 then snd (rn_call r2 (RnFcntlSet fd)) else r2);
                         (rc, r4) = rn_call r3 (RnConnect fd ip (of_int (rn_log_port r3)))
                     in if rc \<noteq> 0 \<and> rn_errno r4 \<noteq> EINPROGRESS \<and> rn_errno r4 \<noteq> EAGAIN \<and>
                           rn_errno r4 \<noteq> EALREADY
                        then (-1, rn_emit r4 (RnClose fd))
                        else (fd, r4))))"

definition log_pend :: "runner \<Rightarrow> string \<Rightarrow> runner" where
  "log_pend r line =
     (if length (rn_pend r) + length line > LOG_PEND_SIZE then r
      else r\<lparr>rn_pend := rn_pend r @ line\<rparr>)"

definition log_would_block :: "runner \<Rightarrow> bool" where
  "log_would_block r \<longleftrightarrow> rn_errno r = EAGAIN \<or> rn_errno r = ENOTCONN \<or> rn_errno r = EINPROGRESS"

definition widen_gap :: "runner \<Rightarrow> runner" where
  "widen_gap r =
     r\<lparr>rn_log_skip := rn_log_backoff r,
       rn_log_backoff := (if rn_log_backoff r < LOG_BACKOFF_MAX then rn_log_backoff r * 2
                          else rn_log_backoff r)\<rparr>"

definition log_sink_drop :: "runner \<Rightarrow> runner" where
  "log_sink_drop r = widen_gap ((rn_emit r (RnClose (rn_log_fd r)))\<lparr>rn_log_fd := -1\<rparr>)"

text \<open>The last part: the pending bytes are gone, the line itself is written.\<close>

definition write_line :: "runner \<Rightarrow> string \<Rightarrow> runner" where
  "write_line r line =
     (let (w, r1) = rn_call r (RnWrite (rn_log_fd r) line)
      in if w \<noteq> int (length line)
         then log_pend (if \<not> log_would_block r1 then log_sink_drop r1 else r1) line
         else r1)"

definition send_line :: "runner \<Rightarrow> string \<Rightarrow> runner" where
  "send_line r line =
     (if rn_pend r \<noteq> []
      then
        let (w, r1) = rn_call r (RnWrite (rn_log_fd r) (rn_pend r))
        in if w = int (length (rn_pend r1)) then write_line (r1\<lparr>rn_pend := []\<rparr>) line
           else if w > 0 then log_pend (r1\<lparr>rn_pend := drop (nat w) (rn_pend r1)\<rparr>) line
           else log_pend (if \<not> log_would_block r1 then log_sink_drop r1 else r1) line
      else write_line r line)"

definition log_sink_emit :: "runner \<Rightarrow> string \<Rightarrow> runner" where
  "log_sink_emit r line =
     (if rn_log_host r = None then r
      else if rn_log_fd r < 0
      then
        (if rn_log_skip r > 0 then log_pend (r\<lparr>rn_log_skip := rn_log_skip r - 1\<rparr>) line
         else
           let (fd, r1) = log_sink_connect r; r2 = r1\<lparr>rn_log_fd := fd\<rparr>
           in if fd < 0 then log_pend (widen_gap r2) line
              else send_line (r2\<lparr>rn_log_backoff := 1\<rparr>) line)
      else send_line r line)"

text \<open>
  The record: the level, a space, the message, cut to leave room for the newline. \<open>msg\<close> is what
  \<open>vsnprintf\<close> makes of the format.
\<close>

definition log_line :: "nat \<Rightarrow> string \<Rightarrow> string" where
  "log_line level msg = take (LINE_MAX_LEN - 2) (dec level @ '' '' @ msg) @ [newline]"

definition logrec :: "runner \<Rightarrow> nat \<Rightarrow> string \<Rightarrow> runner" where
  "logrec r level msg =
     (let line = log_line level msg
      in log_sink_emit (r\<lparr>rn_stdout := rn_stdout r @ line\<rparr>) line)"

section \<open>The built-in functions\<close>

text \<open>The platform hooks' default definitions.\<close>

definition runner_platform_info :: "nat \<Rightarrow> int \<times> string" where
  "runner_platform_info n = (0, take (n - 1) ''platform=posix'')"

definition runner_on_invoke :: "string \<Rightarrow> runner \<Rightarrow> runner" where
  "runner_on_invoke fn r = r"

fun count_words :: "string \<Rightarrow> bool \<Rightarrow> int \<Rightarrow> int" where
  "count_words [] in_word words = words"
| "count_words (c # cs) in_word words =
     (if is_space c then count_words cs False words
      else if \<not> in_word then count_words cs True (words + 1)
      else count_words cs in_word words)"

text \<open>A function gives its return value and what it leaves in \<open>out\<close>; \<open>n\<close> is the size of \<open>out\<close>.\<close>

definition fn_wordcount :: "string \<Rightarrow> nat \<Rightarrow> (int \<times> string) trapping" where
  "fn_wordcount payload n = Inr (0, take (n - 1) (dec_int (count_words payload False 0)))"

text \<open>The sum is a \<open>long long\<close>; its overflow is undefined behaviour, a trap of the model.\<close>

lemma strtoll10_shorter: "snd (strtoll10 s) \<noteq> s \<Longrightarrow> length (snd (strtoll10 s)) < length s"
proof -
  assume a: "snd (strtoll10 s) \<noteq> s"
  have le: "length (snd (strtoll10 s)) \<le> length s"
  proof -
    have "length (dropWhile is_digit (tl (dropWhile is_space s))) \<le> length s"
      "length (dropWhile is_digit (dropWhile is_space s)) \<le> length s"
      using length_dropWhile_le [of is_digit "tl (dropWhile is_space s)"]
        length_dropWhile_le [of is_space s] length_dropWhile_le [of is_digit "dropWhile is_space s"]
      by simp_all
    then show ?thesis by (simp add: strtoll10_def Let_def)
  qed
  have "\<exists>pre. s = pre @ snd (strtoll10 s)"
  proof -
    have d: "\<exists>pre. t = pre @ dropWhile P t" for P and t :: string
      by (metis takeWhile_dropWhile_id)
    have "\<exists>pre. dropWhile is_space s = pre @ dropWhile is_digit (tl (dropWhile is_space s))"
      if "dropWhile is_space s \<noteq> []"
      using that d [of "tl (dropWhile is_space s)" is_digit]
      by (cases "dropWhile is_space s") (auto, metis append_Cons)
    with d [of s is_space] d [of "dropWhile is_space s" is_digit] show ?thesis
      by (auto simp: strtoll10_def Let_def) (metis append.assoc append_Nil)+
  qed
  with a le show ?thesis by (metis append_self_conv2 length_0_conv length_append le_eq_less_or_eq add_cancel_left_left)
qed

function sum_tokens :: "string \<Rightarrow> int \<Rightarrow> (int option) trapping" where
  "sum_tokens p acc =
     (let q = dropWhile is_space p
      in if q = [] then Inr (Some acc)
         else if snd (strtoll10 q) = q then Inr None
         else if \<not> (- (2 ^ 63) \<le> acc + fst (strtoll10 q) \<and> acc + fst (strtoll10 q) < 2 ^ 63) then Inl SignedOverflow
         else sum_tokens (snd (strtoll10 q)) (acc + fst (strtoll10 q)))"
  by auto
termination
proof (relation "measure (\<lambda>(p, _). length p)", goal_cases)
  case (2 p acc q)
  have "length (dropWhile is_space p) \<le> length p" by (rule length_dropWhile_le)
  with 2 strtoll10_shorter [of q] show ?case by simp
qed simp

declare sum_tokens.simps [simp del]

definition fn_sum :: "string \<Rightarrow> nat \<Rightarrow> (int \<times> string) trapping" where
  "fn_sum payload n =
     tbind (sum_tokens payload 0) (\<lambda>r. Inr (case r of
       None \<Rightarrow> (-1, take (n - 1) ''not a number'')
     | Some t \<Rightarrow> (0, take (n - 1) (dec_int t))))"

definition FUNCS :: "(string \<times> (string \<Rightarrow> nat \<Rightarrow> (int \<times> string) trapping)) list" where
  "FUNCS = [(''wordcount'', fn_wordcount), (''sum'', fn_sum)]"

section \<open>The protocol\<close>

text \<open>
  \<open>snprintf (buf, n, ...)\<close> leaves the first \<open>n - 1\<close> characters. A function's name is cut to 63
  characters, its payload is the rest of the line after one space.
\<close>

definition run_name :: "string \<Rightarrow> string" where
  "run_name rest = take 63 (takeWhile (\<lambda>c. c \<noteq> CHR '' '') rest)"

definition run_payload :: "string \<Rightarrow> string" where
  "run_payload rest = tl (dropWhile (\<lambda>c. c \<noteq> CHR '' '') rest)"

fun run_func ::
    "(string \<times> (string \<Rightarrow> nat \<Rightarrow> (int \<times> string) trapping)) list \<Rightarrow> string \<Rightarrow> string \<Rightarrow> nat \<Rightarrow> runner \<Rightarrow>
       (string \<times> runner) trapping"
where
  "run_func [] name payload rn r =
     Inr (take (rn - 1) (''ERR no such function'' @ [newline]),
          logrec r LOG_WARN (''no such function: '' @ name))"
| "run_func ((fname, fn) # fs) name payload rn r =
     (if name \<noteq> fname then run_func fs name payload rn r
      else
        let r1 = logrec r LOG_INFO (''invoke '' @ name)
        in tbind (fn payload 256) (\<lambda>(rc, out).
             if rc \<noteq> 0
             then Inr (take (rn - 1) (''ERR '' @ out @ [newline]), logrec r1 LOG_ERROR (name @ '' failed: '' @ out))
             else Inr (take (rn - 1) (''OK '' @ out @ [newline]),
                       runner_on_invoke name (logrec r1 LOG_INFO (name @ '' -> '' @ out)))))"

definition handle_line :: "string \<Rightarrow> nat \<Rightarrow> runner \<Rightarrow> (string \<times> runner) trapping" where
  "handle_line buf rn r =
     (let line = strip_line (c_str buf)
      in if line = ''PING'' then Inr (take (rn - 1) (''PONG'' @ [newline]), logrec r LOG_DEBUG ''ping'')
         else if line = ''INFO''
         then
           (let (rc, out) = runner_platform_info 256; info = (if rc \<noteq> 0 then ''unavailable'' else out)
            in Inr (take (rn - 1) (''OK '' @ info @ [newline]), logrec r LOG_DEBUG ''info''))
         else if line = ''FUNCS''
         then Inr (take (rn - 1) (''OK'' @ concat (map (\<lambda>(nm, _). '' '' @ nm) FUNCS) @ [newline]),
                   logrec r LOG_DEBUG ''funcs'')
         else if take 4 line = ''RUN ''
         then
           let rest = dropWhile (\<lambda>c. c = CHR '' '') (drop 4 line)
           in run_func FUNCS (run_name rest) (run_payload rest) rn r
         else Inr (take (rn - 1) (''ERR bad command'' @ [newline]), logrec r LOG_WARN ''bad command''))"

section \<open>The server\<close>

text \<open>
  The command line, without the program's name. A collector address is cut to 63 characters; a
  port out of range turns the collector off.
\<close>

fun parse_args :: "string list \<Rightarrow> int \<Rightarrow> runner \<Rightarrow> int \<times> runner" where
  "parse_args [] port r = (port, r)"
| "parse_args [a] port r =
     (if a = [] \<or> hd a \<noteq> CHR ''-'' then (atoi10 a, r) else (port, r))"
| "parse_args (a # b # rest) port r =
     (if a = ''--log-to''
      then
        (if CHR '':'' \<notin> set b
         then parse_args rest port
                (logrec r LOG_WARN (''ignoring --log-to '' @ b @ '' (want HOST:PORT)''))
         else
           let p = atoi10 (tl (dropWhile (\<lambda>c. c \<noteq> CHR '':'') b));
               h = take 63 (takeWhile (\<lambda>c. c \<noteq> CHR '':'') b)
           in parse_args rest port
                (r\<lparr>rn_log_port := p, rn_log_host := (if p \<le> 0 \<or> p > 65535 then None else Some h)\<rparr>))
      else if a = [] \<or> hd a \<noteq> CHR ''-'' then parse_args (b # rest) (atoi10 a) r
      else parse_args (b # rest) port r)"

text \<open>
  One connection: read once, answer once, close. \<open>strerror\<close> gives the text of an error number.
\<close>

definition serve_client :: "int \<Rightarrow> runner \<Rightarrow> runner trapping" where
  "serve_client c r =
     (let pos = length (rn_trace r); (n, r1) = rn_call r (RnRead c)
      in tbind (if n > 0
                then tbind (handle_line (take (nat n) (rn_in r pos)) 512 r1) (\<lambda>(reply, r2).
                       Inr (snd (rn_call r2 (RnWrite c reply))))
                else Inr r1)
           (\<lambda>r3. Inr (rn_emit r3 (RnClose c))))"

text \<open>
  The accept loop over at most \<open>fuel\<close> calls of \<open>accept\<close>; \<open>Diverges\<close> says that it is still serving.
\<close>

fun serve_loop :: "(int \<Rightarrow> string) \<Rightarrow> nat \<Rightarrow> int \<Rightarrow> runner \<Rightarrow> runner trapping" where
  "serve_loop strerror 0 s r = Inl Diverges"
| "serve_loop strerror (Suc k) s r =
     (let (c, r1) = rn_call r (RnAccept s)
      in if c < 0
         then
           (if rn_errno r1 = EINTR then serve_loop strerror k s r1
            else Inr (logrec r1 LOG_ERROR (''accept: '' @ strerror (rn_errno r1))))
         else tbind (serve_client c r1) (serve_loop strerror k s))"

text \<open>The result is the exit status with the final state.\<close>

definition runner_main :: "(int \<Rightarrow> string) \<Rightarrow> nat \<Rightarrow> string list \<Rightarrow> runner \<Rightarrow> (int \<times> runner) trapping" where
  "runner_main strerror fuel args r =
     (let (port0, r0) = parse_args args RUNNER_DEFAULT_PORT r;
          port = (if port0 \<le> 0 \<or> port0 > 65535 then RUNNER_DEFAULT_PORT else port0);
          (s, r1) = rn_call r0 RnSocket
      in if s < 0 then Inr (1, logrec r1 LOG_ERROR (''socket: '' @ strerror (rn_errno r1)))
         else
           let (rc, r2) = rn_call r1 (RnBind (of_int port))
           in if rc \<noteq> 0
              then Inr (1, logrec r2 LOG_ERROR (''bind '' @ dec_int port @ '': '' @ strerror (rn_errno r2)))
              else
                let (rc2, r3) = rn_call r2 RnListen
                in if rc2 \<noteq> 0 then Inr (1, logrec r3 LOG_ERROR (''listen: '' @ strerror (rn_errno r3)))
                   else tbind (serve_loop strerror fuel s
                                 (logrec r3 LOG_INFO (''function runner started on port '' @ dec_int port)))
                          (\<lambda>r4. Inr (0, rn_emit r4 (RnClose s))))"

end
