(* ===== verification/RunnerFacts.thy ===== *)
theory RunnerFacts
  imports Runner
begin

text \<open>
  What the runner promises: the replies of the protocol, whatever happens to its log, and what
  reaches the log collector over connections that come and go.
\<close>

section \<open>Counting words\<close>

text \<open>The reference: the words of a text are its longest pieces without white space.\<close>

function words :: "string \<Rightarrow> string list" where
  "words s =
     (let t = dropWhile is_space s
      in if t = [] then [] else takeWhile (\<lambda>c. \<not> is_space c) t # words (dropWhile (\<lambda>c. \<not> is_space c) t))"
  by auto
termination
proof (relation "measure length", goal_cases)
  case (2 s t)
  then have "\<not> is_space (hd t)" using hd_dropWhile [of is_space s] by simp
  with 2(2) have "length (dropWhile (\<lambda>c. \<not> is_space c) t) < length t"
    by (cases t) (auto intro: le_imp_less_Suc length_dropWhile_le)
  with 2(1) length_dropWhile_le [of is_space s] show ?case by simp
qed simp

declare words.simps [simp del]

lemma words_Nil: "words [] = []"
  by (subst words.simps) simp

lemma words_space: "is_space c \<Longrightarrow> words (c # cs) = words cs"
  by (subst (1 2) words.simps) simp

lemma words_Cons:
  "\<not> is_space c \<Longrightarrow> words (c # cs) = (c # takeWhile (\<lambda>c. \<not> is_space c) cs) # words (dropWhile (\<lambda>c. \<not> is_space c) cs)"
  by (subst words.simps) simp

lemma length_words: "length (words s) \<le> length s"
proof (induction s rule: words.induct)
  case (1 s)
  let ?t = "dropWhile is_space s"
  show ?case
  proof (cases "?t = []")
    case True
    then show ?thesis by (subst words.simps) simp
  next
    case False
    then have "\<not> is_space (hd ?t)" using hd_dropWhile [of is_space s] by simp
    with False have "length (dropWhile (\<lambda>c. \<not> is_space c) ?t) < length ?t"
      by (cases ?t) (auto intro: le_imp_less_Suc length_dropWhile_le)
    moreover have "length ?t \<le> length s" by (rule length_dropWhile_le)
    ultimately show ?thesis using "1.IH" [OF refl] False by (subst words.simps) (simp add: Let_def)
  qed
qed

lemma length_dec: "n < 10 ^ Suc k \<Longrightarrow> length (dec n) \<le> Suc k"
proof (induction k arbitrary: n)
  case 0
  then show ?case by (subst dec.simps) simp
next
  case (Suc k)
  show ?case
  proof (cases "n < 10")
    case False
    have "n div 10 < 10 ^ Suc k" using Suc.prems by (simp add: div_less_iff_less_mult)
    from Suc.IH [OF this] False show ?thesis by (subst dec.simps) simp
  qed (subst dec.simps, simp)
qed

lemma count_words_eq:
  "count_words s False n = n + int (length (words s))"
  "count_words s True n = n + int (length (words (dropWhile (\<lambda>c. \<not> is_space c) s)))"
  by (induction s arbitrary: n) (simp_all add: words_Nil words_space words_Cons)

section \<open>Replies\<close>

text \<open>
  Logging never changes a reply. The reply to a line is the same for any state of the
  log sink and any behaviour of the collector and the operating system.
\<close>

lemma logging_never_changes_a_reply:
  "map_sum id fst (handle_line buf rn r) = map_sum id fst (handle_line buf rn r')"
proof -
  have "map_sum id fst (run_func fs name p rn r) = map_sum id fst (run_func fs name p rn r')" for fs name p
  proof (induction fs)
    case (Cons f fs)
    obtain nm fn where f: "f = (nm, fn)" by (cases f)
    show ?case
    proof (cases "name = nm")
      case True
      with f show ?thesis by (cases "fn p 256") (auto simp: Let_def)
    next
      case False
      with f Cons.IH show ?thesis by simp
    qed
  qed simp
  then show ?thesis by (simp add: handle_line_def Let_def runner_platform_info_def)
qed

lemma dec_no_newline: "newline \<notin> set (dec n)" "newline \<notin> set (dec_int i)"
  using dec_digits not_digit_chars(2) by (auto simp: dec_int_def newline_def dest: dec_digits)


definition one_line :: "string \<Rightarrow> bool" where
  "one_line reply \<longleftrightarrow>
     (\<exists>body. reply = body @ [newline] \<and> newline \<notin> set body \<and> length reply < 512 \<and>
        (body = ''PONG'' \<or> (\<exists>x. body = ''OK '' @ x) \<or> (\<exists>x. body = ''ERR '' @ x)))"

lemma one_lineI:
  assumes "newline \<notin> set x" and "length x < 500"
  shows "one_line (take (512 - 1) (''OK '' @ x @ [newline]))" "one_line (take (512 - 1) (''ERR '' @ x @ [newline]))"
  using assms
  by (auto simp: one_line_def newline_def intro!: exI [of _ "''OK '' @ x"] exI [of _ "''ERR '' @ x"])

lemma func_output:
  assumes "(nm, fn) \<in> set FUNCS" and "fn payload n = Inr (rc, out)"
  shows "newline \<notin> set out \<and> length out \<le> n - 1"
  using assms dec_no_newline
  by (auto simp: FUNCS_def fn_wordcount_def fn_sum_def tbind_eq_Inr_iff newline_def split: option.splits
      dest!: in_set_takeD)

lemma run_func_one_line:
  "set fs \<subseteq> set FUNCS \<Longrightarrow> run_func fs name payload 512 r = Inr (reply, r') \<Longrightarrow> one_line reply"
proof (induction fs)
  case Nil
  then show ?case using one_lineI(2) [of "''no such function''"] by (auto simp: newline_def)
next
  case (Cons f fs)
  obtain nm fn where f: "f = (nm, fn)" by (cases f)
  show ?case
  proof (cases "name = nm")
    case True
    with f Cons.prems obtain rc out where o: "fn payload 256 = Inr (rc, out)"
      and reply: "reply = take (512 - 1) ((if rc \<noteq> 0 then ''ERR '' else ''OK '') @ out @ [newline])"
      by (auto simp: Let_def tbind_eq_Inr_iff split: if_splits)
    have "newline \<notin> set out" "length out \<le> 255"
      using func_output [of nm fn payload 256 rc out] o Cons.prems(1) f by simp_all
    then show ?thesis using one_lineI [of out] reply by (cases "rc = 0") simp_all
  next
    case False
    with f Cons show ?thesis by simp
  qed
qed

text \<open>
  Every reply is one short line. Whatever a client sends, if the line is handled at all (a
  sum that overflows is undefined), the reply is a single line, ended by a newline, that fits the
  buffer and starts with \<open>PONG\<close>, \<open>OK\<close> or \<open>ERR\<close>.
\<close>

lemma every_reply_is_one_line:
  assumes "handle_line buf 512 r = Inr (reply, r')"
  shows "\<exists>body. reply = body @ [newline] \<and> newline \<notin> set body \<and> length reply < 512 \<and>
    (body = ''PONG'' \<or> (\<exists>x. body = ''OK '' @ x) \<or> (\<exists>x. body = ''ERR '' @ x))"
proof -
  have "one_line reply"
    using assms one_lineI(1) [of "''platform=posix''"] one_lineI(1) [of "''wordcount sum''"]
      one_lineI(2) [of "''bad command''"] run_func_one_line [OF order.refl]
    by (auto simp: handle_line_def Let_def runner_platform_info_def FUNCS_def newline_def one_line_def
        split: if_splits)
  then show ?thesis by (simp add: one_line_def)
qed

definition demo_runner :: runner where
  "demo_runner = \<lparr>rn_log_host = None, rn_log_port = 0, rn_log_fd = -1, rn_log_skip = 0,
     rn_log_backoff = 1, rn_pend = [], rn_stdout = [], rn_errno = 0, rn_trace = [],
     rn_sys = (\<lambda>_. (-1, EAGAIN)), rn_in = (\<lambda>_. [])\<rparr>"

section \<open>Running the functions\<close>

lemma handle_run:
  assumes "nul \<notin> set body" and "strip_line (''RUN '' @ body) = ''RUN '' @ body" and "hd body \<noteq> CHR '' ''" and "body \<noteq> []"
  shows "handle_line (''RUN '' @ body @ [newline]) rn r = run_func FUNCS (run_name body) (run_payload body) rn r"
proof -
  have c: "c_str (''RUN '' @ body @ [newline]) = ''RUN '' @ body @ [newline]"
    using assms(1) by (intro c_str_no_nul) (auto simp: nul_def newline_def)
  have s: "strip_line (''RUN '' @ body @ [newline]) = ''RUN '' @ body"
    using strip_line_line_end(1) [of "''RUN '' @ body"] assms(2) by simp
  have d: "dropWhile (\<lambda>c. c = CHR '' '') body = body" using assms(3,4) by (cases body) simp_all
  have "handle_line (''RUN '' @ body @ [newline]) rn r =
      run_func FUNCS (run_name (dropWhile (\<lambda>c. c = CHR '' '') (drop 4 (''RUN '' @ body))))
        (run_payload (dropWhile (\<lambda>c. c = CHR '' '') (drop 4 (''RUN '' @ body)))) rn r"
    unfolding handle_line_def c s Let_def by simp
  then show ?thesis by (simp add: d)
qed

text \<open>
  The word count is the number of words. The counting automaton of \<open>wordcount\<close> agrees with the
  reference that takes a text apart into its longest pieces without white space, for any payload
  without NUL that does not end in a line end.
\<close>

lemma wordcount_counts_the_words:
  assumes "nul \<notin> set payload" and "payload = [] \<or> last payload \<noteq> newline \<and> last payload \<noteq> cr"
    and "length payload < LINE_MAX_LEN"
  shows "\<exists>r'. handle_line (''RUN wordcount '' @ payload @ [newline]) 512 r =
    Inr (''OK '' @ dec (length (words payload)) @ [newline], r')"
proof -
  let ?body = "''wordcount '' @ payload" and ?n = "dec (length (words payload))"
  have "strip_line (''RUN '' @ ?body) = ''RUN '' @ ?body"
    using assms(2) by (intro strip_line_keep) (auto simp: newline_def cr_def)
  moreover have "nul \<notin> set ?body" using assms(1) by (auto simp: nul_def)
  moreover have "run_name ?body = ''wordcount''" "run_payload ?body = payload"
    by (simp_all add: run_name_def run_payload_def)
  moreover have "length ?n \<le> 4"
    using length_words [of payload] assms(3) length_dec [of "length (words payload)" 3]
    by (simp add: LINE_MAX_LEN_def)
  moreover have "dec_int (int (length (words payload))) = ?n" by (simp add: dec_int_def)
  ultimately show ?thesis
    using handle_run [of ?body 512 r]
    by (simp add: FUNCS_def fn_wordcount_def count_words_eq Let_def)
qed


definition sum_line :: "int list \<Rightarrow> string" where
  "sum_line xs = concat (map (\<lambda>x. '' '' @ dec_int x) xs)"

lemma dec_int_chars: "c \<in> set (dec_int i) \<Longrightarrow> is_digit c \<or> c = CHR ''-''"
  using dec_digits by (auto simp: dec_int_def split: if_splits)

lemma sum_tokens_sum_line:
  assumes "\<forall>x \<in> set xs. - (2 ^ 63) \<le> x \<and> x < 2 ^ 63"
    and "\<forall>k \<le> length xs. - (2 ^ 63) \<le> a + sum_list (take k xs) \<and> a + sum_list (take k xs) < 2 ^ 63"
  shows "sum_tokens (sum_line xs) a = Inr (Some (a + sum_list xs))"
  using assms
proof (induction xs arbitrary: a)
  case Nil
  then show ?case by (subst sum_tokens.simps) (simp add: sum_line_def)
next
  case (Cons x xs)
  have ns: "dropWhile is_space (sum_line (x # xs)) = dec_int x @ sum_line xs"
    using dec_int_chars [of "hd (dec_int x)" x] digit_not_space [of "hd (dec_int x)"]
    by (cases "dec_int x") (auto simp: sum_line_def is_space_def dec_int_def split: if_splits)
  have rest: "sum_line xs = [] \<or> \<not> is_digit (hd (sum_line xs))"
    by (cases xs) (auto simp: sum_line_def cstr_simps)
  from strtoll10_dec_int [OF _ _ rest, of x] Cons.prems(1)
  have v: "strtoll10 (dec_int x @ sum_line xs) = (x, sum_line xs)" by simp
  have ne: "dec_int x \<noteq> []" "dec_int x @ sum_line xs \<noteq> []" "sum_line xs \<noteq> dec_int x @ sum_line xs"
    by (simp_all add: dec_int_def)
  have step: "- (2 ^ 63) \<le> a + x \<and> a + x < 2 ^ 63" using Cons.prems(2) by (auto dest: spec [of _ 1])
  have "\<forall>k \<le> length xs. - (2 ^ 63) \<le> (a + x) + sum_list (take k xs) \<and> (a + x) + sum_list (take k xs) < 2 ^ 63"
  proof (intro allI impI)
    fix k assume "k \<le> length xs"
    with Cons.prems(2) [rule_format, of "Suc k"]
    show "- (2 ^ 63) \<le> (a + x) + sum_list (take k xs) \<and> (a + x) + sum_list (take k xs) < 2 ^ 63"
      by (simp add: add.assoc)
  qed
  with Cons.IH [of "a + x"] Cons.prems(1)
  have "sum_tokens (sum_line xs) (a + x) = Inr (Some (a + x + sum_list xs))" by simp
  then show ?case
    using step by (subst sum_tokens.simps) (simp add: ns v ne Let_def add.assoc)
qed

text \<open>
  The sum is the sum. For integers of 64 bits none of whose partial sums leaves 64 bits,
  written in decimal with a space before each, \<open>sum\<close> replies with their sum.
\<close>

lemma sum_replies_with_the_sum:
  assumes "\<forall>x \<in> set xs. - (2 ^ 63) \<le> x \<and> x < 2 ^ 63"
    and "\<forall>k \<le> length xs. - (2 ^ 63) \<le> sum_list (take k xs) \<and> sum_list (take k xs) < 2 ^ 63"
  shows "\<exists>r'. handle_line (''RUN sum'' @ sum_line xs @ [newline]) 512 r =
    Inr (''OK '' @ dec_int (sum_list xs) @ [newline], r')"
proof -
  let ?body = "''sum'' @ sum_line xs"
  have chars: "c \<in> set (sum_line xs) \<Longrightarrow> is_digit c \<or> c = CHR ''-'' \<or> c = CHR '' ''" for c
    using dec_int_chars by (auto simp: sum_line_def split: if_splits)
  have good: "c \<in> set ?body \<Longrightarrow> c \<noteq> nul \<and> c \<noteq> newline \<and> c \<noteq> cr" for c
    using chars [of c] by (auto simp: nul_def newline_def cr_def is_digit_def)
  have "last ?body \<in> set ?body" by (rule last_in_set) simp
  with good have "last ?body \<noteq> newline \<and> last ?body \<noteq> cr" by blast
  then have s: "strip_line (''RUN '' @ ?body) = ''RUN '' @ ?body"
    by (intro strip_line_keep) (simp add: last_append)
  have n: "nul \<notin> set ?body" using good by blast
  have nm: "run_name ?body = ''sum''" "run_payload ?body = tl (sum_line xs)"
    by (cases xs; simp add: run_name_def run_payload_def sum_line_def)+
  have "sum_tokens (tl (sum_line xs)) 0 = sum_tokens (sum_line xs) 0"
    by (cases xs) (simp_all add: sum_line_def sum_tokens.simps is_space_def)
  also have "\<dots> = Inr (Some (sum_list xs))" using sum_tokens_sum_line [of xs 0] assms by simp
  finally have t: "sum_tokens (tl (sum_line xs)) 0 = Inr (Some (sum_list xs))" .
  have len: "length (dec_int (sum_list xs)) \<le> 20"
  proof -
    have "- (2 ^ 63) \<le> sum_list xs \<and> sum_list xs < 2 ^ 63" using assms(2) [rule_format, of "length xs"] by simp
    then have "nat (sum_list xs) < 10 ^ Suc 18" "nat (- sum_list xs) < 10 ^ Suc 18" by (simp_all, linarith+)
    from this [THEN length_dec] show ?thesis by (simp add: dec_int_def)
  qed
  show ?thesis
    using handle_run [OF n s] nm t len by (simp add: FUNCS_def fn_sum_def Let_def)
qed

section \<open>Addresses\<close>

lemma ipv4_octet_dec:
  assumes "n < 256" and "rest = [] \<or> \<not> is_digit (hd rest)"
  shows "ipv4_octet 0 (dec n @ rest) = Some (n, rest)"
proof -
  have stop: "ipv4_octet v rest = Some (v, rest)" for v using assms(2) by (cases rest) auto
  have step: "k < 10 \<Longrightarrow> v * 10 + k < 256 \<Longrightarrow> ipv4_octet v (char_of (48 + k) # cs) = ipv4_octet (v * 10 + k) cs" for k v cs
    by (simp add: digit_char_props)
  consider "n < 10" | "10 \<le> n" "n < 100" | "100 \<le> n" by linarith
  then show ?thesis
  proof cases
    case 1
    then have "dec n = [char_of (48 + n)]" by (subst dec.simps) simp
    with 1 step [of n 0 rest] show ?thesis by (simp del: ipv4_octet.simps add: stop)
  next
    case 2
    then have "dec n = [char_of (48 + n div 10), char_of (48 + n mod 10)]"
      by (subst dec.simps, subst dec.simps) (simp add: div_less_iff_less_mult)
    moreover have "n div 10 < 10" "n div 10 * 10 + n mod 10 = n" using 2 by (simp_all add: div_less_iff_less_mult)
    ultimately show ?thesis
      using step [of "n div 10" 0 "char_of (48 + n mod 10) # rest"] step [of "n mod 10" "n div 10" rest] 2
      by (simp del: ipv4_octet.simps add: stop)
  next
    case 3
    let ?a = "n div 100" and ?b = "n div 10 mod 10" and ?c = "n mod 10"
    have d: "n div 10 div 10 = ?a" by (simp add: div_mult2_eq [symmetric])
    have "dec n = [char_of (48 + ?a), char_of (48 + ?b), char_of (48 + ?c)]"
      using 3 assms(1)
      by (subst dec.simps, subst dec.simps, subst dec.simps) (simp add: d div_less_iff_less_mult)
    moreover have "?a * 10 + ?b = n div 10" "n div 10 * 10 + ?c = n" "?a < 10"
      using d assms(1) by (simp_all add: div_less_iff_less_mult) (metis div_mult_mod_eq)
    ultimately show ?thesis
      using step [of ?a 0 "char_of (48 + ?b) # char_of (48 + ?c) # rest"]
        step [of ?b ?a "char_of (48 + ?c) # rest"] step [of ?c "n div 10" rest] 3 assms(1)
      by (simp del: ipv4_octet.simps add: stop)
  qed
qed

text \<open>
  A dotted address is read back. The parser written by hand reads the four octets printed
  in decimal as the host-order address.
\<close>

lemma dotted_address_is_read_back:
  assumes "a < 256" and "b < 256" and "c < 256" and "d < 256"
  shows "parse_ipv4 (dec a @ ''.'' @ dec b @ ''.'' @ dec c @ ''.'' @ dec d) =
    Some (of_nat (a * 2 ^ 24 + b * 2 ^ 16 + c * 2 ^ 8 + d))"
proof -
  have first: "dec n = hd (dec n) # tl (dec n)" "is_digit (hd (dec n))" for n
    using hd_dec_digit by simp_all
  have dig: "\<not> is_digit CHR ''.''" by (simp add: is_digit_def)
  have oct: "ipv4_octets (Suc k) True v (''.'' @ dec n @ rest) = ipv4_octets k True (push_bit 8 v OR of_nat n) rest"
    "ipv4_octets (Suc k) False v (dec n @ rest) = ipv4_octets k True (push_bit 8 v OR of_nat n) rest"
    if "n < 256" "rest = [] \<or> \<not> is_digit (hd rest)" for k v n rest
    using ipv4_octet_dec [OF that] first(2) [of n] by simp_all
  have or: "push_bit 8 v OR of_nat n = v * 256 + of_nat n" if "n < 256" for v :: u32 and n
  proof -
    have "push_bit 8 v + of_nat n = push_bit 8 v OR of_nat n"
    proof (rule disjunctive_add)
      fix i
      have "\<not> bit n i" if "8 \<le> i"
        using \<open>n < 256\<close> that power_increasing [OF that, of "2 :: nat"] by (simp add: bit_iff_odd div_less)
      then show "\<not> bit (push_bit 8 v) i \<or> \<not> bit (of_nat n :: u32) i"
        by (cases "8 \<le> i") (simp_all add: bit_simps)
    qed
    then show ?thesis by (simp add: push_bit_eq_mult)
  qed
  have nd: "rest = ''.'' @ s \<Longrightarrow> rest = [] \<or> \<not> is_digit (hd rest)" for rest s using dig by simp
  have oct1: "ipv4_octets (Suc k) True v (CHR ''.'' # dec n @ rest) = ipv4_octets k True (v * 256 + of_nat n) rest"
    if "n < 256" "rest = [] \<or> \<not> is_digit (hd rest)" for k v n rest
    using oct(1) [OF that] or [OF that(1)] by simp
  have oct0: "ipv4_octets (Suc k) False v (dec n @ rest) = ipv4_octets k True (v * 256 + of_nat n) rest"
    if "n < 256" "rest = [] \<or> \<not> is_digit (hd rest)" for k v n rest
    using oct(2) [OF that] or [OF that(1)] by simp
  let ?d = "CHR ''.'' # dec d @ []"
  let ?c = "CHR ''.'' # dec c @ ?d"
  let ?b = "CHR ''.'' # dec b @ ?c"
  have stop: "CHR ''.'' # s = [] \<or> \<not> is_digit (hd (CHR ''.'' # s))" for s using dig by simp
  have "ipv4_octets (Suc (Suc (Suc (Suc 0)))) False 0 (dec a @ ?b) =
      ipv4_octets 0 True ((((0 * 256 + of_nat a) * 256 + of_nat b) * 256 + of_nat c) * 256 + of_nat d) []"
    by (simp only: oct0 [OF assms(1) stop] oct1 [OF assms(2) stop] oct1 [OF assms(3) stop] oct1 [OF assms(4)] simp_thms)
  moreover have "(4 :: nat) = Suc (Suc (Suc (Suc 0)))" by simp
  ultimately have "ipv4_octets 4 False 0 (dec a @ ?b) =
      Some ((((0 * 256 + of_nat a) * 256 + of_nat b) * 256 + of_nat c) * 256 + of_nat d, [])"
    by (simp only: ipv4_octets.simps(1))
  then show ?thesis by (simp add: parse_ipv4_def algebra_simps del: ipv4_octets.simps)
qed

section \<open>What reaches the collector\<close>

text \<open>
  The bytes a write puts on its connection, over all connections in the order of the calls.
\<close>

definition taken :: "(nat \<Rightarrow> int \<times> int) \<Rightarrow> nat \<Rightarrow> rn_event \<Rightarrow> string" where
  "taken sys i e = (case e of RnWrite fd d \<Rightarrow> take (nat (fst (sys i))) d | _ \<Rightarrow> [])"

definition delivered :: "runner \<Rightarrow> string" where
  "delivered r = concat (map (\<lambda>(i, e). taken (rn_sys r) i e) (enumerate 0 (rn_trace r)))"

text \<open>A write takes at most what it is given.\<close>

definition write_ok :: "(nat \<Rightarrow> int \<times> int) \<Rightarrow> nat \<Rightarrow> rn_event \<Rightarrow> bool" where
  "write_ok sys i e \<longleftrightarrow> (case e of RnWrite fd d \<Rightarrow> fst (sys i) \<le> int (length d) | _ \<Rightarrow> True)"

definition writes_ok :: "runner \<Rightarrow> bool" where
  "writes_ok r \<longleftrightarrow> (\<forall>i < length (rn_trace r). write_ok (rn_sys r) i (rn_trace r ! i))"

text \<open>One of the writes of the bytes \<open>l\<close> took \<open>k\<close> of them.\<close>

definition cut_write :: "runner \<Rightarrow> string \<Rightarrow> nat \<Rightarrow> bool" where
  "cut_write r l k \<longleftrightarrow>
     list_ex (\<lambda>(i, e). (case e of RnWrite fd d \<Rightarrow> d = l | _ \<Rightarrow> False) \<and> fst (rn_sys r i) = int k)
       (enumerate 0 (rn_trace r))"

text \<open>
  What a record adds to the stream of bytes, delivered and pending: nothing when it was dropped, the record, or, if its
  own write was cut short after \<open>k\<close> bytes, these \<open>k\<close> bytes and the whole record once more; the last is missing when the record
  does not fit the pending buffer.
\<close>

definition adds :: "runner \<Rightarrow> string \<Rightarrow> string \<Rightarrow> bool" where
  "adds r l s \<longleftrightarrow> s = [] \<or> s = l \<or>
     (\<exists>k. 0 < k \<and> k < length l \<and> cut_write r l k \<and>
        s = take k l @ (if length l \<le> LOG_PEND_SIZE then l else []))"

lemma enumerate_snoc: "enumerate n (xs @ [x]) = enumerate n xs @ [(n + length xs, x)]"
  by (simp add: enumerate_append_eq)

lemma delivered_snoc:
  "rn_trace r' = rn_trace r @ [e] \<Longrightarrow> rn_sys r' = rn_sys r \<Longrightarrow>
     delivered r' = delivered r @ taken (rn_sys r) (length (rn_trace r)) e"
  by (simp add: delivered_def enumerate_snoc)

lemma delivered_fields:
  "delivered (r\<lparr>rn_log_fd := v1\<rparr>) = delivered r" "delivered (r\<lparr>rn_log_skip := v2\<rparr>) = delivered r"
  "delivered (r\<lparr>rn_log_backoff := v3\<rparr>) = delivered r" "delivered (r\<lparr>rn_pend := v4\<rparr>) = delivered r"
  by (simp_all add: delivered_def)

text \<open>\<open>quiet\<close>: more calls were made, but nothing was written and the pending bytes are as they were.\<close>

definition quiet :: "runner \<Rightarrow> runner \<Rightarrow> bool" where
  "quiet r r' \<longleftrightarrow>
     prefix (rn_trace r) (rn_trace r') \<and> rn_sys r' = rn_sys r \<and> delivered r' = delivered r \<and>
     rn_pend r' = rn_pend r \<and> rn_log_host r' = rn_log_host r"

lemma quiet_refl: "quiet r r"
  by (simp add: quiet_def)

lemma quiet_trans: "quiet a b \<Longrightarrow> quiet b c \<Longrightarrow> quiet a c"
  by (auto simp: quiet_def intro: prefix_order.trans)

lemma quiet_call:
  assumes "quiet a r" and "\<And>fd d. e \<noteq> RnWrite fd d"
  shows "quiet a (snd (rn_call r e))" "quiet a (rn_emit r e)"
proof -
  have t: "taken sys i e = []" for sys i using assms(2) by (auto simp: taken_def split: rn_event.split)
  show "quiet a (snd (rn_call r e))"
    using assms(1) t delivered_snoc [of "snd (rn_call r e)" r e]
    by (auto simp: quiet_def rn_call_def Let_def split: prod.splits intro: prefix_prefix)
  show "quiet a (rn_emit r e)"
    using assms(1) t delivered_snoc [of "rn_emit r e" r e]
    by (auto simp: quiet_def rn_emit_def intro: prefix_prefix)
qed

lemma quiet_fields:
  assumes "quiet a r"
  shows "quiet a (r\<lparr>rn_log_fd := v1\<rparr>)" "quiet a (r\<lparr>rn_log_skip := v2\<rparr>)" "quiet a (r\<lparr>rn_log_backoff := v3\<rparr>)"
    "quiet a (widen_gap r)"
  using assms by (simp_all add: quiet_def widen_gap_def delivered_fields)

lemma quiet_connect: "quiet r (snd (log_sink_connect r))"
proof -
  have c: "quiet a s \<Longrightarrow> rn_call s e = (v, s') \<Longrightarrow> (\<And>fd d. e \<noteq> RnWrite fd d) \<Longrightarrow> quiet a s'" for a s e v s'
    using quiet_call(1) [of a s e] by simp
  show ?thesis
    by (auto simp: log_sink_connect_def Let_def quiet_refl split: option.splits prod.splits
        intro!: quiet_call(2) quiet_call(1) intro: quiet_refl elim!: c [rotated])
qed


lemma cut_write_prefix:
  assumes "cut_write r l k" and "prefix (rn_trace r) (rn_trace r')" and "rn_sys r' = rn_sys r"
  shows "cut_write r' l k"
  using assms by (auto simp: cut_write_def prefix_def enumerate_append_eq)

lemma adds_prefix:
  "adds r l s \<Longrightarrow> prefix (rn_trace r) (rn_trace r') \<Longrightarrow> rn_sys r' = rn_sys r \<Longrightarrow> adds r' l s"
  unfolding adds_def using cut_write_prefix by blast

lemma cut_write_snoc:
  "rn_trace r' = rn_trace r @ [RnWrite fd l] \<Longrightarrow> fst (rn_sys r' (length (rn_trace r))) = int k \<Longrightarrow> cut_write r' l k"
  by (simp add: cut_write_def enumerate_snoc)

text \<open>One record more: the stream, delivered and pending, grows by what the record adds.\<close>

definition grows :: "string \<Rightarrow> runner \<Rightarrow> runner \<Rightarrow> bool" where
  "grows line r r' \<longleftrightarrow>
     prefix (rn_trace r) (rn_trace r') \<and> rn_sys r' = rn_sys r \<and> rn_log_host r' = rn_log_host r \<and>
     (\<exists>s. adds r' line s \<and> delivered r' @ rn_pend r' = delivered r @ rn_pend r @ s)"

lemma adds_simple: "adds r l []" "adds r l l"
  by (simp_all add: adds_def)

lemma writes_ok_prefix:
  assumes "writes_ok r'" and "prefix (rn_trace r @ [e]) (rn_trace r')" and "rn_sys r' = rn_sys r"
  shows "write_ok (rn_sys r) (length (rn_trace r)) e"
proof -
  from assms(2) obtain t where t: "rn_trace r' = (rn_trace r @ [e]) @ t" by (auto simp: prefix_def)
  then have "length (rn_trace r) < length (rn_trace r')" "rn_trace r' ! length (rn_trace r) = e"
    by (simp_all add: nth_append)
  with assms(1,3) show ?thesis unfolding writes_ok_def by metis
qed

lemma grows_pend: "quiet r r1 \<Longrightarrow> grows line r (log_pend r1 line)"
  by (auto simp: grows_def quiet_def log_pend_def delivered_fields adds_simple
      intro: exI [of _ "[]"] exI [of _ line])

lemma quiet_drop: "quiet r r1 \<Longrightarrow> quiet r (if c then log_sink_drop r1 else r1)"
  by (simp add: log_sink_drop_def quiet_fields quiet_call(2))

lemma quiet_grows: "quiet r r1 \<Longrightarrow> grows line r1 r2 \<Longrightarrow> grows line r r2"
  by (auto simp: grows_def quiet_def intro: prefix_order.trans)

lemma call_facts:
  "rn_call r e = (w, r1) \<Longrightarrow> rn_trace r1 = rn_trace r @ [e] \<and> rn_sys r1 = rn_sys r \<and> rn_pend r1 = rn_pend r \<and>
     rn_log_host r1 = rn_log_host r \<and> w = fst (rn_sys r (length (rn_trace r)))"
  by (auto simp: rn_call_def Let_def split: prod.splits)

lemma pend_trace: "rn_trace (log_pend r l) = rn_trace r" "rn_sys (log_pend r l) = rn_sys r"
  by (simp_all add: log_pend_def)

lemma drop_trace: "prefix (rn_trace r) (rn_trace (if c then log_sink_drop r else r))"
  "rn_sys (if c then log_sink_drop r else r) = rn_sys r"
  by (simp_all add: log_sink_drop_def widen_gap_def rn_emit_def)

lemma write_line_grows:
  assumes "writes_ok (write_line r line)" and "rn_pend r = []"
  shows "grows line r (write_line r line)"
proof -
  obtain w r1 where c: "rn_call r (RnWrite (rn_log_fd r) line) = (w, r1)" by fastforce
  note f = call_facts [OF c]
  let ?r2 = "if \<not> log_would_block r1 then log_sink_drop r1 else r1"
  have wl: "write_line r line = (if w \<noteq> int (length line) then log_pend ?r2 line else r1)"
    by (simp add: write_line_def c)
  have p: "prefix (rn_trace r1) (rn_trace (write_line r line))" "rn_sys (write_line r line) = rn_sys r"
    using f drop_trace [where r = r1] by (simp_all add: wl pend_trace)
  from assms(1) p f have ok: "write_ok (rn_sys r) (length (rn_trace r)) (RnWrite (rn_log_fd r) line)"
    by (intro writes_ok_prefix [OF assms(1)]) simp_all
  have d: "delivered r1 = delivered r @ take (nat w) line"
    using delivered_snoc [of r1 r] f by (simp add: taken_def)
  show ?thesis
  proof (cases "w = int (length line)")
    case True
    then have "take (nat w) line = line" by simp
    with True d f assms(2) show ?thesis by (auto simp: wl grows_def adds_simple intro: exI [of _ line])
  next
    case False
    show ?thesis
    proof (cases "w \<le> 0")
      case True
      with d f have "quiet r r1" by (simp add: quiet_def)
      with False show ?thesis by (simp add: wl grows_pend quiet_drop)
    next
      case cut: False
      define k where "k = nat w"
      have k: "0 < k" "k < length line" "w = int k"
        using cut False ok f by (simp_all add: k_def write_ok_def)
      have q: "quiet r1 ?r2" using quiet_drop [OF quiet_refl] .
      have wl': "write_line r line = log_pend ?r2 line" using False by (simp add: wl)
      have "cut_write r1 line k" using f k(3) by (intro cut_write_snoc [of r1 r]) simp_all
      then have "cut_write (log_pend ?r2 line) line k"
        using cut_write_prefix [of r1 line k "log_pend ?r2 line"] q by (simp add: pend_trace quiet_def)
      then have "adds (log_pend ?r2 line) line (take k line @ (if length line \<le> LOG_PEND_SIZE then line else []))"
        using k unfolding adds_def by blast
      moreover have "delivered (log_pend ?r2 line) @ rn_pend (log_pend ?r2 line) =
          delivered r @ rn_pend r @ take k line @ (if length line \<le> LOG_PEND_SIZE then line else [])"
      proof -
        have "delivered ?r2 = delivered r @ take k line" "rn_pend ?r2 = []"
          using q d f assms(2) by (simp_all add: quiet_def k_def)
        with assms(2) show ?thesis by (simp add: log_pend_def delivered_fields)
      qed
      moreover have "rn_log_host (log_pend ?r2 line) = rn_log_host r"
        using q f by (simp add: log_pend_def quiet_def)
      moreover have "prefix (rn_trace r) (rn_trace (log_pend ?r2 line))"
        using p(1) f unfolding wl' by (simp add: append_prefixD)
      moreover have "rn_sys (log_pend ?r2 line) = rn_sys r" using p(2) unfolding wl' .
      ultimately show ?thesis unfolding grows_def wl' by blast
    qed
  qed
qed

lemma send_line_grows:
  assumes "writes_ok (send_line r line)"
  shows "grows line r (send_line r line)"
proof (cases "rn_pend r = []")
  case True
  with assms show ?thesis by (simp add: send_line_def write_line_grows)
next
  case False
  obtain w r1 where c: "rn_call r (RnWrite (rn_log_fd r) (rn_pend r)) = (w, r1)" by fastforce
  note f = call_facts [OF c]
  let ?r2 = "if \<not> log_would_block r1 then log_sink_drop r1 else r1"
  have d: "delivered r1 = delivered r @ take (nat w) (rn_pend r)"
    using delivered_snoc [of r1 r] f by (simp add: taken_def)
  have sl: "send_line r line =
      (if w = int (length (rn_pend r1)) then write_line (r1\<lparr>rn_pend := []\<rparr>) line
       else if w > 0 then log_pend (r1\<lparr>rn_pend := drop (nat w) (rn_pend r1)\<rparr>) line
       else log_pend ?r2 line)"
    using False by (simp add: send_line_def c)
  consider (full) "w = int (length (rn_pend r1))" | (part) "w \<noteq> int (length (rn_pend r1))" "w > 0" | (none) "w \<le> 0"
    "w \<noteq> int (length (rn_pend r1))" by linarith
  then show ?thesis
  proof cases
    case full
    let ?r1 = "r1\<lparr>rn_pend := []\<rparr>"
    have "grows line ?r1 (write_line ?r1 line)"
      using assms full by (intro write_line_grows) (simp_all add: sl)
    moreover have "delivered ?r1 = delivered r @ rn_pend r"
      using d full f by (simp add: delivered_fields)
    moreover have "send_line r line = write_line ?r1 line" using full by (simp add: sl)
    moreover have "prefix (rn_trace r) t" if "prefix (rn_trace r1) t" for t
      using that f by (simp add: append_prefixD)
    ultimately show ?thesis using f by (simp add: grows_def)
  next
    case part
    let ?r1 = "r1\<lparr>rn_pend := drop (nat w) (rn_pend r1)\<rparr>"
    have "delivered ?r1 @ rn_pend ?r1 = delivered r @ rn_pend r"
      using d f by (simp add: delivered_fields)
    moreover have "send_line r line = log_pend ?r1 line" using part by (simp add: sl)
    ultimately show ?thesis using f
      by (auto simp: grows_def log_pend_def delivered_fields adds_simple intro: exI [of _ "[]"] exI [of _ line])
  next
    case none
    with d f have "quiet r r1" by (simp add: quiet_def)
    with none show ?thesis by (simp add: sl grows_pend quiet_drop)
  qed
qed

lemma emit_grows:
  assumes "writes_ok (log_sink_emit r line)"
  shows "grows line r (log_sink_emit r line)"
proof -
  obtain fd r1 where c: "log_sink_connect r = (fd, r1)" by fastforce
  have q: "quiet r r1" using quiet_connect [of r] c by simp
  consider (off) "rn_log_host r = None" | (up) "rn_log_host r \<noteq> None" "\<not> rn_log_fd r < 0"
    | (skip) "rn_log_host r \<noteq> None" "rn_log_fd r < 0" "rn_log_skip r > 0"
    | (down) "rn_log_host r \<noteq> None" "rn_log_fd r < 0" "rn_log_skip r = 0" "fd < 0"
    | (new) "rn_log_host r \<noteq> None" "rn_log_fd r < 0" "rn_log_skip r = 0" "\<not> fd < 0" by auto
  then show ?thesis
  proof cases
    case off
    then show ?thesis by (auto simp: log_sink_emit_def grows_def adds_simple intro: exI [of _ "[]"])
  next
    case up
    then have "log_sink_emit r line = send_line r line" by (auto simp: log_sink_emit_def)
    with assms show ?thesis by (simp add: send_line_grows)
  next
    case skip
    then have "log_sink_emit r line = log_pend (r\<lparr>rn_log_skip := rn_log_skip r - 1\<rparr>) line"
      by (auto simp: log_sink_emit_def)
    then show ?thesis by (simp only: grows_pend quiet_fields quiet_refl)
  next
    case down
    then have "log_sink_emit r line = log_pend (widen_gap (r1\<lparr>rn_log_fd := fd\<rparr>)) line"
      by (auto simp: log_sink_emit_def c)
    then show ?thesis by (simp only: grows_pend quiet_fields q)
  next
    case new
    let ?r2 = "r1\<lparr>rn_log_fd := fd, rn_log_backoff := 1\<rparr>"
    have "quiet r ?r2" using q by (intro quiet_fields)
    moreover have "log_sink_emit r line = send_line ?r2 line"
      using new by (auto simp: log_sink_emit_def c)
    ultimately show ?thesis using assms send_line_grows [of ?r2 line] by (auto intro: quiet_grows)
  qed
qed

lemma emits_records:
  assumes "writes_ok (foldl log_sink_emit r ls)"
  shows "\<exists>ss. list_all2 (adds (foldl log_sink_emit r ls)) ls ss \<and>
    delivered (foldl log_sink_emit r ls) @ rn_pend (foldl log_sink_emit r ls) = delivered r @ rn_pend r @ concat ss"
proof -
  have "writes_ok (foldl log_sink_emit r ls) \<Longrightarrow>
    \<exists>ss. list_all2 (adds (foldl log_sink_emit r ls)) ls ss \<and>
    delivered (foldl log_sink_emit r ls) @ rn_pend (foldl log_sink_emit r ls) = delivered r @ rn_pend r @ concat ss"
  proof (induction ls rule: rev_induct)
    case (snoc l ls)
    let ?r = "foldl log_sink_emit r ls"
    have "grows l ?r (log_sink_emit ?r l)" using snoc.prems by (intro emit_grows) simp
    then obtain t s where t: "rn_trace (log_sink_emit ?r l) = rn_trace ?r @ t" "rn_sys (log_sink_emit ?r l) = rn_sys ?r"
      and s: "adds (log_sink_emit ?r l) l s"
        "delivered (log_sink_emit ?r l) @ rn_pend (log_sink_emit ?r l) = delivered ?r @ rn_pend ?r @ s"
      by (auto simp: grows_def prefix_def)
    have "writes_ok ?r"
      unfolding writes_ok_def
    proof (intro allI impI)
      fix i
      assume i: "i < length (rn_trace ?r)"
      with snoc.prems t have "write_ok (rn_sys ?r) i ((rn_trace ?r @ t) ! i)" by (simp add: writes_ok_def)
      with i show "write_ok (rn_sys ?r) i (rn_trace ?r ! i)" by (simp add: nth_append)
    qed
    with snoc.IH obtain ss where ss: "list_all2 (adds ?r) ls ss"
      "delivered ?r @ rn_pend ?r = delivered r @ rn_pend r @ concat ss" by blast
    have "list_all2 (adds (log_sink_emit ?r l)) ls ss"
      using ss(1) t by (auto elim!: list_all2_mono adds_prefix)
    with s ss(2) show ?case by (intro exI [of _ "ss @ [s]"]) (simp add: list_all2_appendI)
  qed simp
  with assms show ?thesis by blast
qed

text \<open>
  C30: \<^bold>\<open>what the collector gets, record by record\<close>. Take any run of log records, with the collector
  coming and going: connections refused, broken and made again, writes that fail or take any part of
  what they are given. What the collector was sent over all connections, followed by what is still pending, is
  what it was before followed by what the new records add, in their order: a record adds nothing (it was dropped), or
  itself, whole. Only where a write of exactly its bytes took some of them but not all, these bytes can come twice: the record then adds
  the part that was written followed by the whole record (by nothing, if it is longer than the 2048 bytes of the pending buffer).
\<close>

theorem collector_gets_whole_records:
  assumes "writes_ok (foldl log_sink_emit r ls)"
  shows "let r' = foldl log_sink_emit r ls
    in \<exists>ss. delivered r' @ rn_pend r' = delivered r @ rn_pend r @ concat ss \<and>
         list_all2 (\<lambda>l s. s = [] \<or> s = l \<or>
           (\<exists>k. 0 < k \<and> k < length l \<and> cut_write r' l k \<and>
              s = take k l @ (if length l \<le> LOG_PEND_SIZE then l else []))) ls ss"
proof -
  have "(\<lambda>l s. s = [] \<or> s = l \<or> (\<exists>k. 0 < k \<and> k < length l \<and> cut_write r' l k \<and>
      s = take k l @ (if length l \<le> LOG_PEND_SIZE then l else []))) = adds r'" for r'
    by (simp add: adds_def fun_eq_iff)
  with emits_records [OF assms] show ?thesis by (auto simp: Let_def)
qed

text \<open>
  A refused connection, a broken one, a partial write of the pending bytes, then two full writes; and the next record's own
  write is cut after two bytes.
\<close>

definition demo_sink :: runner where
  "demo_sink = demo_runner\<lparr>rn_log_host := Some ''127.0.0.1'', rn_log_port := 9000,
     rn_sys := (\<lambda>i. (- 1, 11))(0 := (3, 0), 1 := (0, 0), 2 := (0, 0), 3 := (- 1, 115), 5 := (- 1, 111),
       7 := (3, 0), 8 := (0, 0), 9 := (0, 0), 10 := (0, 0), 11 := (3, 0), 12 := (9, 0), 13 := (3, 0), 14 := (2, 0))\<rparr>"

theorem collector_gets_whole_records_witness:
  "delivered (foldl log_sink_emit demo_sink [''1 a'', ''1 b'', ''1 c'', ''1 d'', ''1 e'', ''1 f'']) = ''1 a1 b1 c1 d1 e1 '' \<and>
   rn_pend (foldl log_sink_emit demo_sink [''1 a'', ''1 b'', ''1 c'', ''1 d'', ''1 e'', ''1 f'']) = ''1 f'' \<and>
   (\<exists>ss. concat ss = ''1 a1 b1 c1 d1 e1 1 f'' \<and>
      list_all2 (adds (foldl log_sink_emit demo_sink [''1 a'', ''1 b'', ''1 c'', ''1 d'', ''1 e'', ''1 f'']))
        [''1 a'', ''1 b'', ''1 c'', ''1 d'', ''1 e'', ''1 f''] ss)"
proof -
  let ?ls = "[''1 a'', ''1 b'', ''1 c'', ''1 d'', ''1 e'', ''1 f'']"
  have ok: "writes_ok (foldl log_sink_emit demo_sink ?ls)" by code_simp
  have d: "delivered (foldl log_sink_emit demo_sink ?ls) = ''1 a1 b1 c1 d1 e1 ''"
    "rn_pend (foldl log_sink_emit demo_sink ?ls) = ''1 f''" "delivered demo_sink = []" "rn_pend demo_sink = []"
    by code_simp+
  from collector_gets_whole_records [OF ok] obtain ss where
    "''1 a1 b1 c1 d1 e1 '' @ ''1 f'' = concat ss" "list_all2 (adds (foldl log_sink_emit demo_sink ?ls)) ?ls ss"
    unfolding Let_def d adds_def by (auto simp del: foldl_Cons)
  then have "concat ss = ''1 a1 b1 c1 d1 e1 1 f'' \<and> list_all2 (adds (foldl log_sink_emit demo_sink ?ls)) ?ls ss"
    by simp
  with d show ?thesis by blast
qed

section \<open>The bounds of the log sink\<close>

text \<open>
  The state of the sink: the pending buffer is not overrun, the gap between two attempts to connect
  is a power of two up to 64.
\<close>

definition sink_bounded :: "runner \<Rightarrow> bool" where
  "sink_bounded r \<longleftrightarrow>
     length (rn_pend r) \<le> LOG_PEND_SIZE \<and> rn_log_backoff r \<in> {1, 2, 4, 8, 16, 32, 64} \<and>
     rn_log_skip r \<le> LOG_BACKOFF_MAX"

lemma bounded_call: "sink_bounded (snd (rn_call r e)) = sink_bounded r" "sink_bounded (rn_emit r e) = sink_bounded r"
  by (simp_all add: sink_bounded_def rn_call_def rn_emit_def split: prod.splits)

lemma bounded_call': "rn_call r e = (v, r') \<Longrightarrow> sink_bounded r' = sink_bounded r"
  using bounded_call(1) [of r e] by simp

lemma bounded_fd: "sink_bounded (r\<lparr>rn_log_fd := v\<rparr>) = sink_bounded r"
  by (simp add: sink_bounded_def)

lemma bounded_widen: "sink_bounded r \<Longrightarrow> sink_bounded (widen_gap r)"
  by (auto simp: sink_bounded_def widen_gap_def LOG_BACKOFF_MAX_def)

lemma bounded_pend: "sink_bounded r \<Longrightarrow> sink_bounded (log_pend r l)"
  by (simp add: sink_bounded_def log_pend_def)

lemma bounded_drop: "sink_bounded r \<Longrightarrow> sink_bounded (if c then log_sink_drop r else r)"
  by (simp add: log_sink_drop_def bounded_widen bounded_fd bounded_call)

lemma bounded_connect: "sink_bounded (snd (log_sink_connect r)) = sink_bounded r"
  by (auto simp: log_sink_connect_def Let_def bounded_call split: option.splits prod.splits dest!: bounded_call')

lemma bounded_write: "sink_bounded r \<Longrightarrow> sink_bounded (write_line r l)"
  by (auto simp: write_line_def Let_def bounded_pend bounded_drop [of _ True, simplified] split: prod.splits
      dest: bounded_call')

lemma bounded_send:
  assumes "sink_bounded r"
  shows "sink_bounded (send_line r l)"
proof (cases "rn_call r (RnWrite (rn_log_fd r) (rn_pend r))")
  case (Pair w r1)
  with assms have b: "sink_bounded r1" using bounded_call' by blast
  then have "sink_bounded (r1\<lparr>rn_pend := []\<rparr>)" "sink_bounded (r1\<lparr>rn_pend := drop (nat w) (rn_pend r1)\<rparr>)"
    by (auto simp: sink_bounded_def)
  with assms Pair b show ?thesis
    by (simp add: send_line_def bounded_write bounded_pend bounded_drop [of _ True, simplified])
qed

lemma bounded_emit:
  assumes "sink_bounded r"
  shows "sink_bounded (log_sink_emit r l)"
proof (cases "log_sink_connect r")
  case (Pair fd r1)
  then have b: "sink_bounded r1" using bounded_connect [of r] assms by simp
  then have "sink_bounded (r1\<lparr>rn_log_fd := fd, rn_log_backoff := 1\<rparr>)" "sink_bounded (r1\<lparr>rn_log_fd := fd\<rparr>)"
    by (auto simp: sink_bounded_def)
  moreover have "sink_bounded (r\<lparr>rn_log_skip := rn_log_skip r - 1\<rparr>)" using assms by (auto simp: sink_bounded_def)
  ultimately show ?thesis
    using assms Pair by (auto simp: log_sink_emit_def Let_def bounded_send bounded_pend bounded_widen)
qed

text \<open>An attempt to connect: a new socket is asked for.\<close>

definition tries :: "runner \<Rightarrow> runner \<Rightarrow> bool" where
  "tries r r' \<longleftrightarrow> RnSocket \<in> set (drop (length (rn_trace r)) (rn_trace r'))"

text \<open>One record changes the trace only at its end.\<close>

lemma call_trace: "rn_call r e = (v, r') \<Longrightarrow> prefix (rn_trace r) (rn_trace r')"
  by (auto simp: rn_call_def Let_def split: prod.splits)

lemma write_trace: "prefix (rn_trace r) (rn_trace (write_line r l))"
  using drop_trace(1) [where c = True]
  by (auto simp: write_line_def Let_def pend_trace split: prod.splits dest!: call_trace intro: prefix_order.trans)

lemma send_trace: "prefix (rn_trace r) (rn_trace (send_line r l))"
proof (cases "rn_call r (RnWrite (rn_log_fd r) (rn_pend r))")
  case (Pair w r1)
  with call_trace have p: "prefix (rn_trace r) (rn_trace r1)" by blast
  have "prefix (rn_trace r1) (rn_trace (write_line (r1\<lparr>rn_pend := []\<rparr>) l))"
    using write_trace [of "r1\<lparr>rn_pend := []\<rparr>" l] by simp
  moreover have "prefix (rn_trace r1) (rn_trace (log_sink_drop r1))" using drop_trace(1) [of r1 True] by simp
  ultimately show ?thesis
    using p Pair write_trace [of r l] by (auto simp: send_line_def pend_trace intro: prefix_order.trans)
qed

lemma connect_tries:
  assumes "rn_log_host r = Some h" and "parse_ipv4 h = Some ip"
  shows "prefix (rn_trace r @ [RnSocket]) (rn_trace (snd (log_sink_connect r)))"
proof -
  have s: "prefix (rn_trace r @ [RnSocket]) (rn_trace (snd (rn_call r RnSocket)))"
    by (simp add: rn_call_def split: prod.splits)
  have t: "prefix p (rn_trace a) \<Longrightarrow> prefix p (rn_trace (snd (rn_call a e)))" for a e and p
    by (auto simp: rn_call_def split: prod.splits)
  have u: "prefix p (rn_trace a) \<Longrightarrow> prefix p (rn_trace (rn_emit a e))" for p a e
    by (simp add: rn_emit_def)
  show ?thesis
    using assms by (simp add: log_sink_connect_def Let_def case_prod_beta s t u)
qed

lemma emit_trace: "prefix (rn_trace r) (rn_trace (log_sink_emit r l))"
proof (cases "log_sink_connect r")
  case (Pair fd r1)
  then have p: "prefix (rn_trace r) (rn_trace r1)" using quiet_connect [of r] by (simp add: quiet_def)
  have "prefix (rn_trace r1) (rn_trace (send_line (r1\<lparr>rn_log_fd := fd, rn_log_backoff := 1\<rparr>) l))"
    using send_trace [of "r1\<lparr>rn_log_fd := fd, rn_log_backoff := 1\<rparr>" l] by simp
  with p Pair send_trace [of r l] show ?thesis
    by (auto simp: log_sink_emit_def Let_def pend_trace widen_gap_def intro: prefix_order.trans)
qed

lemma emits_trace: "prefix (rn_trace r) (rn_trace (foldl log_sink_emit r ls))"
proof (induction ls arbitrary: r)
  case (Cons l ls)
  show ?case using emit_trace [of r l] Cons [of "log_sink_emit r l"] by (auto intro: prefix_order.trans)
qed simp

text \<open>While the collector is down, each record shortens the gap by one; when it is used up, the sink tries.\<close>

lemma waits_or_tries:
  assumes "rn_log_host r = Some h" and "parse_ipv4 h = Some ip" and "rn_log_fd r < 0"
    and "rn_log_skip r < length ls"
  shows "tries r (foldl log_sink_emit r ls)"
  using assms
proof (induction ls arbitrary: r)
  case (Cons l ls)
  let ?r = "log_sink_emit r l"
  show ?case
  proof (cases "rn_log_skip r")
    case 0
    obtain fd r1 where c: "log_sink_connect r = (fd, r1)" by fastforce
    have p: "prefix (rn_trace r @ [RnSocket]) (rn_trace r1)"
      using connect_tries [OF Cons.prems(1,2)] c by simp
    also have "prefix (rn_trace r1) (rn_trace ?r)"
      using Cons.prems 0 c send_trace [of "r1\<lparr>rn_log_fd := fd, rn_log_backoff := 1\<rparr>" l]
      by (simp add: log_sink_emit_def Let_def pend_trace widen_gap_def)
    also have "prefix (rn_trace ?r) (rn_trace (foldl log_sink_emit r (l # ls)))" using emits_trace [of ?r ls] by simp
    finally obtain t where "rn_trace (foldl log_sink_emit r (l # ls)) = (rn_trace r @ [RnSocket]) @ t"
      by (auto simp: prefix_def)
    then show ?thesis by (simp add: tries_def)
  next
    case (Suc k)
    then have e: "?r = log_pend (r\<lparr>rn_log_skip := k\<rparr>) l" using Cons.prems by (simp add: log_sink_emit_def)
    then have "rn_log_host ?r = Some h" "rn_log_fd ?r < 0" "rn_log_skip ?r < length ls" "rn_trace ?r = rn_trace r"
      using Cons.prems Suc by (simp_all add: log_pend_def)
    with Cons.IH [of ?r] Cons.prems(2) show ?thesis by (simp add: tries_def)
  qed
qed simp

text \<open>
  C31: \<^bold>\<open>The log sink stays bounded and keeps trying\<close>. Whatever the collector does, over any run of
  records the pending bytes fit their buffer and the gap between attempts to connect is a power of
  two up to 64; and a sink without a connection asks for a new socket within the next 65 records, if
  the collector's address is well-formed.
\<close>

theorem log_sink_bounded_and_retrying:
  assumes "sink_bounded r"
  shows "sink_bounded (foldl log_sink_emit r ls) \<and>
    (rn_log_fd r < 0 \<and> length ls > 64 \<and> (\<exists>h ip. rn_log_host r = Some h \<and> parse_ipv4 h = Some ip) \<longrightarrow>
       tries r (foldl log_sink_emit r ls))"
proof
  show "sink_bounded (foldl log_sink_emit r ls)"
    using assms by (induction ls arbitrary: r) (simp_all add: bounded_emit)
  have "rn_log_skip r \<le> 64" using assms by (simp add: sink_bounded_def LOG_BACKOFF_MAX_def)
  then show "rn_log_fd r < 0 \<and> length ls > 64 \<and> (\<exists>h ip. rn_log_host r = Some h \<and> parse_ipv4 h = Some ip) \<longrightarrow>
       tries r (foldl log_sink_emit r ls)"
    using waits_or_tries [of r _ _ ls] by auto
qed

theorem log_sink_bounded_and_retrying_witness:
  "sink_bounded (foldl log_sink_emit demo_sink (replicate 70 ''1 a'')) \<and>
   tries demo_sink (foldl log_sink_emit demo_sink (replicate 70 ''1 a''))"
proof -
  have "sink_bounded demo_sink" by code_simp
  moreover have "rn_log_fd demo_sink < 0" "rn_log_host demo_sink = Some ''127.0.0.1''"
    "parse_ipv4 ''127.0.0.1'' = Some 0x7F000001" by code_simp+
  ultimately show ?thesis
    using log_sink_bounded_and_retrying [of demo_sink "replicate 70 ''1 a''"] by simp
qed

end
