(* ===== verification/Transports.thy ===== *)
theory Transports
  imports Sink Netlog RunnerFacts
begin

text \<open>
  The ways a record reaches the log, together: the virtio sink and the network listener read the
  same \<open><level> <message>\<close> lines, and the runner's log sink sends such lines to the listener.
\<close>

section \<open>The virtio sink and the listener\<close>

text \<open>What both accept: a one-digit level, and a message that does not end in a carriage return.\<close>

definition shared_ok :: "nat \<times> string \<Rightarrow> bool" where
  "shared_ok r \<longleftrightarrow> wire_ok r \<and> fst r < 10 \<and> (snd r = [] \<or> last (snd r) \<noteq> cr)"

lemma sink_parse_shared:
  assumes "shared_ok r"
  shows "sink_parse (wire_line r) = Some (of_nat (fst r), snd r)"
proof -
  have "snd r = [] \<or> last (snd r) \<noteq> newline \<and> last (snd r) \<noteq> cr"
    using assms by (cases "snd r" rule: rev_cases) (auto simp: shared_ok_def wire_ok_def)
  with assms show ?thesis
    using sink_parse_level_msg [of "fst r" "snd r"] by (simp add: wire_line_def shared_ok_def)
qed

lemma sink_parse_shared_all:
  "list_all shared_ok recs \<Longrightarrow>
     List.map_filter sink_parse (map wire_line recs) = map (\<lambda>r. (of_nat (fst r), snd r)) recs"
  by (induction recs) (simp_all add: sink_parse_shared)

lemma wire_lines_short: "list_all wire_ok recs \<Longrightarrow> list_all (\<lambda>b. length b < 2 ^ 32) (map wire_line recs)"
  by (induction recs) (auto simp: wire_ok_def NL_LINE_MAX_def)

text \<open>
  C13: \<^bold>\<open>the two transports write the same log.\<close> Records with a one-digit level, emitted as one buffer
  each through the virtio sink or sent to the network listener in any pieces, leave the same text
  in the log, when the two start from the same text and number.
\<close>

theorem transports_agree:
  assumes "list_all shared_ok recs" and "concat pieces = concat (map wire_line recs)" and "c_buf c = []"
    and "ls_stream (nl_store nl) = ls_stream (snk_store sink)" and "nl_seq nl = snk_seq sink"
  shows "ls_stream (nl_store (fst (feed_chunks nl c pieces))) =
    ls_stream (snk_store (emit_all sink (map wire_line recs)))"
proof -
  let ?rs = "map (\<lambda>r. (of_nat (fst r) :: u32, snd r)) recs"
  have ok: "list_all wire_ok recs" using assms(1) by (simp add: list_all_iff shared_ok_def)
  have short: "short_msgs ?rs"
    using short_msgs_parse [OF wire_lines_short [OF ok]] by (simp only: sink_parse_shared_all [OF assms(1)])
  have "snk_store (emit_all sink (map wire_line recs)) =
      fst (append_all logstore_append (snk_store sink) (snk_seq sink) ?rs)"
    using emit_all_append_all [OF wire_lines_short [OF ok], of sink]
    by (simp only: sink_parse_shared_all [OF assms(1)]) (metis fst_conv)
  with short show ?thesis
    using feed_wire_records [OF ok assms(2,3), of nl] assms(4,5)
    by (simp add: file_store.contents_append_all)
qed

theorem transports_agree_witness:
  "ls_stream (nl_store (fst (feed_chunks demo_nl \<lparr>c_fd = 5, c_buf = []\<rparr> [''1 h'', ''i\<newline>3 '', ''no\<newline>'']))) =
   ls_stream (snk_store (emit_all \<lparr>snk_store = \<lparr>ls_disk = [], ls_buf = [], ls_lock = None\<rparr>, snk_seq = 0\<rparr>
     [''1 hi\<newline>'', ''3 no\<newline>'']))"
proof -
  have d: "dec (Suc 0) = ''1''" "dec 3 = ''3''" by code_simp+
  have "list_all shared_ok [(1, ''hi''), (3, ''no'')]"
    by (simp add: shared_ok_def wire_ok_def wire_line_def d nul_def newline_def cr_def NL_LINE_MAX_def)
  from transports_agree [OF this, of "[''1 h'', ''i\<newline>3 '', ''no\<newline>'']" "\<lparr>c_fd = 5, c_buf = []\<rparr>" demo_nl
      "\<lparr>snk_store = \<lparr>ls_disk = [], ls_buf = [], ls_lock = None\<rparr>, snk_seq = 0\<rparr>"]
  show ?thesis by (simp add: wire_line_def d newline_def demo_nl_def ls_stream_def)
qed

text \<open>Beyond that the two formats differ: a level of two digits is a message of level 1 for the sink.\<close>

lemma two_digit_level_differs:
  "sink_parse (''12 hi'' @ [newline]) = Some (1, ''12 hi'')"
  "netlog_parse ''12 hi'' = (12, ''hi'')"
  by code_simp+

lemma carriage_return_differs:
  "sink_parse (''1 hi'' @ [cr, newline]) = Some (1, ''hi'')"
  "netlog_parse (''1 hi'' @ [cr]) = (1, ''hi'' @ [cr])"
  by code_simp+

section \<open>From the runner to the log\<close>

text \<open>The sink does not look at what was printed.\<close>

lemma emit_stdout:
  "log_sink_emit (r\<lparr>rn_stdout := out\<rparr>) l = (log_sink_emit r l)\<lparr>rn_stdout := out\<rparr>"
proof -
  have call: "rn_call (r\<lparr>rn_stdout := out\<rparr>) e = (fst (rn_call r e), (snd (rn_call r e))\<lparr>rn_stdout := out\<rparr>)" for r e
    by (simp add: rn_call_def split: prod.splits)
  have emit: "rn_emit (r\<lparr>rn_stdout := out\<rparr>) e = (rn_emit r e)\<lparr>rn_stdout := out\<rparr>" for r e
    by (simp add: rn_emit_def)
  have comm: "r\<lparr>rn_stdout := out, rn_log_fd := v1\<rparr> = r\<lparr>rn_log_fd := v1, rn_stdout := out\<rparr>" 
    "r\<lparr>rn_stdout := out, rn_log_skip := v2\<rparr> = r\<lparr>rn_log_skip := v2, rn_stdout := out\<rparr>"
    "r\<lparr>rn_stdout := out, rn_log_backoff := v3\<rparr> = r\<lparr>rn_log_backoff := v3, rn_stdout := out\<rparr>"
    "r\<lparr>rn_stdout := out, rn_pend := v4\<rparr> = r\<lparr>rn_pend := v4, rn_stdout := out\<rparr>" for r :: runner and v1 v2 v3 v4
    by simp_all
  have pend: "log_pend (r\<lparr>rn_stdout := out\<rparr>) l = (log_pend r l)\<lparr>rn_stdout := out\<rparr>" for r l
    by (simp add: log_pend_def)
  have widen: "widen_gap (r\<lparr>rn_stdout := out\<rparr>) = (widen_gap r)\<lparr>rn_stdout := out\<rparr>" for r
    by (simp add: widen_gap_def)
  have drop: "log_sink_drop (r\<lparr>rn_stdout := out\<rparr>) = (log_sink_drop r)\<lparr>rn_stdout := out\<rparr>" for r
    by (simp add: log_sink_drop_def emit comm widen)
  have block: "log_would_block (r\<lparr>rn_stdout := out\<rparr>) = log_would_block r" for r
    by (simp add: log_would_block_def)
  have wr: "write_line (r\<lparr>rn_stdout := out\<rparr>) l = (write_line r l)\<lparr>rn_stdout := out\<rparr>" for r
    by (simp add: write_line_def call case_prod_beta Let_def block drop pend)
  have send: "send_line (r\<lparr>rn_stdout := out\<rparr>) l = (send_line r l)\<lparr>rn_stdout := out\<rparr>" for r
    by (simp add: send_line_def call case_prod_beta Let_def block drop pend wr comm)
  have conn: "log_sink_connect (r\<lparr>rn_stdout := out\<rparr>) =
      (fst (log_sink_connect r), (snd (log_sink_connect r))\<lparr>rn_stdout := out\<rparr>)"
    by (simp add: log_sink_connect_def call emit case_prod_beta Let_def split: option.split)
  show ?thesis
    by (simp add: log_sink_emit_def conn case_prod_beta Let_def comm pend widen send)
qed

definition log_all :: "runner \<Rightarrow> (nat \<times> string) list \<Rightarrow> runner" where
  "log_all r recs = foldl (\<lambda>r (l, m). logrec r l m) r recs"

lemma log_all_emits:
  "\<exists>out. log_all r recs = (foldl log_sink_emit r (map (\<lambda>(l, m). log_line l m) recs))\<lparr>rn_stdout := out\<rparr>"
proof (induction recs arbitrary: r)
  case Nil
  then show ?case by (auto simp: log_all_def intro: exI [of _ "rn_stdout r"])
next
  case (Cons x recs)
  have commute: "foldl log_sink_emit (r\<lparr>rn_stdout := out\<rparr>) ls = (foldl log_sink_emit r ls)\<lparr>rn_stdout := out\<rparr>" for r out ls
    by (induction ls arbitrary: r) (simp_all add: emit_stdout)
  obtain l m where x: "x = (l, m)" by fastforce
  obtain out where "log_all (logrec r l m) recs =
      (foldl log_sink_emit (logrec r l m) (map (\<lambda>(l, m). log_line l m) recs))\<lparr>rn_stdout := out\<rparr>"
    using Cons by blast
  then show ?case by (auto simp: log_all_def x logrec_def Let_def emit_stdout commute)
qed

text \<open>A record the runner does not cut, on one line.\<close>

definition runner_rec_ok :: "nat \<times> string \<Rightarrow> bool" where
  "runner_rec_ok r \<longleftrightarrow> fst r < 10 \<and> nul \<notin> set (snd r) \<and> newline \<notin> set (snd r) \<and>
     length (snd r) + 4 \<le> LINE_MAX_LEN"

lemma runner_line_is_wire_line:
  assumes "runner_rec_ok r"
  shows "log_line (fst r) (snd r) = wire_line r" "wire_ok r"
proof -
  have "length (dec (fst r)) = 1" using assms by (simp add: runner_rec_ok_def dec.simps)
  with assms show "log_line (fst r) (snd r) = wire_line r" "wire_ok r"
    by (simp_all add: runner_rec_ok_def LINE_MAX_LEN_def log_line_def wire_line_def wire_ok_def NL_LINE_MAX_def)
qed

text \<open>
  The bytes written on the \<open>n\<close>-th connection: by the writes that come after \<open>n\<close> calls of \<open>socket\<close>.
\<close>

definition delivered_on :: "runner \<Rightarrow> nat \<Rightarrow> string" where
  "delivered_on r n =
     concat (map (\<lambda>(i, e). if length (filter (\<lambda>x. x = RnSocket) (take i (rn_trace r))) = n
                           then taken (rn_sys r) i e else []) (enumerate 0 (rn_trace r)))"

lemma delivered_on_one:
  assumes "\<And>m. m \<noteq> n \<Longrightarrow> delivered_on r m = []"
  shows "delivered_on r n = delivered r"
proof -
  have "(\<lambda>(i, e). if length (filter (\<lambda>x. x = RnSocket) (take i (rn_trace r))) = n then taken (rn_sys r) i e else []) (i, e) =
      (\<lambda>(i, e). taken (rn_sys r) i e) (i, e)" if "(i, e) \<in> set (enumerate 0 (rn_trace r))" for i e
  proof (cases "length (filter (\<lambda>x. x = RnSocket) (take i (rn_trace r))) = n")
    case False
    from assms [OF this] that have "taken (rn_sys r) i e = []"
      unfolding delivered_on_def by (fastforce simp: concat_eq_Nil_conv)
    then show ?thesis by simp
  qed simp
  then show ?thesis
    unfolding delivered_on_def delivered_def by (intro arg_cong [where f = concat] map_cong) auto
qed

text \<open>
  What a record leaves in the log: no entry, its entry, or, where its own write was cut after \<open>k\<close> bytes, the entry
  the listener reads from these \<open>k\<close> bytes with the line after them.
\<close>

definition rec_body :: "nat \<times> string \<Rightarrow> string" where
  "rec_body r = dec (fst r) @ '' '' @ snd r"

definition logged_as :: "runner \<Rightarrow> nat \<times> string \<Rightarrow> (u32 \<times> string) list \<Rightarrow> bool" where
  "logged_as R r es \<longleftrightarrow> es = [] \<or> es = [(of_nat (fst r), snd r)] \<or>
     (\<exists>k. 0 < k \<and> k \<le> length (rec_body r) \<and> cut_write R (wire_line r) k \<and>
        es = [netlog_parse (take k (rec_body r) @ rec_body r)])"

lemma wire_line_body: "wire_line r = rec_body r @ [newline]"
  by (simp add: wire_line_def rec_body_def)

lemma netlog_parse_length: "length (snd (netlog_parse b)) \<le> length b"
proof -
  have "length (tl (dropWhile P (c_str b))) \<le> length b" for P
  proof -
    have "length (tl (dropWhile P (c_str b))) \<le> length (dropWhile P (c_str b))" by simp
    also have "\<dots> \<le> length (c_str b)" by (rule length_dropWhile_le)
    also have "\<dots> \<le> length b" by (simp add: c_str_def length_takeWhile_le)
    finally show ?thesis .
  qed
  moreover have "length (c_str b) \<le> length b" by (simp add: c_str_def length_takeWhile_le)
  ultimately show ?thesis by (auto simp: netlog_parse_def Let_def)
qed

text \<open>A list of contributions is a list of lines, each read as one entry.\<close>

lemma adds_lines:
  assumes "list_all2 (adds R) (map wire_line recs) ss" and "list_all runner_rec_ok recs"
    and "list_all (\<lambda>r. length (wire_line r) \<le> LOG_PEND_SIZE) recs"
  shows "\<exists>ls. cut_lines [] (concat ss) = (concat ls, []) \<and>
    list_all2 (\<lambda>r l. logged_as R r (map netlog_parse l)) recs ls \<and> list_all (\<lambda>l. length l < NL_LINE_MAX) (concat ls)"
  using assms
proof (induction recs arbitrary: ss)
  case (Cons r recs)
  then obtain s ss' where ss: "ss = s # ss'" "adds R (wire_line r) s" "list_all2 (adds R) (map wire_line recs) ss'"
    by (auto simp: list_all2_Cons1)
  from Cons.IH [OF ss(3)] Cons.prems obtain ls where ls: "cut_lines [] (concat ss') = (concat ls, [])"
    "list_all2 (\<lambda>r l. logged_as R r (map netlog_parse l)) recs ls" "list_all (\<lambda>l. length l < NL_LINE_MAX) (concat ls)"
    by auto
  let ?b = "rec_body r"
  have ok: "runner_rec_ok r" "length ?b < LOG_PEND_SIZE" using Cons.prems by (simp_all add: wire_line_body)
  have nl: "newline \<notin> set ?b" using ok(1) dec_no_newline(1) [of "fst r"]
    by (auto simp: rec_body_def runner_rec_ok_def newline_def)
  have entry: "netlog_parse ?b = (of_nat (fst r), snd r)"
    using ok(1) netlog_parse_wire [of "fst r" "snd r"] by (simp add: rec_body_def runner_rec_ok_def)
  have one: "cut_lines [] ((pre @ ?b @ [newline]) @ concat ss') = (concat ([pre @ ?b] # ls), [])"
    and short: "list_all (\<lambda>l. length l < NL_LINE_MAX) (concat ([pre @ ?b] # ls))"
    if "newline \<notin> set pre" "length pre \<le> length ?b" for pre
  proof -
    have len: "length (pre @ ?b) < NL_LINE_MAX" using that(2) ok(2) by (simp add: LOG_PEND_SIZE_def NL_LINE_MAX_def)
    have "newline \<notin> set (pre @ ?b)" using that(1) nl by simp
    from cut_lines_line [OF this len] ls(1)
    show "cut_lines [] ((pre @ ?b @ [newline]) @ concat ss') = (concat ([pre @ ?b] # ls), [])" by simp
    show "list_all (\<lambda>l. length l < NL_LINE_MAX) (concat ([pre @ ?b] # ls))" using len ls(3) by simp
  qed
  from ss(2) consider (none) "s = []" | (whole) "s = ?b @ [newline]"
    | (cut) k where "0 < k" "k \<le> length ?b" "cut_write R (wire_line r) k" "s = take k ?b @ ?b @ [newline]"
    using Cons.prems(3) by (auto simp: adds_def wire_line_body)
  then show ?case
  proof cases
    case none
    with ss(1) ls show ?thesis by (intro exI [of _ "[] # ls"]) (simp add: logged_as_def)
  next
    case whole
    with ss(1) ls one [of "[]"] short [of "[]"] entry show ?thesis
      by (intro exI [of _ "[?b] # ls"]) (simp add: logged_as_def)
  next
    case cut
    have pre: "newline \<notin> set (take k ?b)" "length (take k ?b) \<le> length ?b" using nl by (auto dest: in_set_takeD)
    from cut have "logged_as R r (map netlog_parse [take k ?b @ ?b])" by (auto simp: logged_as_def)
    with cut(4) ss(1) ls(2) one [OF pre] short [OF pre] show ?thesis
      by (intro exI [of _ "[take k ?b @ ?b] # ls"]) simp
  qed
qed simp

lemma feed_entries:
  assumes "cut_lines [] data = (ls, [])" and "list_all (\<lambda>l. length l < NL_LINE_MAX) ls" and "c_buf c = []"
  shows "ls_stream (nl_store (fst (feed nl c data))) = ls_stream (nl_store nl) @ numbered (nl_seq nl) (map netlog_parse ls)"
proof -
  have "length (snd (netlog_parse l)) < 2 ^ 32" if "length l < NL_LINE_MAX" for l
    using netlog_parse_length [of l] that by (simp add: NL_LINE_MAX_def)
  then have "short_msgs (map netlog_parse ls)"
    using assms(2) by (auto simp: short_msgs_def list_all_iff case_prod_beta)
  moreover have "nl_store (fst (feed nl c data)) =
      fst (append_all logstore_append (nl_store nl) (nl_seq nl) (map netlog_parse ls))"
    using feed_append_all [of nl c data] assms(1,3) by (metis fst_conv)
  ultimately show ?thesis by (simp add: file_store.contents_append_all)
qed

lemma list_all2_map_concat:
  assumes "list_all2 (\<lambda>r l. P r (map f l)) rs ls"
  shows "\<exists>ess. list_all2 P rs ess \<and> map f (concat ls) = concat ess"
  using assms by (intro exI [of _ "map (map f) ls"]) (simp add: list_all2_conv_all_nth map_concat)

text \<open>
  C7: \<^bold>\<open>the runner's records reach the log.\<close> The runner, with nothing written or pending yet, logs some records (a one-digit level, a
  message on one line, at most 2048 bytes with the newline) over a network that refuses, delays and cuts writes
  as it likes. Let all the bytes it got rid of have gone over one and the same connection (the \<open>n\<close>-th it opened; the others took nothing), let nothing be
  left pending, and let the listener read these bytes, in any pieces, into an empty line buffer. Then the log has grown by at most one entry per record, in the order of
  the records and numbered without gaps: a record that was not dropped is there whole and as it was logged, save where a write of exactly its bytes was
  cut after some of them; then its entry is what the listener reads from these bytes with the whole line after them, for
  instance level 11 for a record of level 1 cut after one byte.
\<close>

theorem runner_records_reach_the_log:
  assumes "list_all runner_rec_ok recs" and "list_all (\<lambda>r. length (wire_line r) \<le> LOG_PEND_SIZE) recs"
    and "rn_pend r = []" and "delivered r = []"
    and "writes_ok (log_all r recs)" and "rn_pend (log_all r recs) = []"
    and "\<forall>m. m \<noteq> n \<longrightarrow> delivered_on (log_all r recs) m = []"
    and "concat pieces = delivered_on (log_all r recs) n" and "c_buf c = []"
  shows "\<exists>ess. list_all2 (logged_as (log_all r recs)) recs ess \<and>
    ls_stream (nl_store (fst (feed_chunks nl c pieces))) =
      ls_stream (nl_store nl) @ numbered (nl_seq nl) (concat ess)"
proof -
  have lines: "map (\<lambda>(l, m). log_line l m) recs = map wire_line recs"
    using assms(1) runner_line_is_wire_line(1) by (auto simp: list_all_iff)
  let ?R = "foldl log_sink_emit r (map wire_line recs)"
  obtain out where out: "log_all r recs = ?R\<lparr>rn_stdout := out\<rparr>"
    using log_all_emits [of r recs] lines by auto
  have same: "delivered (log_all r recs) = delivered ?R" "rn_pend (log_all r recs) = rn_pend ?R"
    "adds (log_all r recs) = adds ?R"
    by (simp_all add: out delivered_def adds_def cut_write_def fun_eq_iff)
  have "writes_ok ?R" using assms(5) by (simp add: writes_ok_def out)
  from emits_records [OF this] obtain ss where ss: "list_all2 (adds (log_all r recs)) (map wire_line recs) ss"
    "delivered (log_all r recs) = concat ss"
    using assms(3,4,6) same by auto
  from adds_lines [OF ss(1) assms(1,2)] obtain ls where ls: "cut_lines [] (concat ss) = (concat ls, [])"
    "list_all2 (\<lambda>x l. logged_as (log_all r recs) x (map netlog_parse l)) recs ls"
    "list_all (\<lambda>l. length l < NL_LINE_MAX) (concat ls)" by blast
  have "concat pieces = concat ss" using assms(7,8) delivered_on_one [of n "log_all r recs"] ss(2) by simp
  with feed_entries [OF ls(1,3) assms(9)] list_all2_map_concat [OF ls(2)] show ?thesis
    by (auto simp: feed_chunks_concat)
qed

text \<open>
  The witness: the connection comes up after the first records, a write of the pending bytes takes part of them,
  and the write of the last record but one is cut after one byte.
\<close>

definition cut_runner :: runner where
  "cut_runner = demo_runner\<lparr>rn_log_host := Some ''127.0.0.1'', rn_log_port := 9000,
     rn_sys := (\<lambda>i. (- 1, 11))(0 := (3, 0), 1 := (0, 0), 2 := (0, 0), 3 := (- 1, 115), 5 := (3, 0), 6 := (5, 0), 7 := (4, 0),
       8 := (1, 0), 9 := (4, 0), 10 := (4, 0))\<rparr>"

theorem runner_records_reach_the_log_witness:
  "\<exists>ess. list_all2 (logged_as (log_all cut_runner [(1, ''a''), (1, ''b''), (1, ''c''), (1, ''d''), (1, ''e'')]))
      [(1, ''a''), (1, ''b''), (1, ''c''), (1, ''d''), (1, ''e'')] ess \<and>
    ls_stream (nl_store (fst (feed_chunks demo_nl \<lparr>c_fd = 5, c_buf = []\<rparr>
      [''1 a\<newline>1 '', ''b\<newline>1 c\<newline>11 d\<newline>1 e\<newline>'']))) = numbered 0 (concat ess)"
proof -
  let ?recs = "[(1 :: nat, ''a''), (1, ''b''), (1, ''c''), (1, ''d''), (1, ''e'')]"
  let ?R = "log_all cut_runner ?recs"
  have ok: "list_all runner_rec_ok ?recs" "list_all (\<lambda>r. length (wire_line r) \<le> LOG_PEND_SIZE) ?recs"
    "rn_pend cut_runner = []" "delivered cut_runner = []" by code_simp+
  have w: "writes_ok ?R" "rn_pend ?R = []" by code_simp+
  have tr: "rn_trace ?R = [RnSocket, RnFcntlGet 3, RnFcntlSet 3, RnConnect 3 2130706433 9000,
      RnWrite 3 ''1 a\<newline>'', RnWrite 3 ''1 a\<newline>'', RnWrite 3 ''\<newline>1 b\<newline>'', RnWrite 3 ''1 c\<newline>'',
      RnWrite 3 ''1 d\<newline>'', RnWrite 3 ''1 d\<newline>'', RnWrite 3 ''1 e\<newline>'']" by code_simp
  have one: "\<forall>m. m \<noteq> 1 \<longrightarrow> delivered_on ?R m = []"
    unfolding delivered_on_def tr by (simp add: taken_def)
  have "concat [''1 a\<newline>1 '', ''b\<newline>1 c\<newline>11 d\<newline>1 e\<newline>''] = delivered_on ?R 1" by code_simp
  from runner_records_reach_the_log [OF ok w one this, of "\<lparr>c_fd = 5, c_buf = []\<rparr>" demo_nl]
  show ?thesis by (simp add: demo_nl_def ls_stream_def del: list_all2_Cons list_all2_Cons1)
qed

end
