(* ===== verification/Memory.thy ===== *)
theory Memory
  imports Prelude
begin

text \<open>
  The backend's address space as bytes, with the little-endian loads and stores the virtio
  structures need (\<open>le16toh\<close> and its kin are the identity on the little-endian hosts the code
  runs on). Guest RAM is mapped into this memory, so the rings, the descriptors and the
  buffers may overlap in any way the guest likes.
\<close>

type_synonym mem = "u64 \<Rightarrow> u8"

definition load16 :: "mem \<Rightarrow> u64 \<Rightarrow> u16" where
  "load16 m a = ucast (m a) OR push_bit 8 (ucast (m (a + 1)))"

definition load32 :: "mem \<Rightarrow> u64 \<Rightarrow> u32" where
  "load32 m a = ucast (load16 m a) OR push_bit 16 (ucast (load16 m (a + 2)))"

definition load64 :: "mem \<Rightarrow> u64 \<Rightarrow> u64" where
  "load64 m a = ucast (load32 m a) OR push_bit 32 (ucast (load32 m (a + 4)))"

definition store16 :: "mem \<Rightarrow> u64 \<Rightarrow> u16 \<Rightarrow> mem" where
  "store16 m a v = m(a := ucast v, a + 1 := ucast (drop_bit 8 v))"

definition store32 :: "mem \<Rightarrow> u64 \<Rightarrow> u32 \<Rightarrow> mem" where
  "store32 m a v = store16 (store16 m a (ucast v)) (a + 2) (ucast (drop_bit 16 v))"

definition store64 :: "mem \<Rightarrow> u64 \<Rightarrow> u64 \<Rightarrow> mem" where
  "store64 m a v = store32 (store32 m a (ucast v)) (a + 4) (ucast (drop_bit 32 v))"

text \<open>The addresses of \<open>n\<close> bytes from \<open>a\<close> on (addresses wrap around).\<close>

definition span :: "u64 \<Rightarrow> nat \<Rightarrow> u64 set" where
  "span a n = (\<lambda>i. a + of_nat i) ` {..<n}"

lemma span_0 [simp]: "span a 0 = {}"
  by (simp add: span_def)

lemma span_Suc: "span a (Suc n) = insert (a + of_nat n) (span a n)"
  by (auto simp: span_def lessThan_Suc)

lemma span_2: "span a 2 = {a, a + 1}"
  by (auto simp: numeral_2_eq_2 span_Suc)

lemma span_4: "span a 4 = {a, a + 1, a + 2, a + 3}"
  by (auto simp: eval_nat_numeral span_Suc)

lemma span_8: "span a 8 = {a, a + 1, a + 2, a + 3, a + 4, a + 5, a + 6, a + 7}"
  by (auto simp: eval_nat_numeral span_Suc)

lemma load16_cong: "(\<And>x. x \<in> span a 2 \<Longrightarrow> m x = m' x) \<Longrightarrow> load16 m a = load16 m' a"
  by (simp add: load16_def span_2)

lemma load32_cong: "(\<And>x. x \<in> span a 4 \<Longrightarrow> m x = m' x) \<Longrightarrow> load32 m a = load32 m' a"
  by (simp add: load32_def load16_def span_4 add.assoc)

lemma store16_outside: "x \<notin> span a 2 \<Longrightarrow> store16 m a v x = m x"
  by (simp add: store16_def span_2)

lemma store32_outside: "x \<notin> span a 4 \<Longrightarrow> store32 m a v x = m x"
  by (simp add: store32_def store16_def span_4 add.assoc)

lemma load16_store16 [mem_simps]: "load16 (store16 m a v) a = v"
  by (rule bit_word_eqI) (auto simp: load16_def store16_def bit_simps)

lemma addr_neq [simp]:
  fixes a :: u64
  shows "a + 1 \<noteq> a" "a + 2 \<noteq> a" "a + 3 \<noteq> a" "a \<noteq> a + 1" "a \<noteq> a + 2" "a \<noteq> a + 3"
    "a + 1 \<noteq> a + 2" "a + 1 \<noteq> a + 3" "a + 2 \<noteq> a + 1" "a + 2 \<noteq> a + 3" "a + 3 \<noteq> a + 1" "a + 3 \<noteq> a + 2"
  by simp_all

lemma load32_store32 [mem_simps]: "load32 (store32 m a v) a = v"
proof -
  have lo: "load16 (store32 m a v) a = ucast v"
    by (simp add: store32_def load16_def store16_def add.assoc)
       (rule bit_word_eqI, auto simp: bit_simps)
  have hi: "load16 (store32 m a v) (a + 2) = ucast (drop_bit 16 v)"
    by (simp add: store32_def mem_simps)
  show ?thesis unfolding load32_def lo hi
    by (rule bit_word_eqI) (auto simp: bit_simps)
qed

lemma load16_store16_apart [mem_simps]:
  "span a 2 \<inter> span b 2 = {} \<Longrightarrow> load16 (store16 m a v) b = load16 m b"
  by (rule load16_cong, rule store16_outside) blast

lemma load16_store32_apart [mem_simps]:
  "span a 4 \<inter> span b 2 = {} \<Longrightarrow> load16 (store32 m a v) b = load16 m b"
  by (rule load16_cong, rule store32_outside) blast

lemma load32_store16_apart [mem_simps]:
  "span a 2 \<inter> span b 4 = {} \<Longrightarrow> load32 (store16 m a v) b = load32 m b"
  by (rule load32_cong, rule store16_outside) blast

lemma load32_store32_apart [mem_simps]:
  "span a 4 \<inter> span b 4 = {} \<Longrightarrow> load32 (store32 m a v) b = load32 m b"
  by (rule load32_cong, rule store32_outside) blast

lemma load64_cong: "(\<And>x. x \<in> span a 8 \<Longrightarrow> m x = m' x) \<Longrightarrow> load64 m a = load64 m' a"
  by (simp add: load64_def load32_def load16_def span_8 add.assoc)

lemma store64_outside: "x \<notin> span a 8 \<Longrightarrow> store64 m a v x = m x"
  by (simp add: store64_def store32_def store16_def span_8 add.assoc)

lemma load64_store64 [mem_simps]: "load64 (store64 m a v) a = v"
proof -
  have lo: "load32 (store64 m a v) a = ucast v"
    unfolding store64_def
  proof (subst load32_store32_apart)
    show "span (a + 4) 4 \<inter> span a 4 = {}" by (auto simp: span_4 add.assoc)
  qed (rule load32_store32)
  have hi: "load32 (store64 m a v) (a + 4) = ucast (drop_bit 32 v)"
    unfolding store64_def by (rule load32_store32)
  show ?thesis unfolding load64_def lo hi
    by (rule bit_word_eqI) (auto simp: bit_simps)
qed

lemma span_cases: "x \<in> span a n \<longleftrightarrow> (\<exists>i<n. x = a + of_nat i)"
  by (auto simp: span_def)

lemma span_part: "k + n \<le> l \<Longrightarrow> span (a + of_nat k) n \<subseteq> span a l"
  by (force simp: span_cases add.assoc simp flip: of_nat_add)

lemma of_nat_u64_inj:
  "m < 2 ^ 64 \<Longrightarrow> n < 2 ^ 64 \<Longrightarrow> (of_nat m :: u64) = of_nat n \<longleftrightarrow> m = n"
  by (simp add: word_of_nat_eq_iff take_bit_nat_eq_self)

lemma span_parts_apart:
  assumes "k + n \<le> j \<or> j + l \<le> k" and "k + n \<le> 2 ^ 64" and "j + l \<le> 2 ^ 64"
  shows "span (a + of_nat k) n \<inter> span (a + of_nat j) l = {}"
proof -
  have "(of_nat (k + i) :: u64) \<noteq> of_nat (j + i')" if "i < n" "i' < l" for i i'
    using that assms by (subst of_nat_u64_inj) auto
  then show ?thesis by (auto simp: span_cases add.assoc simp flip: of_nat_add)
qed

text \<open>Bytes written one after the other, as \<open>memcpy\<close> does.\<close>

fun bytes_at :: "u64 \<Rightarrow> u8 list \<Rightarrow> mem \<Rightarrow> mem" where
  "bytes_at a [] m = m"
| "bytes_at a (b # bs) m = bytes_at (a + 1) bs (m(a := b))"

end
