(* ===== verification/Vring.thy ===== *)
theory Vring
  imports Memory
begin

text \<open>
  The split virtqueue structures of \<^verbatim>\<open>project_1/vhost/standard-headers/linux/virtio_ring.h\<close> as they
  lie in memory, and the event index arithmetic.
\<close>

definition VRING_DESC_F_NEXT :: u16 where "VRING_DESC_F_NEXT = 1"
definition VRING_DESC_F_WRITE :: u16 where "VRING_DESC_F_WRITE = 2"
definition VRING_DESC_F_INDIRECT :: u16 where "VRING_DESC_F_INDIRECT = 4"
definition VRING_USED_F_NO_NOTIFY :: u16 where "VRING_USED_F_NO_NOTIFY = 1"
definition VRING_AVAIL_F_NO_INTERRUPT :: u16 where "VRING_AVAIL_F_NO_INTERRUPT = 1"
definition VIRTIO_RING_F_INDIRECT_DESC :: nat where "VIRTIO_RING_F_INDIRECT_DESC = 28"
definition VIRTIO_RING_F_EVENT_IDX :: nat where "VIRTIO_RING_F_EVENT_IDX = 29"

record vring_desc =
  d_addr :: u64
  d_len :: u32
  d_flags :: u16
  d_next :: u16

text \<open>\<open>desc[i]\<close> at the address of the table: 16 bytes per entry.\<close>

definition load_desc :: "mem \<Rightarrow> u64 \<Rightarrow> u64 \<Rightarrow> vring_desc" where
  "load_desc m table i =
     (let p = table + 16 * i
      in \<lparr>d_addr = load64 m p, d_len = load32 m (p + 8), d_flags = load16 m (p + 12),
          d_next = load16 m (p + 14)\<rparr>)"

text \<open>Storing a descriptor, member by member.\<close>

definition store_desc :: "mem \<Rightarrow> u64 \<Rightarrow> vring_desc \<Rightarrow> mem" where
  "store_desc m p d =
     store16 (store16 (store32 (store64 m p (d_addr d)) (p + 8) (d_len d)) (p + 12) (d_flags d)) (p + 14) (d_next d)"

text \<open>
  \<open>struct vring_avail\<close> and \<open>struct vring_used\<close>: \<open>flags\<close> at 0, \<open>idx\<close> at 2, the ring from 4 on, with
  2 and 8 bytes per entry.
\<close>

definition avail_flags :: "mem \<Rightarrow> u64 \<Rightarrow> u16" where
  "avail_flags m av = load16 m av"

definition avail_idx :: "mem \<Rightarrow> u64 \<Rightarrow> u16" where
  "avail_idx m av = load16 m (av + 2)"

definition avail_ring :: "mem \<Rightarrow> u64 \<Rightarrow> u64 \<Rightarrow> u16" where
  "avail_ring m av i = load16 m (av + 4 + 2 * i)"

record vring_used_elem =
  ue_id :: u32
  ue_len :: u32

definition used_idx_addr :: "u64 \<Rightarrow> u64" where
  "used_idx_addr us = us + 2"

definition used_ring_addr :: "u64 \<Rightarrow> u64 \<Rightarrow> u64" where
  "used_ring_addr us i = us + 4 + 8 * i"

definition load_used_elem :: "mem \<Rightarrow> u64 \<Rightarrow> vring_used_elem" where
  "load_used_elem m p = \<lparr>ue_id = load32 m p, ue_len = load32 m (p + 4)\<rparr>"

definition store_used_elem :: "mem \<Rightarrow> u64 \<Rightarrow> vring_used_elem \<Rightarrow> mem" where
  "store_used_elem m p e = store32 (store32 m p (ue_id e)) (p + 4) (ue_len e)"

text \<open>The layout of a legacy ring in one chunk of memory.\<close>

record vring =
  vr_num :: u32
  vr_desc :: u64
  vr_avail :: u64
  vr_used :: u64

definition vring_init :: "u32 \<Rightarrow> u64 \<Rightarrow> u64 \<Rightarrow> vring" where
  "vring_init num p align =
     (let av = p + ucast num * 16
      in \<lparr>vr_num = num, vr_desc = p, vr_avail = av,
          vr_used = (av + 4 + 2 * ucast num + 2 + align - 1) AND NOT (align - 1)\<rparr>)"

definition vring_size :: "u32 \<Rightarrow> u64 \<Rightarrow> u32" where
  "vring_size num align =
     ucast (((16 * ucast num + 2 * ucast (3 + num) + align - 1) AND NOT (align - 1))
              + 2 * 3 + 8 * ucast num :: u64)"

definition vring_need_event :: "u16 \<Rightarrow> u16 \<Rightarrow> u16 \<Rightarrow> bool" where
  "vring_need_event event_idx new_idx old \<longleftrightarrow> new_idx - event_idx - 1 < new_idx - old"

section \<open>Lemmas\<close>

lemma used_elem_fields:
  "span (p :: u64) 4 \<inter> span (p + 4) 4 = {}"
  by (auto simp: span_4 add.assoc)

lemma load_store_used_elem [mem_simps]: "load_used_elem (store_used_elem m p e) p = e"
proof -
  have "span (p + 4) 4 \<inter> span p 4 = {}" using used_elem_fields [of p] by blast
  then show ?thesis by (simp add: load_used_elem_def store_used_elem_def mem_simps)
qed

lemma store_used_elem_outside: "x \<notin> span p 8 \<Longrightarrow> store_used_elem m p e x = m x"
  by (simp add: store_used_elem_def store32_outside span_8 span_4 add.assoc)

lemma load_used_elem_cong:
  "(\<And>x. x \<in> span p 8 \<Longrightarrow> m x = m' x) \<Longrightarrow> load_used_elem m p = load_used_elem m' p"
  unfolding load_used_elem_def
  by (intro arg_cong2 [of _ _ _ _ "\<lambda>a b. \<lparr>ue_id = a, ue_len = b\<rparr>"] load32_cong)
     (auto simp: span_4 span_8 add.assoc)

lemma load_desc_cong:
  assumes "\<And>x. x \<in> span (table + 16 * i) 16 \<Longrightarrow> m x = m' x"
  shows "load_desc m table i = load_desc m' table i"
proof -
  let ?p = "table + 16 * i"
  have sub: "span ?p 8 \<subseteq> span ?p 16" "span (?p + 8) 4 \<subseteq> span ?p 16"
    "span (?p + 12) 2 \<subseteq> span ?p 16" "span (?p + 14) 2 \<subseteq> span ?p 16"
    using span_part [of 0 8 16 ?p] span_part [of 8 4 16 ?p] span_part [of 12 2 16 ?p] span_part [of 14 2 16 ?p]
    by simp_all
  have "load64 m ?p = load64 m' ?p" by (rule load64_cong, rule assms) (use sub in blast)
  moreover have "load32 m (?p + 8) = load32 m' (?p + 8)" by (rule load32_cong, rule assms) (use sub in blast)
  moreover have "load16 m (?p + 12) = load16 m' (?p + 12)" by (rule load16_cong, rule assms) (use sub in blast)
  moreover have "load16 m (?p + 14) = load16 m' (?p + 14)" by (rule load16_cong, rule assms) (use sub in blast)
  ultimately show ?thesis by (simp add: load_desc_def Let_def)
qed

lemma store_desc_outside:
  assumes "x \<notin> span p 16"
  shows "store_desc m p d x = m x"
proof -
  have "x \<notin> span p 8" "x \<notin> span (p + 8) 4" "x \<notin> span (p + 12) 2" "x \<notin> span (p + 14) 2"
    using assms span_part [of 0 8 16 p] span_part [of 8 4 16 p] span_part [of 12 2 16 p] span_part [of 14 2 16 p]
    by auto
  then show ?thesis by (simp add: store_desc_def store16_outside store32_outside store64_outside)
qed

lemma load_store_desc [mem_simps]: "load_desc (store_desc m (t + 16 * i) d) t i = d"
proof -
  let ?p = "t + 16 * i"
  have s: "span ?p 8 \<inter> span (?p + 12) 2 = {}" "span ?p 8 \<inter> span (?p + 14) 2 = {}"
      "span ?p 8 \<inter> span (?p + 8) 4 = {}" "span (?p + 12) 2 \<inter> span (?p + 8) 4 = {}"
      "span (?p + 14) 2 \<inter> span (?p + 8) 4 = {}" "span (?p + 14) 2 \<inter> span (?p + 12) 2 = {}"
    using span_parts_apart [of 0 8 12 2 ?p] span_parts_apart [of 0 8 14 2 ?p] span_parts_apart [of 0 8 8 4 ?p]
      span_parts_apart [of 12 2 8 4 ?p] span_parts_apart [of 14 2 8 4 ?p] span_parts_apart [of 14 2 12 2 ?p]
    by simp_all
  have "load64 (store_desc m ?p d) ?p = load64 (store64 m ?p (d_addr d)) ?p"
    unfolding store_desc_def
    by (rule load64_cong) (use s(1-3) in \<open>simp add: store16_outside store32_outside disjoint_iff\<close>)
  then show ?thesis
    using s(4-6) by (simp add: load_desc_def Let_def store_desc_def mem_simps)
qed

text \<open>
  The event test asks whether the index the other side wants to hear about lies among those
  just passed: \<open>old, old + 1, \<dots>, new - 1\<close>, counted modulo \<open>2 ^ 16\<close>.
\<close>

lemma vring_need_event_iff:
  "vring_need_event ev new old \<longleftrightarrow> (\<exists>k < unat (new - old). ev = old + of_nat k)"
proof
  assume "vring_need_event ev new old"
  then have lt: "unat (new - ev - 1) < unat (new - old)"
    by (simp add: vring_need_event_def word_less_nat_alt)
  let ?j = "unat (new - ev - 1)"
  let ?k = "unat (new - old) - 1 - ?j"
  have "(of_nat ?k :: u16) = (new - old) - 1 - (new - ev - 1)"
    using lt by (simp add: of_nat_diff)
  then have "ev = old + of_nat ?k" by (simp add: algebra_simps)
  moreover have "?k < unat (new - old)" using lt by simp
  ultimately show "\<exists>k < unat (new - old). ev = old + of_nat k" by blast
next
  assume "\<exists>k < unat (new - old). ev = old + of_nat k"
  then obtain k where k: "k < unat (new - old)" and ev: "ev = old + of_nat k" by blast
  have "new - ev - 1 = of_nat (unat (new - old) - 1 - k)"
    using k by (simp add: ev of_nat_diff algebra_simps)
  moreover have "unat (new - old) - 1 - k < 2 ^ 16" using unat_bounds(2) [of "new - old"] by simp
  ultimately have "unat (new - ev - 1) = unat (new - old) - 1 - k"
    by (simp add: unat_of_nat take_bit_nat_eq_self)
  with k show "vring_need_event ev new old"
    by (simp add: vring_need_event_def word_less_nat_alt)
qed

end
