(* ===== verification/VringLayout.thy ===== *)
theory VringLayout
  imports Vring
begin

text \<open>The layout of a legacy ring in one chunk: where its three parts lie and how much it takes.\<close>

lemma unat_and_not_mask:
  "unat ((x :: u64) AND NOT (2 ^ a - 1)) = unat x div 2 ^ a * 2 ^ a"
proof -
  have le: "unat (take_bit a x) = unat x mod 2 ^ a" by (simp only: unsigned_take_bit_eq) (simp add: take_bit_eq_mod)
  have "x AND NOT (mask a) = push_bit a (drop_bit a x)"
    by (rule bit_word_eqI) (auto simp: bit_simps)
  also have "\<dots> = x - take_bit a x" using bits_ident [of a x] by (simp add: algebra_simps)
  finally have "unat (x AND NOT (mask a)) = unat (x - take_bit a x)" by (rule arg_cong)
  also have "\<dots> = unat x - unat x mod 2 ^ a" by (simp add: unat_sub word_le_nat_alt le)
  finally show ?thesis by (simp add: minus_mod_eq_div_mult flip: mask_eq_exp_minus_1)
qed

definition align_to :: "nat \<Rightarrow> nat \<Rightarrow> nat" where
  "align_to a n = (n + 2 ^ a - 1) div 2 ^ a * 2 ^ a"

lemma align_to:
  "n \<le> align_to a n" "align_to a n < n + 2 ^ a" "2 ^ a dvd align_to a n"
proof -
  have "(n + 2 ^ a - 1) mod 2 ^ a < 2 ^ a" by simp
  moreover have "align_to a n + (n + 2 ^ a - 1) mod 2 ^ a = n + 2 ^ a - 1"
    unfolding align_to_def by (rule div_mult_mod_eq)
  moreover have "(0 :: nat) < 2 ^ a" by simp
  ultimately show "n \<le> align_to a n" "align_to a n < n + 2 ^ a" by linarith+
  show "2 ^ a dvd align_to a n" by (simp add: align_to_def)
qed

lemma align_to_shift: "2 ^ a dvd p \<Longrightarrow> align_to a (p + n) = p + align_to a n"
proof -
  assume "2 ^ a dvd p"
  then obtain k where p: "p = k * 2 ^ a" by (auto simp: dvd_def mult.commute)
  have "p + n + 2 ^ a - 1 = (n + 2 ^ a - 1) + k * 2 ^ a" using one_le_power [of "2 :: nat" a] p by linarith
  then show ?thesis by (simp add: align_to_def p algebra_simps)
qed

lemma ring_addresses:
  assumes "unat num \<le> 32768" and "a \<le> 30" and "unat p + 2 ^ 32 < 2 ^ 64"
  shows "unat (vr_avail (vring_init num p (2 ^ a))) = unat p + 16 * unat num"
    and "unat (vr_used (vring_init num p (2 ^ a))) = align_to a (unat p + 18 * unat num + 6)"
    and "unat (vring_size num (2 ^ a)) = align_to a (18 * unat num + 6) + 8 * unat num + 6"
proof -
  have A: "(2 :: nat) ^ a \<le> 2 ^ 30" using assms(2) by (rule power_increasing) simp
  have lt: "(2 :: nat) ^ a < 2 ^ 64" using A by simp
  have "unat (2 ^ a :: u64) = unat (of_nat (2 ^ a) :: u64)" by simp
  then have pa: "unat (2 ^ a :: u64) = 2 ^ a" using lt by (simp add: unat_of_nat take_bit_nat_eq_self del: of_nat_power)
  have n: "unat (ucast num :: u64) = unat num" using unat_bounds(3) [of num] by (simp add: unsigned_ucast_eq take_bit_nat_eq_self)
  show av: "unat (vr_avail (vring_init num p (2 ^ a))) = unat p + 16 * unat num"
    using assms by (simp add: vring_init_def Let_def unat_word_ariths n)
  have "unat (p + ucast num * 16 + 4 + 2 * ucast num + 2 + 2 ^ a - 1) = unat p + 18 * unat num + 6 + 2 ^ a - 1"
    using assms A by (simp add: unat_word_ariths n pa)
  then show "unat (vr_used (vring_init num p (2 ^ a))) = align_to a (unat p + 18 * unat num + 6)"
    by (simp add: vring_init_def Let_def unat_and_not_mask align_to_def)
  define t where "t = (ucast (3 + num) :: u64)"
  have m: "unat t = 3 + unat num"
    using assms(1) by (simp add: t_def unsigned_ucast_eq unat_word_ariths take_bit_nat_eq_self)
  have s: "unat (16 * ucast num + 2 * t + 2 ^ a - 1 :: u64) = 18 * unat num + 6 + 2 ^ a - 1"
  proof -
    have "unat (2 ^ a - 1 :: u64) = 2 ^ a - 1"
      using pa one_le_power [of "2 :: nat" a] by (subst unat_sub) (simp_all add: word_le_nat_alt del: one_le_power)
    then have "unat (16 * ucast num + 2 * t + (2 ^ a - 1) :: u64) = 18 * unat num + 6 + (2 ^ a - 1)"
      using assms(1) A unfolding unat_word_ariths(1,2) n m by simp
    then show ?thesis using one_le_power [of "2 :: nat" a] by (simp add: add_diff_eq del: one_le_power)
  qed
  have b: "align_to a (18 * unat num + 6) < 18 * unat num + 6 + 2 ^ a" by (rule align_to)
  have "unat (((16 * ucast num + 2 * t + 2 ^ a - 1) AND NOT (2 ^ a - 1)) + 2 * 3 + 8 * ucast num :: u64) =
      align_to a (18 * unat num + 6) + 6 + 8 * unat num"
  proof -
    have "unat ((16 * ucast num + 2 * t + 2 ^ a - 1) AND NOT (2 ^ a - 1) :: u64) = align_to a (18 * unat num + 6)"
      unfolding unat_and_not_mask s align_to_def ..
    with assms(1) A b show ?thesis unfolding unat_word_ariths(1,2) n by simp
  qed
  then show "unat (vring_size num (2 ^ a)) = align_to a (18 * unat num + 6) + 8 * unat num + 6"
    using assms(1) A b by (simp add: vring_size_def unsigned_ucast_eq take_bit_nat_eq_self flip: t_def)
qed

text \<open>
  C26: \<^bold>\<open>A ring fits the size announced for it.\<close> A legacy ring of up to 32768 entries, laid out by \<open>vring_init\<close> at
  an address aligned to \<open>2 ^ a\<close> with room before the end of the address space, has its descriptor table
  first, then the available ring with its event index, then, at the next aligned address, the used
  ring with its own; the parts do not overlap, and the last one ends exactly \<open>vring_size\<close>
  bytes after the start.
\<close>

theorem ring_fits_its_size:
  assumes "unat num \<le> 32768" and "a \<le> 30" and "2 ^ a dvd unat p" and "unat p + 2 ^ 32 < 2 ^ 64"
  shows "let r = vring_init num p (2 ^ a); n = unat num in
    vr_desc r = p \<and> unat (vr_desc r) + 16 * n = unat (vr_avail r) \<and>
    unat (vr_avail r) + (2 * 3 + 2 * n) \<le> unat (vr_used r) \<and>
    unat (vr_used r) < unat (vr_avail r) + (2 * 3 + 2 * n) + 2 ^ a \<and> 2 ^ a dvd unat (vr_used r) \<and>
    unat (vr_used r) + (2 * 3 + 8 * n) = unat p + unat (vring_size num (2 ^ a))"
proof -
  note r = ring_addresses [OF assms(1,2,4)]
  have sh: "align_to a (unat p + 18 * unat num + 6) = unat p + align_to a (18 * unat num + 6)"
    using align_to_shift [OF assms(3), of "18 * unat num + 6"] by (simp add: add.assoc)
  have "vr_desc (vring_init num p (2 ^ a)) = p" by (simp add: vring_init_def Let_def)
  then show ?thesis
    using align_to [where n = "unat p + 18 * unat num + 6" and a = a] sh by (simp add: Let_def r)
qed

theorem ring_fits_its_size_witness:
  "unat (vr_used (vring_init 256 0x10000 (2 ^ 12))) + 2054 = 0x10000 + unat (vring_size 256 (2 ^ 12)) \<and>
   vring_size 256 (2 ^ 12) = 10246"
proof -
  have "vring_size 256 (2 ^ 12) = 10246" by code_simp
  with ring_fits_its_size [of 256 12 "0x10000"] show ?thesis by (simp add: Let_def)
qed

end
