(* ===== verification/VuDev.thy ===== *)
theory VuDev
  imports Vring
begin

text \<open>
  The device state of \<^verbatim>\<open>project_1/vhost/libvhost-user.h\<close> and the helpers the rest of
  \<^verbatim>\<open>libvhost-user.c\<close> builds on: feature tests, \<open>vu_panic\<close>, the translation of guest and front-end
  addresses, and the dirty page log. Calls that leave the library are recorded, in order, in
  the device's trace; what they return is read from \<open>dv_sys\<close> and \<open>dv_recv\<close> at the position of
  the call in that trace, so the environment can answer every call as it likes.
\<close>

section \<open>Constants\<close>

definition VHOST_USER_F_PROTOCOL_FEATURES :: u64 where "VHOST_USER_F_PROTOCOL_FEATURES = 30"
definition VHOST_LOG_PAGE :: u64 where "VHOST_LOG_PAGE = 4096"
definition VIRTQUEUE_MAX_SIZE :: nat where "VIRTQUEUE_MAX_SIZE = 1024"
definition VHOST_MEMORY_BASELINE_NREGIONS :: nat where "VHOST_MEMORY_BASELINE_NREGIONS = 8"
definition VHOST_USER_MAX_RAM_SLOTS :: nat where "VHOST_USER_MAX_RAM_SLOTS = 32"
definition VHOST_USER_MAX_CONFIG_SIZE :: u32 where "VHOST_USER_MAX_CONFIG_SIZE = 256"

text \<open>\<open>enum VhostUserProtocolFeature\<close>: bit numbers of the protocol feature word.\<close>

definition VHOST_USER_PROTOCOL_F_MQ :: nat where "VHOST_USER_PROTOCOL_F_MQ = 0"
definition VHOST_USER_PROTOCOL_F_LOG_SHMFD :: nat where "VHOST_USER_PROTOCOL_F_LOG_SHMFD = 1"
definition VHOST_USER_PROTOCOL_F_REPLY_ACK :: nat where "VHOST_USER_PROTOCOL_F_REPLY_ACK = 3"
definition VHOST_USER_PROTOCOL_F_BACKEND_REQ :: nat where "VHOST_USER_PROTOCOL_F_BACKEND_REQ = 5"
definition VHOST_USER_PROTOCOL_F_PAGEFAULT :: nat where "VHOST_USER_PROTOCOL_F_PAGEFAULT = 8"
definition VHOST_USER_PROTOCOL_F_CONFIG :: nat where "VHOST_USER_PROTOCOL_F_CONFIG = 9"
definition VHOST_USER_PROTOCOL_F_BACKEND_SEND_FD :: nat where
  "VHOST_USER_PROTOCOL_F_BACKEND_SEND_FD = 10"
definition VHOST_USER_PROTOCOL_F_HOST_NOTIFIER :: nat where "VHOST_USER_PROTOCOL_F_HOST_NOTIFIER = 11"
definition VHOST_USER_PROTOCOL_F_INFLIGHT_SHMFD :: nat where
  "VHOST_USER_PROTOCOL_F_INFLIGHT_SHMFD = 12"
definition VHOST_USER_PROTOCOL_F_INBAND_NOTIFICATIONS :: nat where
  "VHOST_USER_PROTOCOL_F_INBAND_NOTIFICATIONS = 14"
definition VHOST_USER_PROTOCOL_F_CONFIGURE_MEM_SLOTS :: nat where
  "VHOST_USER_PROTOCOL_F_CONFIGURE_MEM_SLOTS = 15"
definition VHOST_USER_PROTOCOL_F_SHARED_OBJECT :: nat where "VHOST_USER_PROTOCOL_F_SHARED_OBJECT = 18"

text \<open>Feature bits of \<^verbatim>\<open>virtio_config.h\<close> and of \<^verbatim>\<open>linux/vhost_types.h\<close> (the last one).\<close>

definition VIRTIO_F_NOTIFY_ON_EMPTY :: nat where "VIRTIO_F_NOTIFY_ON_EMPTY = 24"
definition VIRTIO_F_VERSION_1 :: nat where "VIRTIO_F_VERSION_1 = 32"
definition VHOST_F_LOG_ALL :: nat where "VHOST_F_LOG_ALL = 26"

section \<open>Messages\<close>

definition VHOST_USER_VERSION :: u32 where "VHOST_USER_VERSION = 1"
definition VHOST_USER_VERSION_MASK :: u32 where "VHOST_USER_VERSION_MASK = 3"
definition VHOST_USER_REPLY_MASK :: u32 where "VHOST_USER_REPLY_MASK = 4"
definition VHOST_USER_NEED_REPLY_MASK :: u32 where "VHOST_USER_NEED_REPLY_MASK = 8"
definition VHOST_USER_VRING_IDX_MASK :: u64 where "VHOST_USER_VRING_IDX_MASK = 255"
definition VHOST_USER_VRING_NOFD_MASK :: u64 where "VHOST_USER_VRING_NOFD_MASK = 256"

text \<open>
  \<open>struct VhostUserMsg\<close>. The union \<open>payload\<close> is its bytes, from address 0 on; its members are read
  and written at their offsets below, so a handler that reads one member after another part
  of the union was written sees what the C code sees. \<open>m_fds\<close> is \<open>fds[0 .. fd_num)\<close>.
\<close>

record VhostUserMsg =
  m_request :: u32
  m_flags :: u32
  m_size :: u32
  m_payload :: mem
  m_fds :: "int list"
  m_data :: "mem option"

definition payload_size :: u32 where
  "payload_size = 272"

definition payload_u64 :: "VhostUserMsg \<Rightarrow> u64" where
  "payload_u64 m = load64 (m_payload m) 0"

text \<open>\<open>struct vhost_vring_state\<close>\<close>

definition state_index :: "VhostUserMsg \<Rightarrow> u32" where
  "state_index m = load32 (m_payload m) 0"

definition state_num :: "VhostUserMsg \<Rightarrow> u32" where
  "state_num m = load32 (m_payload m) 4"

text \<open>\<open>struct vhost_vring_addr\<close>\<close>

record vhost_vring_addr =
  va_index :: u32
  va_flags :: u32
  va_desc_user_addr :: u64
  va_used_user_addr :: u64
  va_avail_user_addr :: u64
  va_log_guest_addr :: u64

definition payload_addr :: "VhostUserMsg \<Rightarrow> vhost_vring_addr" where
  "payload_addr m =
     (let p = m_payload m
      in \<lparr>va_index = load32 p 0, va_flags = load32 p 4, va_desc_user_addr = load64 p 8,
          va_used_user_addr = load64 p 16, va_avail_user_addr = load64 p 24,
          va_log_guest_addr = load64 p 32\<rparr>)"

text \<open>\<open>VhostUserMemoryRegion\<close>: 32 bytes, at 8 in a memory region message and from 8 on in a table.\<close>

record VhostUserMemoryRegion =
  mr_guest_phys_addr :: u64
  mr_memory_size :: u64
  mr_userspace_addr :: u64
  mr_mmap_offset :: u64

definition load_mem_region :: "mem \<Rightarrow> u64 \<Rightarrow> VhostUserMemoryRegion" where
  "load_mem_region p a =
     \<lparr>mr_guest_phys_addr = load64 p a, mr_memory_size = load64 p (a + 8),
      mr_userspace_addr = load64 p (a + 16), mr_mmap_offset = load64 p (a + 24)\<rparr>"

definition memory_nregions :: "VhostUserMsg \<Rightarrow> u32" where
  "memory_nregions m = load32 (m_payload m) 0"

definition memory_region :: "VhostUserMsg \<Rightarrow> nat \<Rightarrow> VhostUserMemoryRegion" where
  "memory_region m i = load_mem_region (m_payload m) (8 + 32 * of_nat i)"

definition memreg_region :: "VhostUserMsg \<Rightarrow> VhostUserMemoryRegion" where
  "memreg_region m = load_mem_region (m_payload m) 8"

definition log_mmap_size :: "VhostUserMsg \<Rightarrow> u64" where
  "log_mmap_size m = load64 (m_payload m) 0"

definition log_mmap_offset :: "VhostUserMsg \<Rightarrow> u64" where
  "log_mmap_offset m = load64 (m_payload m) 8"

section \<open>The device\<close>

record VuDevRegion =
  r_gpa :: u64
  r_size :: u64
  r_qva :: u64
  r_mmap_offset :: u64
  r_mmap_addr :: u64

record VuRing =
  ring_num :: u32
  ring_desc :: u64
  ring_avail :: u64
  ring_used :: u64
  ring_log_guest_addr :: u64
  ring_flags :: u32

record VuVirtqInflightDesc =
  ifd_index :: u16
  ifd_counter :: u64

text \<open>
  Pointers are addresses, 0 is \<open>NULL\<close>; \<open>vq_resubmit_list\<close> is \<open>None\<close> for \<open>NULL\<close>; \<open>vq_handler\<close> is \<open>True\<close>
  when a handler is installed.
\<close>

record VuVirtq =
  vq_vring :: VuRing
  vq_inflight :: u64
  vq_resubmit_list :: "VuVirtqInflightDesc list option"
  vq_resubmit_num :: u16
  vq_counter :: u64
  vq_last_avail_idx :: u16
  vq_shadow_avail_idx :: u16
  vq_used_idx :: u16
  vq_signalled_used :: u16
  vq_signalled_used_valid :: bool
  vq_notification :: bool
  vq_inuse :: u32
  vq_handler :: bool
  vq_call_fd :: int
  vq_kick_fd :: int
  vq_err_fd :: int
  vq_enable :: u32
  vq_started :: bool
  vq_vra :: vhost_vring_addr

text \<open>
  The calls out of the library. The last three are not calls: they are the stores to the used ring that
  publish an element, with the write barrier between them, recorded because the driver sees them in this order.
\<close>

datatype vu_event =
    EvPanic string
  | EvClose int
  | EvMmap u64 int u64
  | EvMunmap u64 u64
  | EvMalloc u64
  | EvEventfdWrite int
  | EvEventfdRead int
  | EvSetWatch int nat
  | EvRemoveWatch int
  | EvSend int VhostUserMsg
  | EvWrite int u32
  | EvRecv int
  | EvSetFeatures u64
  | EvSetProtocolFeatures u64
  | EvQueueStarted nat bool
  | EvHandler nat
  | EvMemfd u64
  | EvSyscall string
  | EvSinkEmit string
  | EvUsedElem u64 vring_used_elem
  | EvWmb
  | EvUsedIdx u64 u16

text \<open>
  What \<open>recvmsg\<close> and the \<open>read\<close> after it give: a failed \<open>recvmsg\<close>, end of file (the message is
  left as it was), or a header (request, flags, size) with the descriptors of the ancillary
  data, the value the \<open>read\<close> of the payload returns and the bytes it reads.
\<close>

datatype recv_result =
    RecvFailed
  | RecvEof
  | RecvHeader u32 u32 u32 "int list" int mem

record VuDevInflightInfo =
  ifi_fd :: int
  ifi_addr :: u64
  ifi_size :: u64

text \<open>
  \<open>dv_regions\<close> is the array \<open>regions[VHOST_USER_MAX_RAM_SLOTS]\<close>. The last five fields are not in the
  C struct: the process's memory, what is on the stack where a function has an uninitialised
  buffer, the calls made so far, and what calls return.
\<close>

record VuDev =
  dv_sock :: int
  dv_nregions :: u32
  dv_regions :: "VuDevRegion list"
  dv_vq :: "VuVirtq list"
  dv_inflight_info :: VuDevInflightInfo
  dv_log_call_fd :: int
  dv_backend_fd :: int
  dv_log_size :: u64
  dv_log_table :: u64
  dv_features :: u64
  dv_protocol_features :: u64
  dv_broken :: bool
  dv_max_queues :: u16
  dv_postcopy_ufd :: int
  dv_postcopy_listening :: bool
  dv_mem :: mem
  dv_stack :: mem
  dv_trace :: "vu_event list"
  dv_sys :: "nat \<Rightarrow> int"
  dv_recv :: "nat \<Rightarrow> recv_result"

text \<open>Make a call: record it and read what it returns.\<close>

definition vu_call :: "VuDev \<Rightarrow> vu_event \<Rightarrow> int \<times> VuDev" where
  "vu_call dev e = (dv_sys dev (length (dv_trace dev)), dev\<lparr>dv_trace := dv_trace dev @ [e]\<rparr>)"

definition vu_emit :: "VuDev \<Rightarrow> vu_event \<Rightarrow> VuDev" where
  "vu_emit dev e = dev\<lparr>dv_trace := dv_trace dev @ [e]\<rparr>"

section \<open>Features and panic\<close>

definition has_feature :: "u64 \<Rightarrow> nat \<Rightarrow> bool" where
  "has_feature features fbit \<longleftrightarrow> features AND push_bit fbit 1 \<noteq> 0"

definition vu_has_feature :: "VuDev \<Rightarrow> nat \<Rightarrow> bool" where
  "vu_has_feature dev fbit = has_feature (dv_features dev) fbit"

definition vu_has_protocol_feature :: "VuDev \<Rightarrow> nat \<Rightarrow> bool" where
  "vu_has_protocol_feature dev fbit = has_feature (dv_protocol_features dev) fbit"

text \<open>\<open>vu_panic\<close> marks the device broken and calls the panic callback; execution goes on after it.\<close>

definition vu_panic :: "VuDev \<Rightarrow> string \<Rightarrow> VuDev" where
  "vu_panic dev msg = vu_emit (dev\<lparr>dv_broken := True\<rparr>) (EvPanic msg)"

lemma has_feature_bit: "fbit < 64 \<Longrightarrow> has_feature f fbit \<longleftrightarrow> bit f fbit"
  by (auto simp: has_feature_def bit_iff_and_push_bit_not_eq_0)

lemma vu_panic_simps [simp]:
  "dv_broken (vu_panic dev m)"
  "dv_mem (vu_panic dev m) = dv_mem dev"
  "dv_regions (vu_panic dev m) = dv_regions dev"
  "dv_nregions (vu_panic dev m) = dv_nregions dev"
  "dv_features (vu_panic dev m) = dv_features dev"
  "dv_protocol_features (vu_panic dev m) = dv_protocol_features dev"
  "dv_stack (vu_panic dev m) = dv_stack dev"
  "dv_trace (vu_panic dev m) = dv_trace dev @ [EvPanic m]"
  by (simp_all add: vu_panic_def vu_emit_def)

section \<open>Address translation\<close>

text \<open>
  The loop over \<open>regions[0 .. nregions)\<close>. The result is the pointer, 0 for \<open>NULL\<close>, with the
  length \<open>*plen\<close> after the call.
\<close>

fun gpa_search :: "VuDevRegion list \<Rightarrow> u64 \<Rightarrow> u64 \<Rightarrow> u64 \<times> u64" where
  "gpa_search [] plen guest_addr = (0, plen)"
| "gpa_search (r # rs) plen guest_addr =
     (if r_gpa r \<le> guest_addr \<and> guest_addr < r_gpa r + r_size r
      then (guest_addr - r_gpa r + r_mmap_addr r + r_mmap_offset r,
            if guest_addr + plen > r_gpa r + r_size r
            then r_gpa r + r_size r - guest_addr else plen)
      else gpa_search rs plen guest_addr)"

definition vu_gpa_to_va :: "VuDev \<Rightarrow> u64 \<Rightarrow> u64 \<Rightarrow> u64 \<times> u64" where
  "vu_gpa_to_va dev plen guest_addr =
     (if plen = 0 then (0, plen)
      else gpa_search (take (unat (dv_nregions dev)) (dv_regions dev)) plen guest_addr)"

fun qva_search :: "VuDevRegion list \<Rightarrow> u64 \<Rightarrow> u64" where
  "qva_search [] qemu_addr = 0"
| "qva_search (r # rs) qemu_addr =
     (if r_qva r \<le> qemu_addr \<and> qemu_addr < r_qva r + r_size r
      then qemu_addr - r_qva r + r_mmap_addr r + r_mmap_offset r
      else qva_search rs qemu_addr)"

definition qva_to_va :: "VuDev \<Rightarrow> u64 \<Rightarrow> u64" where
  "qva_to_va dev qemu_addr = qva_search (take (unat (dv_nregions dev)) (dv_regions dev)) qemu_addr"

section \<open>The dirty page log\<close>

definition vu_log_kick :: "VuDev \<Rightarrow> VuDev" where
  "vu_log_kick dev =
     (if dv_log_call_fd dev \<noteq> -1
      then (let (rc, dev1) = vu_call dev (EvEventfdWrite (dv_log_call_fd dev))
            in if rc < 0 then vu_panic dev1 ''Error writing eventfd'' else dev1)
      else dev)"

definition vu_log_page :: "mem \<Rightarrow> u64 \<Rightarrow> u64 \<Rightarrow> mem" where
  "vu_log_page m log_table page =
     (let a = log_table + page div 8
      in m(a := m a OR push_bit (unat (page mod 8)) 1))"

text \<open>
  \<open>while (page * VHOST_LOG_PAGE < address + length)\<close>, with fuel. The loop passes over
  \<open>length div 4096 + 2\<close> pages at most; only where \<open>address + length\<close> lies in the very last page of
  the address space does \<open>page * VHOST_LOG_PAGE\<close> wrap around and the C loop not end.
\<close>

fun log_pages :: "nat \<Rightarrow> mem \<Rightarrow> u64 \<Rightarrow> u64 \<Rightarrow> u64 \<Rightarrow> mem trapping" where
  "log_pages fuel m log_table page end =
     (if \<not> page * VHOST_LOG_PAGE < end then Inr m
      else (case fuel of
              0 \<Rightarrow> Inl Diverges
            | Suc n \<Rightarrow> log_pages n (vu_log_page m log_table page) log_table (page + 1) end))"

declare log_pages.simps [simp del]

definition vu_log_write :: "VuDev \<Rightarrow> u64 \<Rightarrow> u64 \<Rightarrow> VuDev trapping" where
  "vu_log_write dev address len =
     (if \<not> vu_has_feature dev VHOST_F_LOG_ALL \<or> dv_log_table dev = 0 \<or> len = 0 then Inr dev
      else if \<not> dv_log_size dev > (address + len - 1) div VHOST_LOG_PAGE div 8 then Inl AssertFailed
      else tbind (log_pages (unat (len div VHOST_LOG_PAGE) + 2) (dv_mem dev) (dv_log_table dev)
                    (address div VHOST_LOG_PAGE) (address + len))
             (\<lambda>m. Inr (vu_log_kick (dev\<lparr>dv_mem := m\<rparr>))))"

section \<open>Sending and receiving messages\<close>

definition vmsg_close_fds :: "VuDev \<Rightarrow> VhostUserMsg \<Rightarrow> VuDev" where
  "vmsg_close_fds dev m = fold (\<lambda>fd d. vu_emit d (EvClose fd)) (m_fds m) dev"

definition vmsg_set_reply_u64 :: "VhostUserMsg \<Rightarrow> u64 \<Rightarrow> VhostUserMsg" where
  "vmsg_set_reply_u64 m val =
     m\<lparr>m_flags := 0, m_size := 8, m_payload := store64 (m_payload m) 0 val, m_fds := []\<rparr>"

text \<open>\<open>read (fd, &payload, size)\<close> overwrites the first \<open>size\<close> bytes of the union.\<close>

definition read_over :: "mem \<Rightarrow> u32 \<Rightarrow> mem \<Rightarrow> mem" where
  "read_over old n new = (\<lambda>x. if x < ucast n then new x else old x)"

text \<open>
  The result is the return value with the device and the message. \<open>fd_size\<close>, which the assertion
  compares with a number of regions, is four bytes per descriptor.
\<close>

definition vu_message_read_default ::
    "VuDev \<Rightarrow> int \<Rightarrow> VhostUserMsg \<Rightarrow> (bool \<times> VuDev \<times> VhostUserMsg) trapping"
where
  "vu_message_read_default dev conn_fd vmsg =
     (let res = dv_recv dev (length (dv_trace dev)); dev0 = vu_emit dev (EvRecv conn_fd)
      in case res of
        RecvFailed \<Rightarrow> Inr (False, vu_panic dev0 ''Error while recvmsg'', vmsg)
      | RecvEof \<Rightarrow>
          (let m = vmsg\<lparr>m_fds := []\<rparr>
           in if m_size m > payload_size
              then Inr (False, vu_panic dev0 ''Error: too big message request'', m)
              else if m_size m \<noteq> 0
              then Inr (False, vu_panic dev0 ''Error while reading'', m)
              else Inr (True, dev0, m))
      | RecvHeader req flags n fds rc bytes \<Rightarrow>
          (let m = vmsg\<lparr>m_request := req, m_flags := flags, m_size := n, m_fds := fds\<rparr>
           in if fds \<noteq> [] \<and> \<not> 4 * length fds < VHOST_MEMORY_BASELINE_NREGIONS then Inl AssertFailed
              else if n > payload_size
              then (let dev1 = vu_panic dev0 ''Error: too big message request''
                    in Inr (False, vmsg_close_fds dev1 m, m))
              else if n = 0 then Inr (True, dev0, m)
              else if rc \<le> 0
              then (let dev1 = vu_panic dev0 ''Error while reading''
                    in Inr (False, vmsg_close_fds dev1 m, m))
              else if word_of_int rc \<noteq> n then Inl AssertFailed
              else Inr (True, dev0, m\<lparr>m_payload := read_over (m_payload m) n bytes\<rparr>)))"

definition vu_message_write :: "VuDev \<Rightarrow> int \<Rightarrow> VhostUserMsg \<Rightarrow> (bool \<times> VuDev) trapping" where
  "vu_message_write dev conn_fd vmsg =
     (if \<not> length (m_fds vmsg) \<le> VHOST_MEMORY_BASELINE_NREGIONS then Inl AssertFailed
      else
        let (rc, dev1) = vu_call dev (EvSend conn_fd vmsg);
            (rc', dev2) = (if m_size vmsg \<noteq> 0 then vu_call dev1 (EvWrite conn_fd (m_size vmsg))
                           else (rc, dev1))
        in if rc' \<le> 0 then Inr (False, vu_panic dev2 ''Error while writing'')
           else Inr (True, dev2))"

definition reply_flags :: "u32 \<Rightarrow> u32" where
  "reply_flags f = (f AND NOT VHOST_USER_VERSION_MASK) OR VHOST_USER_VERSION OR VHOST_USER_REPLY_MASK"

definition vu_send_reply :: "VuDev \<Rightarrow> int \<Rightarrow> VhostUserMsg \<Rightarrow> (bool \<times> VuDev) trapping" where
  "vu_send_reply dev conn_fd vmsg =
     vu_message_write dev conn_fd (vmsg\<lparr>m_flags := reply_flags (m_flags vmsg)\<rparr>)"

text \<open>\<open>msg_reply\<close> is not initialised: its bytes are those of the stack.\<close>

definition stack_msg :: "VuDev \<Rightarrow> VhostUserMsg" where
  "stack_msg dev =
     \<lparr>m_request = load32 (dv_stack dev) 0, m_flags = load32 (dv_stack dev) 4,
      m_size = load32 (dv_stack dev) 8, m_payload = (\<lambda>x. dv_stack dev (x + 12)), m_fds = [],
      m_data = None\<rparr>"

definition vu_process_message_reply :: "VuDev \<Rightarrow> VhostUserMsg \<Rightarrow> (bool \<times> VuDev) trapping" where
  "vu_process_message_reply dev vmsg =
     (if m_flags vmsg AND VHOST_USER_NEED_REPLY_MASK = 0 then Inr (True, dev)
      else tbind (vu_message_read_default dev (dv_backend_fd dev) (stack_msg dev))
             (\<lambda>(ok, dev1, msg_reply).
                if \<not> ok then Inr (False, dev1)
                else if m_request msg_reply \<noteq> m_request vmsg then Inr (False, dev1)
                else Inr (payload_u64 msg_reply = 0, dev1)))"

section \<open>Facts about translation\<close>

text \<open>
  Regions that do not wrap around, neither in the guest's nor in the process's addresses, that
  are mapped above address 0, and that leave 4 GiB (the longest buffer) free above them, so that
  \<open>guest_addr + *plen\<close> does not wrap either.
\<close>

definition region_ok :: "VuDevRegion \<Rightarrow> bool" where
  "region_ok r \<longleftrightarrow>
     uint (r_gpa r) + uint (r_size r) + 2 ^ 32 \<le> 2 ^ 64 \<and>
     uint (r_mmap_addr r) + uint (r_mmap_offset r) + uint (r_size r) < 2 ^ 64 \<and>
     r_mmap_addr r \<noteq> 0"

definition regions_ok :: "VuDev \<Rightarrow> bool" where
  "regions_ok dev \<longleftrightarrow> list_all region_ok (take (unat (dv_nregions dev)) (dv_regions dev))"

text \<open>The guest addresses a region holds, and where it keeps an address.\<close>

definition in_region :: "VuDevRegion \<Rightarrow> int \<Rightarrow> bool" where
  "in_region r a \<longleftrightarrow> uint (r_gpa r) \<le> a \<and> a < uint (r_gpa r) + uint (r_size r)"

definition host_of :: "VuDevRegion \<Rightarrow> int \<Rightarrow> int" where
  "host_of r a = a - uint (r_gpa r) + uint (r_mmap_addr r) + uint (r_mmap_offset r)"

lemma uint64_range: "0 \<le> uint (a :: u64)" "uint (a :: u64) < 18446744073709551616"
  using uint_lt2p [of a] by simp_all

lemma uint_add_no_wrap:
  fixes a b :: u64
  shows "uint a + uint b < 2 ^ 64 \<Longrightarrow> uint (a + b) = uint a + uint b"
  by (simp add: uint_word_ariths)

lemma uint_sub_no_wrap:
  fixes a b :: u64
  assumes "b \<le> a"
  shows "uint (a - b) = uint a - uint b"
proof -
  have "0 \<le> uint a - uint b" "uint a - uint b < 18446744073709551616"
    using assms uint64_range [of a] uint64_range [of b] by (simp_all only: word_le_def)
  then show ?thesis by (simp add: uint_word_ariths)
qed

lemma in_region_iff:
  assumes "region_ok r"
  shows "r_gpa r \<le> a \<and> a < r_gpa r + r_size r \<longleftrightarrow> in_region r (uint a)"
  using assms by (auto simp: in_region_def region_ok_def word_le_def word_less_def uint_add_no_wrap)

lemma host_of_word:
  assumes "region_ok r" and "in_region r (uint a)"
  shows "uint (a - r_gpa r + r_mmap_addr r + r_mmap_offset r) = host_of r (uint a)"
proof -
  have "r_gpa r \<le> a" using assms by (simp add: in_region_def word_le_def)
  then have d: "uint (a - r_gpa r) = uint a - uint (r_gpa r)" by (rule uint_sub_no_wrap)
  note range = uint64_range [of "r_mmap_offset r"] uint64_range [of "r_mmap_addr r"]
  have b: "uint a - uint (r_gpa r) + uint (r_mmap_addr r) + uint (r_mmap_offset r) < 2 ^ 64"
    using assms by (simp add: region_ok_def in_region_def)
  then have "uint (a - r_gpa r) + uint (r_mmap_addr r) < 2 ^ 64" using d range by linarith
  then have e: "uint (a - r_gpa r + r_mmap_addr r) = uint a - uint (r_gpa r) + uint (r_mmap_addr r)"
    using d by (simp only: uint_add_no_wrap)
  show ?thesis using b e by (simp only: uint_add_no_wrap host_of_def)
qed

lemma gpa_search_progress:
  assumes "gpa_search rs len a = (p, len')" and "len \<noteq> 0" and "p \<noteq> 0"
  shows "0 < len'" and "len' \<le> len"
proof -
  have "0 < len' \<and> len' \<le> len"
    using assms
  proof (induction rs)
    case (Cons r rs)
    show ?case
    proof (cases "r_gpa r \<le> a \<and> a < r_gpa r + r_size r \<and> a + len > r_gpa r + r_size r")
      case True
      let ?e = "r_gpa r + r_size r"
      from True have e: "uint a < uint ?e" "uint ?e < uint (a + len)" by (simp_all add: word_less_def)
      have nw: "uint a + uint len < 2 ^ 64"
        using e uint_plus_if' [of a len] uint64_range [of len] by (simp split: if_splits)
      from e nw have "uint (?e - a) = uint ?e - uint a"
        by (intro uint_sub_no_wrap) (simp add: word_le_def)
      with e nw have "0 < ?e - a" "?e - a \<le> len"
        by (simp_all add: word_less_def word_le_def uint_add_no_wrap)
      with Cons.prems True show ?thesis by simp
    next
      case False
      with Cons show ?thesis by (auto simp: word_gt_0 split: if_splits)
    qed
  qed simp
  then show "0 < len'" "len' \<le> len" by auto
qed

lemma vu_gpa_to_va_progress:
  assumes "vu_gpa_to_va dev len a = (p, len')" and "p \<noteq> 0"
  shows "0 < len'" and "len' \<le> len"
  using assms gpa_search_progress [of _ len a p len']
  by (auto simp: vu_gpa_to_va_def split: if_splits)

lemma vu_gpa_to_va_shrinks:
  assumes "(p, len') = vu_gpa_to_va dev len a" and "p \<noteq> 0"
  shows "unat (len - len') < unat len"
proof -
  from vu_gpa_to_va_progress [OF assms(1) [symmetric] assms(2)]
  have "unat (len - len') = unat len - unat len'" "0 < unat len'" "unat len' \<le> unat len"
    by (simp_all add: unat_sub word_less_nat_alt word_le_nat_alt)
  then show ?thesis by simp
qed

lemma gpa_search_hit:
  "gpa_search rs len a = (p, len') \<Longrightarrow> p \<noteq> 0 \<Longrightarrow> list_all region_ok rs \<Longrightarrow>
     \<exists>r \<in> set rs. in_region r (uint a)"
  by (induction rs) (auto simp: in_region_iff split: if_splits)

text \<open>
  A translation that succeeds stays inside one region, provided the requested range does not
  itself run past the end of the address space.
\<close>

lemma gpa_search_inside:
  assumes "gpa_search rs len a = (p, len')" and "p \<noteq> 0" and "list_all region_ok rs"
    and "uint a + uint len < 2 ^ 64"
  shows "\<exists>r \<in> set rs. in_region r (uint a) \<and> uint p = host_of r (uint a) \<and>
    uint len' = min (uint len) (uint (r_gpa r) + uint (r_size r) - uint a)"
  using assms
proof (induction rs)
  case (Cons r rs)
  show ?case
  proof (cases "in_region r (uint a)")
    case True
    from Cons.prems have ok: "region_ok r" by simp
    let ?e = "r_gpa r + r_size r"
    have e: "uint ?e = uint (r_gpa r) + uint (r_size r)"
      using ok by (simp add: region_ok_def uint_add_no_wrap)
    have "a \<le> ?e" using True e by (simp add: in_region_def word_le_def)
    then have "uint (?e - a) = uint (r_gpa r) + uint (r_size r) - uint a"
      using e by (simp add: uint_sub_no_wrap)
    moreover have "a + len > ?e \<longleftrightarrow> uint a + uint len > uint (r_gpa r) + uint (r_size r)"
      using Cons.prems(4) e by (simp add: word_less_def uint_add_no_wrap)
    moreover have "r_gpa r \<le> a \<and> a < ?e" using True in_region_iff [OF ok] by blast
    ultimately have "uint p = host_of r (uint a)"
      "uint len' = min (uint len) (uint (r_gpa r) + uint (r_size r) - uint a)"
      using Cons.prems(1) host_of_word [OF ok True] by (auto split: if_splits)
    with True show ?thesis by auto
  next
    case False
    with Cons in_region_iff [of r a] show ?thesis by auto
  qed
qed simp

lemma vu_gpa_to_va_inside:
  assumes "vu_gpa_to_va dev len a = (p, len')" and "p \<noteq> 0" and "regions_ok dev"
    and "uint a + uint len < 2 ^ 64"
  obtains r where "r \<in> set (take (unat (dv_nregions dev)) (dv_regions dev))"
    and "in_region r (uint a)" and "uint p = host_of r (uint a)"
    and "uint len' = min (uint len) (uint (r_gpa r) + uint (r_size r) - uint a)"
  using assms gpa_search_inside [of _ len a p len']
  by (auto simp: vu_gpa_to_va_def regions_ok_def split: if_splits)

section \<open>A concrete device\<close>

text \<open>
  For the witnesses of the theories above this one: a queue of four descriptors in one region
  (guest addresses from \<open>0x1000\<close> on, mapped at \<open>0x5000\<close>), with the descriptor table at \<open>0x5000\<close>, the
  available ring at \<open>0x5040\<close>, the used ring at \<open>0x5080\<close>, and two available heads, 2 (a readable
  buffer chained to a writable one) and 0.
\<close>

definition demo_mem :: mem where
  "demo_mem =
     bytes_at 0x5000 [0,0x11,0,0,0,0,0,0, 4,0,0,0, 0,0, 0,0]
     (bytes_at 0x5010 [0x40,0x11,0,0,0,0,0,0, 8,0,0,0, 2,0, 0,0]
     (bytes_at 0x5020 [0x20,0x11,0,0,0,0,0,0, 3,0,0,0, 1,0, 1,0]
     (bytes_at 0x5040 [0,0, 2,0, 2,0, 0,0, 0,0, 0,0, 1,0] (\<lambda>_. 0))))"

definition demo_dev :: VuDev where
  "demo_dev =
     \<lparr>dv_sock = 5, dv_nregions = 1,
      dv_regions = [\<lparr>r_gpa = 0x1000, r_size = 0x1000, r_qva = 0x9000, r_mmap_offset = 0,
                     r_mmap_addr = 0x5000\<rparr>],
      dv_vq = [], dv_inflight_info = \<lparr>ifi_fd = -1, ifi_addr = 0, ifi_size = 0\<rparr>,
      dv_log_call_fd = -1, dv_backend_fd = -1, dv_log_size = 0, dv_log_table = 0,
      dv_features = 0, dv_protocol_features = 0, dv_broken = False, dv_max_queues = 2,
      dv_postcopy_ufd = 0, dv_postcopy_listening = False, dv_mem = demo_mem, dv_stack = (\<lambda>_. 0),
      dv_trace = [], dv_sys = (\<lambda>_. 1), dv_recv = (\<lambda>_. RecvFailed)\<rparr>"

end
