(* ===== verification/VuLog.thy ===== *)
theory VuLog
  imports VuDev
begin

text \<open>
  The dirty page log of \<open>VuDev\<close>: which bits \<open>vu_log_write\<close> sets, and that it touches nothing else.
\<close>

text \<open>The bit of page \<open>q\<close> in the log at \<open>tbl\<close>.\<close>

definition page_bit :: "mem \<Rightarrow> u64 \<Rightarrow> u64 \<Rightarrow> bool" where
  "page_bit m tbl q \<longleftrightarrow> bit (m (tbl + q div 8)) (unat (q mod 8))"

lemma mod8_less: "unat ((q :: u64) mod 8) < 8"
  by (simp add: unat_mod)

lemma page_eq_iff: "q = p \<longleftrightarrow> q div 8 = p div 8 \<and> unat (q mod 8) = unat ((p :: u64) mod 8)"
  by (metis div_mult_mod_eq word_unat_eq_iff)

lemma page_bit_log_page: "page_bit (vu_log_page m tbl p) tbl q \<longleftrightarrow> page_bit m tbl q \<or> q = p"
proof (cases "q div 8 = p div 8")
  case True
  then show ?thesis
    using mod8_less [of q] mod8_less [of p]
    by (auto simp: page_bit_def vu_log_page_def Let_def bit_simps page_eq_iff [of q p])
next
  case False
  then show ?thesis by (auto simp: page_bit_def vu_log_page_def Let_def)
qed

lemma vu_log_page_outside: "x \<noteq> tbl + p div 8 \<Longrightarrow> vu_log_page m tbl p x = m x"
  by (simp add: vu_log_page_def Let_def)

lemma page_times:
  "unat p * 4096 < 2 ^ 64 \<Longrightarrow> unat (p * VHOST_LOG_PAGE) = unat p * 4096"
  by (simp add: VHOST_LOG_PAGE_def unat_word_ariths)

lemma log_pages_marks:
  assumes "unat en + 4096 \<le> 2 ^ 64" and "unat p * 4096 < 2 ^ 64"
    and "unat en \<le> (unat p + fuel) * 4096"
  shows "\<exists>m'. log_pages fuel m tbl p en = Inr m' \<and>
    (\<forall>q. page_bit m' tbl q \<longleftrightarrow> page_bit m tbl q \<or> unat p \<le> unat q \<and> unat q * 4096 < unat en) \<and>
    (\<forall>x. (\<forall>q. unat p \<le> unat q \<and> unat q * 4096 < unat en \<longrightarrow> x \<noteq> tbl + q div 8) \<longrightarrow> m' x = m x)"
  using assms
proof (induction fuel arbitrary: m p)
  case 0
  then have "\<not> p * VHOST_LOG_PAGE < en" by (simp add: word_less_nat_alt page_times)
  moreover have "\<not> (unat p \<le> unat q \<and> unat q * 4096 < unat en)" for q :: u64
    using "0.prems"(3) by auto
  ultimately show ?case by (auto simp: log_pages.simps)
next
  case (Suc fuel)
  show ?case
  proof (cases "unat p * 4096 < unat en")
    case False
    then have "\<not> p * VHOST_LOG_PAGE < en" using Suc.prems(2) by (simp add: word_less_nat_alt page_times)
    moreover have "\<not> (unat p \<le> unat q \<and> unat q * 4096 < unat en)" for q :: u64
      using False by auto
    ultimately show ?thesis by (auto simp: log_pages.simps)
  next
    case True
    then have go: "p * VHOST_LOG_PAGE < en" using Suc.prems(2) by (simp add: word_less_nat_alt page_times)
    have p1: "unat (p + 1) = unat p + 1" using True Suc.prems(1) by (simp add: unat_word_ariths)
    obtain m' where m': "log_pages fuel (vu_log_page m tbl p) tbl (p + 1) en = Inr m'"
      "\<And>q. page_bit m' tbl q \<longleftrightarrow> page_bit (vu_log_page m tbl p) tbl q \<or>
         unat p + 1 \<le> unat q \<and> unat q * 4096 < unat en"
      "\<And>x. (\<forall>q. unat p + 1 \<le> unat q \<and> unat q * 4096 < unat en \<longrightarrow> x \<noteq> tbl + q div 8) \<Longrightarrow>
         m' x = vu_log_page m tbl p x"
      using Suc.IH [of "p + 1" "vu_log_page m tbl p"] Suc.prems True p1 by auto
    have bits: "page_bit m' tbl q \<longleftrightarrow> page_bit m tbl q \<or> unat p \<le> unat q \<and> unat q * 4096 < unat en" for q
    proof -
      have "q = p \<or> unat p + 1 \<le> unat q \<longleftrightarrow> unat p \<le> unat q"
        by (auto simp: word_unat_eq_iff)
      then show ?thesis using m'(2) [of q] page_bit_log_page [of m tbl p q] True by blast
    qed
    have "m' x = m x" if x: "\<forall>q. unat p \<le> unat q \<and> unat q * 4096 < unat en \<longrightarrow> x \<noteq> tbl + q div 8" for x
    proof -
      have "x \<noteq> tbl + p div 8" using x True by blast
      moreover have "m' x = vu_log_page m tbl p x" using x by (intro m'(3)) simp
      ultimately show ?thesis by (simp add: vu_log_page_outside)
    qed
    with bits go m'(1) show ?thesis by (auto simp: log_pages.simps)
  qed
qed

lemma page_number: "unat (x div VHOST_LOG_PAGE) = unat x div 4096"
  by (simp add: VHOST_LOG_PAGE_def unat_div)

text \<open>The loop over the pages of a write, with the fuel the model gives it.\<close>

lemma log_pages_of_write:
  assumes "unat a + unat n + 4096 \<le> 2 ^ 64"
  obtains m' where "log_pages (unat (n div VHOST_LOG_PAGE) + 2) m t (a div VHOST_LOG_PAGE) (a + n) = Inr m'"
    and "\<And>q. page_bit m' t q \<longleftrightarrow> page_bit m t q \<or>
      unat a div 4096 \<le> unat q \<and> unat q * 4096 < unat a + unat n"
    and "\<And>x. (\<forall>q. unat a div 4096 \<le> unat q \<and> unat q * 4096 < unat a + unat n \<longrightarrow> x \<noteq> t + q div 8) \<Longrightarrow> m' x = m x"
proof -
  have an: "unat (a + n) = unat a + unat n" using assms by (simp add: unat_word_ariths)
  have lt: "x < (x div 4096 + 1) * 4096" for x :: nat
    using div_mult_mod_eq [of x 4096] mod_less_divisor [of 4096 x] by (simp add: algebra_simps)
  have "unat a + unat n \<le> (unat a div 4096 + (unat n div 4096 + 2)) * 4096"
    using lt [of "unat a"] lt [of "unat n"] by (simp add: algebra_simps)
  moreover have "unat a div 4096 * 4096 < 2 ^ 64" using assms by simp
  ultimately show ?thesis
    using log_pages_marks [of "a + n" "a div VHOST_LOG_PAGE" "unat (n div VHOST_LOG_PAGE) + 2" m t] assms an that
    by (auto simp: page_number)
qed

text \<open>
  C15: \<^bold>\<open>the dirty log marks exactly the pages written.\<close> With logging negotiated and a range that
  stays below the last page of the address space, \<open>vu_log_write\<close> fails its assertion if the last
  page of the range has no byte in the log; otherwise the loop ends, the bits of the pages the
  range touches are set and no other bit is changed, every byte written belongs to the log,
  and the rest of the device is as before but for the kick of the log descriptor.
\<close>
theorem log_write_marks_the_touched_pages:
  assumes "vu_has_feature dev VHOST_F_LOG_ALL" and "dv_log_table dev \<noteq> 0" and "n \<noteq> 0"
    and "unat a + unat n + 4096 \<le> 2 ^ 64"
  shows "if unat (dv_log_size dev) \<le> (unat a + unat n - 1) div 4096 div 8
    then vu_log_write dev a n = Inl AssertFailed
    else \<exists>m'. vu_log_write dev a n = Inr (vu_log_kick (dev\<lparr>dv_mem := m'\<rparr>)) \<and>
      (\<forall>q. page_bit m' (dv_log_table dev) q \<longleftrightarrow> page_bit (dv_mem dev) (dv_log_table dev) q \<or>
         unat a div 4096 \<le> unat q \<and> unat q \<le> (unat a + unat n - 1) div 4096) \<and>
      (\<forall>x. m' x \<noteq> dv_mem dev x \<longrightarrow>
         (\<exists>k. unat k < unat (dv_log_size dev) \<and> x = dv_log_table dev + k))"
proof -
  have n: "0 < unat n" using assms(3) by (simp add: unat_gt_0)
  have an: "unat (a + n) = unat a + unat n" using assms(4) by (simp add: unat_word_ariths)
  then have an1: "unat (a + n - 1) = unat a + unat n - 1"
    using n by (subst unat_minus_one) (auto simp: word_unat_eq_iff)
  have d8: "unat (x div 8) = unat x div 8" for x :: u64 by (simp add: unat_div)
  have chk: "dv_log_size dev > (a + n - 1) div VHOST_LOG_PAGE div 8 \<longleftrightarrow>
      \<not> unat (dv_log_size dev) \<le> (unat a + unat n - 1) div 4096 div 8"
    by (simp only: word_less_nat_alt d8 page_number an1 not_le)
  obtain m' where m': "log_pages (unat (n div VHOST_LOG_PAGE) + 2) (dv_mem dev) (dv_log_table dev)
        (a div VHOST_LOG_PAGE) (a + n) = Inr m'"
      "\<And>q. page_bit m' (dv_log_table dev) q \<longleftrightarrow> page_bit (dv_mem dev) (dv_log_table dev) q \<or>
         unat a div 4096 \<le> unat q \<and> unat q * 4096 < unat a + unat n"
      "\<And>x. (\<forall>q. unat a div 4096 \<le> unat q \<and> unat q * 4096 < unat a + unat n \<longrightarrow>
         x \<noteq> dv_log_table dev + q div 8) \<Longrightarrow> m' x = dv_mem dev x"
    using log_pages_of_write [OF assms(4)] by blast
  have upto: "q * 4096 < unat a + unat n \<longleftrightarrow> q \<le> (unat a + unat n - 1) div 4096" for q
    using n by (simp add: less_eq_div_iff_mult_less_eq) linarith
  show ?thesis
  proof (cases "unat (dv_log_size dev) \<le> (unat a + unat n - 1) div 4096 div 8")
    case True
    with chk assms show ?thesis by (simp add: vu_log_write_def)
  next
    case False
    have "vu_log_write dev a n = Inr (vu_log_kick (dev\<lparr>dv_mem := m'\<rparr>))"
      using assms(1-3) chk False m'(1) by (simp add: vu_log_write_def)
    moreover have "\<exists>k. unat k < unat (dv_log_size dev) \<and> x = dv_log_table dev + k"
      if x: "m' x \<noteq> dv_mem dev x" for x
    proof -
      from m'(3) [of x] x obtain q where q: "unat q * 4096 < unat a + unat n"
          "x = dv_log_table dev + q div 8" by blast
      from q(1) have "unat q div 8 \<le> (unat a + unat n - 1) div 4096 div 8"
        by (intro div_le_mono) (simp add: upto)
      then have "unat (q div 8) < unat (dv_log_size dev)" using False by (simp add: unat_div)
      with q(2) show ?thesis by blast
    qed
    ultimately show ?thesis using False m'(2) by (auto simp: upto)
  qed
qed

theorem log_write_marks_the_touched_pages_witness:
  "\<exists>m'. vu_log_write (demo_dev\<lparr>dv_features := 0x4000000, dv_log_table := 0x9000, dv_log_size := 8\<rparr>)
          0x3ffe 4 = Inr (demo_dev\<lparr>dv_features := 0x4000000, dv_log_table := 0x9000, dv_log_size := 8,
                           dv_mem := m'\<rparr>) \<and>
        page_bit m' 0x9000 3 \<and> page_bit m' 0x9000 4 \<and> \<not> page_bit m' 0x9000 5"
proof -
  let ?dev = "demo_dev\<lparr>dv_features := 0x4000000, dv_log_table := 0x9000, dv_log_size := 8\<rparr>"
  have f: "vu_has_feature ?dev VHOST_F_LOG_ALL"
    by (simp add: vu_has_feature_def has_feature_def VHOST_F_LOG_ALL_def)
  have clear: "\<not> page_bit demo_mem 0x9000 5" by code_simp
  have kick: "vu_log_kick (?dev\<lparr>dv_mem := m'\<rparr>) = ?dev\<lparr>dv_mem := m'\<rparr>" for m'
    by (simp add: vu_log_kick_def demo_dev_def)
  have mem: "dv_mem ?dev = demo_mem" by (simp add: demo_dev_def)
  from log_write_marks_the_touched_pages [OF f, of 4 "0x3ffe"] obtain m' where
    "vu_log_write ?dev 0x3ffe 4 = Inr (?dev\<lparr>dv_mem := m'\<rparr>)"
    "\<And>q. page_bit m' 0x9000 q \<longleftrightarrow> page_bit demo_mem 0x9000 q \<or> 3 \<le> unat q \<and> unat q \<le> 4"
    unfolding kick mem by auto
  with clear show ?thesis by (intro exI [of _ m']) simp
qed

end
