(* ===== verification/VuQueue.thy ===== *)
theory VuQueue
  imports VuDev
begin

text \<open>
  The virtqueue operations of \<^verbatim>\<open>project_1/vhost/libvhost-user.c\<close> (from \<open>vring_avail_flags\<close> to
  \<open>vu_queue_push\<close>). An operation takes the device and the queue it works on and returns both.
  Guest memory is read and written in \<open>dv_mem\<close>; the guest does not run between the accesses of
  one operation.
\<close>

section \<open>Reading the rings\<close>

text \<open>An \<open>int\<close> index is the sign extension of its 32 bits.\<close>

definition vring_avail_flags :: "VuDev \<Rightarrow> VuVirtq \<Rightarrow> u16" where
  "vring_avail_flags dev vq = avail_flags (dv_mem dev) (ring_avail (vq_vring vq))"

definition vring_avail_idx :: "VuDev \<Rightarrow> VuVirtq \<Rightarrow> u16 \<times> VuVirtq" where
  "vring_avail_idx dev vq =
     (let idx = avail_idx (dv_mem dev) (ring_avail (vq_vring vq))
      in (idx, vq\<lparr>vq_shadow_avail_idx := idx\<rparr>))"

definition vring_avail_ring :: "VuDev \<Rightarrow> VuVirtq \<Rightarrow> u32 \<Rightarrow> u16" where
  "vring_avail_ring dev vq i = avail_ring (dv_mem dev) (ring_avail (vq_vring vq)) (scast i)"

definition vring_get_used_event :: "VuDev \<Rightarrow> VuVirtq \<Rightarrow> u16" where
  "vring_get_used_event dev vq = vring_avail_ring dev vq (ring_num (vq_vring vq))"

text \<open>The result is \<open>None\<close> for \<open>-1\<close>.\<close>

definition virtqueue_num_heads ::
    "VuDev \<Rightarrow> VuVirtq \<Rightarrow> u32 \<Rightarrow> u16 option \<times> VuDev \<times> VuVirtq"
where
  "virtqueue_num_heads dev vq idx =
     (let (av, vq1) = vring_avail_idx dev vq;
          num_heads = ucast (ucast av - idx) :: u16
      in if ucast num_heads > ring_num (vq_vring vq1)
         then (None, vu_panic dev ''Guest moved used index'', vq1)
         else (Some num_heads, dev, vq1))"

definition virtqueue_get_head :: "VuDev \<Rightarrow> VuVirtq \<Rightarrow> u32 \<Rightarrow> (u32 option \<times> VuDev) trapping" where
  "virtqueue_get_head dev vq idx =
     (let num = ring_num (vq_vring vq)
      in if num = 0 then Inl DivByZero
         else
           let head = ucast (vring_avail_ring dev vq (idx mod num)) :: u32
           in if head \<ge> num then Inr (None, vu_panic dev ''Guest says index is available'')
              else Inr (Some head, dev))"

section \<open>Descriptor tables\<close>

text \<open>
  A walk reads its descriptors from the address space (the queue's own table, or an indirect
  table used in place) or from the local array \<open>desc_buf\<close> of 1024 descriptors, whose bytes are
  given as a memory of their own. A table in the address space comes with the number of its
  descriptors: the ring's size, or what the translated length of an indirect table holds. C does
  not check it; reading past it is the trap \<open>OutOfBounds\<close>.
\<close>

datatype desc_table = DescAt u64 u32 | DescBuf mem

definition read_desc :: "VuDev \<Rightarrow> desc_table \<Rightarrow> u32 \<Rightarrow> vring_desc trapping" where
  "read_desc dev tbl i =
     (case tbl of
        DescAt p n \<Rightarrow> if p = 0 then Inl NullDeref
                      else if \<not> i < n then Inl OutOfBounds
                      else Inr (load_desc (dv_mem dev) p (scast i))
      | DescBuf b \<Rightarrow> if unat i < VIRTQUEUE_MAX_SIZE then Inr (load_desc b 0 (ucast i))
                     else Inl OutOfBounds)"

definition DESC_BUF_BYTES :: u64 where
  "DESC_BUF_BYTES = 16384"

text \<open>\<open>memcpy (buf + off, src, n)\<close>\<close>

definition copy_in :: "mem \<Rightarrow> u64 \<Rightarrow> mem \<Rightarrow> u64 \<Rightarrow> u64 \<Rightarrow> mem" where
  "copy_in buf off m src n = (\<lambda>x. if x - off < n then m (src + (x - off)) else buf x)"

text \<open>
  The loop of \<open>virtqueue_read_indirect_desc\<close>; \<open>off\<close> is the byte offset of \<open>desc\<close>, which \<open>desc += read_len\<close>
  moves by \<open>read_len\<close> descriptors.
\<close>

function (sequential) read_indirect_loop ::
    "VuDev \<Rightarrow> mem \<Rightarrow> u64 \<Rightarrow> u64 \<Rightarrow> u64 \<Rightarrow> mem option trapping"
where
  "read_indirect_loop dev buf off addr len =
     (if len = 0 then Inr (Some buf)
      else
        let (p, read_len) = vu_gpa_to_va dev len addr
        in if p = 0 then Inr None
           else if unat off + unat read_len > unat DESC_BUF_BYTES then Inl OutOfBounds
           else read_indirect_loop dev (copy_in buf off (dv_mem dev) p read_len)
                  (off + 16 * read_len) (addr + read_len) (len - read_len))"
  by pat_completeness auto
termination
  by (relation "measure (\<lambda>(dev, buf, off, addr, len). unat len)")
     (auto intro: vu_gpa_to_va_shrinks)

declare read_indirect_loop.simps [simp del]

definition virtqueue_read_indirect_desc :: "VuDev \<Rightarrow> u64 \<Rightarrow> u64 \<Rightarrow> mem option trapping" where
  "virtqueue_read_indirect_desc dev addr len =
     (if len > DESC_BUF_BYTES then Inr None
      else if len = 0 then Inr None
      else read_indirect_loop dev (dv_stack dev) 0 addr len)"

text \<open>\<open>MoreDesc n\<close> is \<open>VIRTQUEUE_READ_DESC_MORE\<close> with the value stored in \<open>*next\<close>.\<close>

datatype read_next = ReadError | ReadDone | MoreDesc u32

definition virtqueue_read_next_desc ::
    "VuDev \<Rightarrow> desc_table \<Rightarrow> u32 \<Rightarrow> u32 \<Rightarrow> (read_next \<times> VuDev) trapping"
where
  "virtqueue_read_next_desc dev tbl i mx =
     tbind (read_desc dev tbl i) (\<lambda>d.
       if d_flags d AND VRING_DESC_F_NEXT = 0 then Inr (ReadDone, dev)
       else
         let nxt = ucast (d_next d) :: u32
         in if nxt \<ge> mx then Inr (ReadError, vu_panic dev ''Desc next'')
            else Inr (MoreDesc nxt, dev))"

text \<open>
  Opening the indirect table a descriptor points at, as each of the three walks does: in place
  if it lies in one region, else through the local copy. The result is the table and its size,
  or \<open>None\<close> after the panic.
\<close>

definition open_indirect ::
    "VuDev \<Rightarrow> vring_desc \<Rightarrow> ((desc_table \<times> u32) option \<times> VuDev) trapping"
where
  "open_indirect dev d =
     (let desc_addr = d_addr d; desc_len = d_len d;
          (p, read_len) = vu_gpa_to_va dev (ucast desc_len) desc_addr
      in tbind (if p \<noteq> 0 \<and> read_len \<noteq> ucast desc_len
                then tbind (virtqueue_read_indirect_desc dev desc_addr (ucast desc_len))
                       (\<lambda>r. Inr (map_option DescBuf r))
                else Inr (if p = 0 then None else Some (DescAt p (desc_len div 16))))
           (\<lambda>tbl. case tbl of
              None \<Rightarrow> Inr (None, vu_panic dev ''Invalid indirect buffer table'')
            | Some t \<Rightarrow> Inr (Some (t, desc_len div 16), dev)))"

section \<open>Popping: from a descriptor chain to an element\<close>

record iovec =
  iov_base :: u64
  iov_len :: u64

record VuVirtqElement =
  el_index :: u32
  el_out_sg :: "iovec list"
  el_in_sg :: "iovec list"

text \<open>
  \<open>while (sz)\<close> of \<open>virtqueue_map_desc\<close>; the list is \<open>iov[0 .. num_sg)\<close>, \<open>mx\<close> is \<open>max_num_sg\<close>.
\<close>

function (sequential) map_sg ::
    "VuDev \<Rightarrow> nat \<Rightarrow> iovec list \<Rightarrow> u64 \<Rightarrow> u64 \<Rightarrow> iovec list option \<times> VuDev"
where
  "map_sg dev mx iov pa sz =
     (if sz = 0 then (Some iov, dev)
      else if length iov = mx
      then (None, vu_panic dev ''virtio: too many descriptors in indirect table'')
      else
        let (p, len) = vu_gpa_to_va dev sz pa
        in if p = 0 then (None, vu_panic dev ''virtio: invalid address for buffers'')
           else map_sg dev mx (iov @ [\<lparr>iov_base = p, iov_len = len\<rparr>]) (pa + len) (sz - len))"
  by pat_completeness auto
termination
  by (relation "measure (\<lambda>(dev, mx, iov, pa, sz). unat sz)")
     (auto intro: vu_gpa_to_va_shrinks)

declare map_sg.simps [simp del]

definition virtqueue_map_desc ::
    "VuDev \<Rightarrow> nat \<Rightarrow> iovec list \<Rightarrow> u64 \<Rightarrow> u64 \<Rightarrow> (iovec list option \<times> VuDev) trapping"
where
  "virtqueue_map_desc dev mx iov pa sz =
     (if \<not> length iov \<le> mx then Inl AssertFailed
      else if sz = 0 then Inr (None, vu_panic dev ''virtio: zero sized buffers are not allowed'')
      else Inr (map_sg dev mx iov pa sz))"

text \<open>\<open>ALIGN_UP\<close> and the size \<open>virtqueue_alloc_element\<close> asks \<open>malloc\<close> for.\<close>

definition align_up :: "u64 \<Rightarrow> u64 \<Rightarrow> u64" where
  "align_up n m = (n + m - 1) div m * m"

definition virtqueue_alloc_element :: "VuDev \<Rightarrow> u64 \<Rightarrow> u32 \<Rightarrow> u32 \<Rightarrow> (bool \<times> VuDev) trapping" where
  "virtqueue_alloc_element dev sz out_num in_num =
     (let in_sg_ofs = align_up sz 8;
          out_sg_ofs = in_sg_ofs + ucast in_num * 16;
          out_sg_end = out_sg_ofs + ucast out_num * 16
      in if \<not> sz \<ge> 32 then Inl AssertFailed
         else (let (rc, dev1) = vu_call dev (EvMalloc out_sg_end) in Inr (rc \<noteq> 0, dev1)))"

lemma map_sg_length:
  "map_sg dev mx iov pa sz = (Some iov', dev') \<Longrightarrow> length iov \<le> mx \<Longrightarrow>
     length iov \<le> length iov' \<and> length iov' \<le> mx \<and> (sz \<noteq> 0 \<longrightarrow> length iov < length iov') \<and> dev' = dev"
proof (induction dev mx iov pa sz arbitrary: iov' rule: map_sg.induct)
  case (1 dev mx iov pa sz)
  show ?case
  proof (cases "sz = 0 \<or> length iov = mx")
    case True
    with 1(2,3) show ?thesis by (simp (no_asm_use) only: map_sg.simps [of dev mx iov pa sz])
      (auto split: if_splits)
  next
    case False
    obtain p len where t: "vu_gpa_to_va dev sz pa = (p, len)" by (cases "vu_gpa_to_va dev sz pa")
    with False 1(2) have p: "p \<noteq> 0"
      and rec: "map_sg dev mx (iov @ [\<lparr>iov_base = p, iov_len = len\<rparr>]) (pa + len) (sz - len) = (Some iov', dev')"
      by (auto simp: map_sg.simps [of dev mx iov pa sz] split: if_splits)
    from False 1(3) have "length (iov @ [\<lparr>iov_base = p, iov_len = len\<rparr>]) \<le> mx" by simp
    from 1(1) [OF _ _ t [symmetric] refl p rec this] False show ?thesis by simp
  qed
qed

lemma virtqueue_map_desc_length:
  assumes "virtqueue_map_desc dev mx iov pa sz = Inr (Some iov', dev')"
  shows "length iov < length iov' \<and> length iov' \<le> mx \<and> dev' = dev"
  using assms map_sg_length [of dev mx iov pa sz iov' dev']
  by (auto simp: virtqueue_map_desc_def split: if_splits)

text \<open>
  The body of the loop of \<open>vu_queue_map_desc\<close> up to the mapping of one descriptor. The two lists
  are the two parts of the array \<open>iov\<close>; their lengths are \<open>out_num\<close> and \<open>in_num\<close>.
\<close>

definition map_one ::
    "VuDev \<Rightarrow> iovec list \<Rightarrow> iovec list \<Rightarrow> vring_desc
       \<Rightarrow> ((iovec list \<times> iovec list) option \<times> VuDev) trapping"
where
  "map_one dev outs ins d =
     (if d_flags d AND VRING_DESC_F_WRITE \<noteq> 0
      then tbind (virtqueue_map_desc dev (VIRTQUEUE_MAX_SIZE - length outs) ins
                    (d_addr d) (ucast (d_len d)))
             (\<lambda>(r, dev1). Inr (map_option (\<lambda>iov. (outs, iov)) r, dev1))
      else if ins \<noteq> [] then Inr (None, vu_panic dev ''Incorrect order for descriptors'')
      else tbind (virtqueue_map_desc dev VIRTQUEUE_MAX_SIZE outs (d_addr d) (ucast (d_len d)))
             (\<lambda>(r, dev1). Inr (map_option (\<lambda>iov. (iov, ins)) r, dev1)))"

lemma map_one_length:
  assumes "map_one dev outs ins d = Inr (Some (outs1, ins1), dev1)"
  shows "length outs + length ins < length outs1 + length ins1 \<and>
    length outs1 + length ins1 \<le> VIRTQUEUE_MAX_SIZE \<and> dev1 = dev"
  using assms
  by (auto simp: map_one_def tbind_eq_Inr_iff dest!: virtqueue_map_desc_length split: if_splits)

text \<open>
  \<open>do ... while (rc == VIRTQUEUE_READ_DESC_MORE)\<close>. The walk ends because every round maps at least
  one more piece and the array has room for 1024.
\<close>

function (sequential) map_chain ::
    "VuDev \<Rightarrow> desc_table \<Rightarrow> u32 \<Rightarrow> u32 \<Rightarrow> iovec list \<Rightarrow> iovec list
       \<Rightarrow> ((iovec list \<times> iovec list) option \<times> VuDev) trapping"
where
  "map_chain dev tbl i mx outs ins =
     (case read_desc dev tbl i of
        Inl t \<Rightarrow> Inl t
      | Inr d \<Rightarrow>
          (case map_one dev outs ins d of
             Inl t \<Rightarrow> Inl t
           | Inr (None, dev1) \<Rightarrow> Inr (None, dev1)
           | Inr (Some (outs1, ins1), dev1) \<Rightarrow>
               if length ins1 + length outs1 > unat mx
               then Inr (None, vu_panic dev1 ''Looped descriptor'')
               else
                 (case virtqueue_read_next_desc dev1 tbl i mx of
                    Inl t \<Rightarrow> Inl t
                  | Inr (ReadError, dev2) \<Rightarrow> Inr (None, vu_panic dev2 ''read descriptor error'')
                  | Inr (ReadDone, dev2) \<Rightarrow> Inr (Some (outs1, ins1), dev2)
                  | Inr (MoreDesc n, dev2) \<Rightarrow> map_chain dev2 tbl n mx outs1 ins1)))"
  by pat_completeness auto
termination
  by (relation "measure (\<lambda>(dev, tbl, i, mx, outs, ins). VIRTQUEUE_MAX_SIZE - (length outs + length ins))")
     (auto dest!: map_one_length)

declare map_chain.simps [simp del]

text \<open>
  \<open>sz\<close> is the size of the caller's element type, which starts with a \<open>VuVirtqElement\<close>.
\<close>

definition vu_queue_map_desc ::
    "VuDev \<Rightarrow> VuVirtq \<Rightarrow> u32 \<Rightarrow> u64 \<Rightarrow> (VuVirtqElement option \<times> VuDev) trapping"
where
  "vu_queue_map_desc dev vq idx sz =
     (let tbl0 = DescAt (ring_desc (vq_vring vq)) (ring_num (vq_vring vq))
      in tbind (read_desc dev tbl0 idx) (\<lambda>d.
         tbind (if d_flags d AND VRING_DESC_F_INDIRECT \<noteq> 0
                then if d_len d mod 16 \<noteq> 0
                     then Inr (None, vu_panic dev ''Invalid size for indirect buffer table'')
                     else tbind (open_indirect dev d) (\<lambda>(r, dev1).
                            Inr (map_option (\<lambda>(t, mx). (t, mx, 0)) r, dev1))
                else Inr (Some (tbl0, ring_num (vq_vring vq), idx), dev))
           (\<lambda>(r, dev1). case r of
              None \<Rightarrow> Inr (None, dev1)
            | Some (tbl, mx, i) \<Rightarrow>
                tbind (map_chain dev1 tbl i mx [] []) (\<lambda>(r2, dev2). case r2 of
                   None \<Rightarrow> Inr (None, dev2)
                 | Some (outs, ins) \<Rightarrow>
                     tbind (virtqueue_alloc_element dev2 sz (of_nat (length outs)) (of_nat (length ins)))
                       (\<lambda>(ok, dev3).
                          if \<not> ok then Inr (None, dev3)
                          else Inr (Some \<lparr>el_index = idx, el_out_sg = outs, el_in_sg = ins\<rparr>, dev3))))))"

text \<open>
  The in-flight record of a queue, \<open>VuVirtqInflight\<close>, lives in shared memory: \<open>last_batch_head\<close> at
  12, \<open>used_idx\<close> at 14, and from 16 on 16 bytes per descriptor with \<open>inflight\<close> at 0 and \<open>counter\<close>
  at 8. The result is \<open>False\<close> for \<open>-1\<close>.
\<close>

definition inflight_desc_addr :: "VuVirtq \<Rightarrow> u32 \<Rightarrow> u64" where
  "inflight_desc_addr vq desc_idx = vq_inflight vq + 16 + 16 * scast desc_idx"

definition vu_queue_inflight_get :: "VuDev \<Rightarrow> VuVirtq \<Rightarrow> u32 \<Rightarrow> bool \<times> VuDev \<times> VuVirtq" where
  "vu_queue_inflight_get dev vq desc_idx =
     (if \<not> vu_has_protocol_feature dev VHOST_USER_PROTOCOL_F_INFLIGHT_SHMFD then (True, dev, vq)
      else if vq_inflight vq = 0 then (False, dev, vq)
      else
        let a = inflight_desc_addr vq desc_idx;
            m1 = store64 (dv_mem dev) (a + 8) (vq_counter vq)
        in (True, dev\<lparr>dv_mem := m1(a := 1)\<rparr>, vq\<lparr>vq_counter := vq_counter vq + 1\<rparr>))"

definition vu_queue_inflight_pre_put :: "VuDev \<Rightarrow> VuVirtq \<Rightarrow> u32 \<Rightarrow> bool \<times> VuDev" where
  "vu_queue_inflight_pre_put dev vq desc_idx =
     (if \<not> vu_has_protocol_feature dev VHOST_USER_PROTOCOL_F_INFLIGHT_SHMFD then (True, dev)
      else if vq_inflight vq = 0 then (False, dev)
      else (True, dev\<lparr>dv_mem := store16 (dv_mem dev) (vq_inflight vq + 12) (ucast desc_idx)\<rparr>))"

definition vu_queue_inflight_post_put :: "VuDev \<Rightarrow> VuVirtq \<Rightarrow> u32 \<Rightarrow> bool \<times> VuDev" where
  "vu_queue_inflight_post_put dev vq desc_idx =
     (if \<not> vu_has_protocol_feature dev VHOST_USER_PROTOCOL_F_INFLIGHT_SHMFD then (True, dev)
      else if vq_inflight vq = 0 then (False, dev)
      else
        let m1 = (dv_mem dev)(inflight_desc_addr vq desc_idx := 0)
        in (True, dev\<lparr>dv_mem := store16 m1 (vq_inflight vq + 14) (vq_used_idx vq)\<rparr>))"

definition vu_queue_empty :: "VuDev \<Rightarrow> VuVirtq \<Rightarrow> bool \<times> VuVirtq" where
  "vu_queue_empty dev vq =
     (if dv_broken dev \<or> ring_avail (vq_vring vq) = 0 then (True, vq)
      else if vq_shadow_avail_idx vq \<noteq> vq_last_avail_idx vq then (False, vq)
      else (let (av, vq1) = vring_avail_idx dev vq in (av = vq_last_avail_idx vq1, vq1)))"

text \<open>\<open>&used->ring[num]\<close>, with an unsigned index.\<close>

definition avail_event_addr :: "VuVirtq \<Rightarrow> u64" where
  "avail_event_addr vq = used_ring_addr (ring_used (vq_vring vq)) (ucast (ring_num (vq_vring vq)))"

definition vring_set_avail_event :: "VuDev \<Rightarrow> VuVirtq \<Rightarrow> u16 \<Rightarrow> VuDev trapping" where
  "vring_set_avail_event dev vq val =
     (if \<not> vq_notification vq then Inr dev
      else if ring_used (vq_vring vq) = 0 then Inl NullDeref
      else Inr (dev\<lparr>dv_mem := store16 (dv_mem dev) (avail_event_addr vq) val\<rparr>))"

text \<open>The part of \<open>vu_queue_pop\<close> after the resubmit list.\<close>

definition pop_avail ::
    "VuDev \<Rightarrow> VuVirtq \<Rightarrow> u64 \<Rightarrow> (VuVirtqElement option \<times> VuDev \<times> VuVirtq) trapping"
where
  "pop_avail dev vq sz =
     (let (empty, vq1) = vu_queue_empty dev vq
      in if empty then Inr (None, dev, vq1)
         else if vq_inuse vq1 \<ge> ring_num (vq_vring vq1)
         then Inr (None, vu_panic dev ''Virtqueue size exceeded'', vq1)
         else
           let idx = vq_last_avail_idx vq1;
               vq2 = vq1\<lparr>vq_last_avail_idx := idx + 1\<rparr>
           in tbind (virtqueue_get_head dev vq2 (ucast idx)) (\<lambda>(h, dev1).
              case h of
                None \<Rightarrow> Inr (None, dev1, vq2)
              | Some head \<Rightarrow>
                  tbind (if vu_has_feature dev1 VIRTIO_RING_F_EVENT_IDX
                         then vring_set_avail_event dev1 vq2 (vq_last_avail_idx vq2)
                         else Inr dev1)
                    (\<lambda>dev2. tbind (vu_queue_map_desc dev2 vq2 head sz) (\<lambda>(elem, dev3).
                       case elem of
                         None \<Rightarrow> Inr (None, dev3, vq2)
                       | Some e \<Rightarrow>
                           (let vq3 = vq2\<lparr>vq_inuse := vq_inuse vq2 + 1\<rparr>;
                                (_, dev4, vq4) = vu_queue_inflight_get dev3 vq3 head
                            in Inr (Some e, dev4, vq4))))))"

definition vu_queue_pop ::
    "VuDev \<Rightarrow> VuVirtq \<Rightarrow> u64 \<Rightarrow> (VuVirtqElement option \<times> VuDev \<times> VuVirtq) trapping"
where
  "vu_queue_pop dev vq sz =
     (if dv_broken dev \<or> ring_avail (vq_vring vq) = 0 then Inr (None, dev, vq)
      else
        case vq_resubmit_list vq of
          Some rs \<Rightarrow>
            if vq_resubmit_num vq > 0
            then
              let i = vq_resubmit_num vq - 1
              in if \<not> unat i < length rs then Inl OutOfBounds
                 else tbind (vu_queue_map_desc dev vq (ucast (ifd_index (rs ! unat i))) sz) (\<lambda>(elem, dev1).
                   Inr (elem, dev1,
                        vq\<lparr>vq_resubmit_num := i, vq_resubmit_list := (if i = 0 then None else Some rs)\<rparr>))
            else pop_avail dev vq sz
        | None \<Rightarrow> pop_avail dev vq sz)"

section \<open>Giving elements back\<close>

definition vu_queue_detach_element :: "VuVirtq \<Rightarrow> VuVirtq" where
  "vu_queue_detach_element vq = vq\<lparr>vq_inuse := vq_inuse vq - 1\<rparr>"

definition vu_queue_unpop :: "VuVirtq \<Rightarrow> VuVirtq" where
  "vu_queue_unpop vq =
     vu_queue_detach_element (vq\<lparr>vq_last_avail_idx := vq_last_avail_idx vq - 1\<rparr>)"

definition vu_queue_rewind :: "VuVirtq \<Rightarrow> u32 \<Rightarrow> bool \<times> VuVirtq" where
  "vu_queue_rewind vq num =
     (if num > vq_inuse vq then (False, vq)
      else (True, vq\<lparr>vq_last_avail_idx := vq_last_avail_idx vq - ucast num,
                     vq_inuse := vq_inuse vq - num\<rparr>))"

definition vring_used_write ::
    "VuDev \<Rightarrow> VuVirtq \<Rightarrow> vring_used_elem \<Rightarrow> u32 \<Rightarrow> VuDev trapping"
where
  "vring_used_write dev vq uelem i =
     (let us = ring_used (vq_vring vq)
      in if us = 0 then Inl NullDeref
         else vu_log_write
                (vu_emit (dev\<lparr>dv_mem := store_used_elem (dv_mem dev) (used_ring_addr us (scast i)) uelem\<rparr>)
                   (EvUsedElem (used_ring_addr us (scast i)) uelem))
                (ring_log_guest_addr (vq_vring vq) + (4 + 8 * scast i)) 8)"

text \<open>
  The walk of \<open>vu_log_queue_fill\<close>, with fuel: it sees at most \<open>max\<close> descriptors, so \<open>max + 1\<close> rounds
  are enough, save when \<open>max\<close> is \<open>UINT_MAX\<close> and \<open>++num_bufs > max\<close> can never hold.
\<close>

fun log_chain ::
    "nat \<Rightarrow> VuDev \<Rightarrow> desc_table \<Rightarrow> u32 \<Rightarrow> u32 \<Rightarrow> u32 \<Rightarrow> u32 \<Rightarrow> VuDev trapping"
where
  "log_chain 0 dev tbl i mx num_bufs len = Inl Diverges"
| "log_chain (Suc fuel) dev tbl i mx num_bufs len =
     (if num_bufs + 1 > mx then Inr (vu_panic dev ''Looped descriptor'')
      else tbind (read_desc dev tbl i) (\<lambda>d.
        tbind (if d_flags d AND VRING_DESC_F_WRITE \<noteq> 0
               then (let mn = (if d_len d < len then d_len d else len)
                     in tbind (vu_log_write dev (d_addr d) (ucast mn)) (\<lambda>dev1. Inr (dev1, len - mn)))
               else Inr (dev, len))
          (\<lambda>(dev1, len1).
             if len1 = 0 then Inr dev1
             else tbind (virtqueue_read_next_desc dev1 tbl i mx) (\<lambda>(r, dev2).
               case r of
                 MoreDesc n \<Rightarrow> log_chain fuel dev2 tbl n mx (num_bufs + 1) len1
               | _ \<Rightarrow> Inr dev2))))"

definition vu_log_queue_fill ::
    "VuDev \<Rightarrow> VuVirtq \<Rightarrow> VuVirtqElement \<Rightarrow> u32 \<Rightarrow> VuDev trapping"
where
  "vu_log_queue_fill dev vq elem len =
     (let tbl0 = DescAt (ring_desc (vq_vring vq)) (ring_num (vq_vring vq)); idx = el_index elem
      in tbind (read_desc dev tbl0 idx) (\<lambda>d.
         tbind (if d_flags d AND VRING_DESC_F_INDIRECT \<noteq> 0
                then if d_len d mod 16 \<noteq> 0
                     then Inr (None, vu_panic dev ''Invalid size for indirect buffer table'')
                     else tbind (open_indirect dev d) (\<lambda>(r, dev1).
                            Inr (map_option (\<lambda>(t, mx). (t, mx, 0)) r, dev1))
                else Inr (Some (tbl0, ring_num (vq_vring vq), idx), dev))
           (\<lambda>(r, dev1). case r of
              None \<Rightarrow> Inr dev1
            | Some (tbl, mx, i) \<Rightarrow> log_chain (unat mx + 1) dev1 tbl i mx 0 len)))"

definition vu_queue_fill ::
    "VuDev \<Rightarrow> VuVirtq \<Rightarrow> VuVirtqElement \<Rightarrow> u32 \<Rightarrow> u32 \<Rightarrow> VuDev trapping"
where
  "vu_queue_fill dev vq elem len idx =
     (if dv_broken dev \<or> ring_avail (vq_vring vq) = 0 then Inr dev
      else tbind (vu_log_queue_fill dev vq elem len) (\<lambda>dev1.
        let num = ring_num (vq_vring vq)
        in if num = 0 then Inl DivByZero
           else vring_used_write dev1 vq \<lparr>ue_id = el_index elem, ue_len = len\<rparr>
                  ((idx + ucast (vq_used_idx vq)) mod num)))"

definition vring_used_idx_set :: "VuDev \<Rightarrow> VuVirtq \<Rightarrow> u16 \<Rightarrow> (VuDev \<times> VuVirtq) trapping" where
  "vring_used_idx_set dev vq val =
     (let us = ring_used (vq_vring vq)
      in if us = 0 then Inl NullDeref
         else tbind (vu_log_write
                       (vu_emit (dev\<lparr>dv_mem := store16 (dv_mem dev) (used_idx_addr us) val\<rparr>)
                          (EvUsedIdx (used_idx_addr us) val))
                       (ring_log_guest_addr (vq_vring vq) + 2) 2)
                (\<lambda>dev1. Inr (dev1, vq\<lparr>vq_used_idx := val\<rparr>)))"

text \<open>\<open>vu_queue_flush\<close> begins with \<open>smp_wmb ()\<close>.\<close>

definition vu_queue_flush :: "VuDev \<Rightarrow> VuVirtq \<Rightarrow> u32 \<Rightarrow> (VuDev \<times> VuVirtq) trapping" where
  "vu_queue_flush dev vq cnt =
     (if dv_broken dev \<or> ring_avail (vq_vring vq) = 0 then Inr (dev, vq)
      else
        let old = vq_used_idx vq; new = ucast (ucast old + cnt) :: u16
        in tbind (vring_used_idx_set (vu_emit dev EvWmb) vq new) (\<lambda>(dev1, vq1).
             let vq2 = vq1\<lparr>vq_inuse := vq_inuse vq1 - cnt\<rparr>
             in Inr (dev1,
                  if sint (new - vq_signalled_used vq2) < uint (new - old)
                  then vq2\<lparr>vq_signalled_used_valid := False\<rparr> else vq2)))"

definition vu_queue_push ::
    "VuDev \<Rightarrow> VuVirtq \<Rightarrow> VuVirtqElement \<Rightarrow> u32 \<Rightarrow> (VuDev \<times> VuVirtq) trapping"
where
  "vu_queue_push dev vq elem len =
     tbind (vu_queue_fill dev vq elem len 0) (\<lambda>dev1.
       let (_, dev2) = vu_queue_inflight_pre_put dev1 vq (el_index elem)
       in tbind (vu_queue_flush dev2 vq 1) (\<lambda>(dev3, vq3).
            let (_, dev4) = vu_queue_inflight_post_put dev3 vq3 (el_index elem)
            in Inr (dev4, vq3)))"

section \<open>How much the guest has offered\<close>

text \<open>
  The inner loop of \<open>vu_queue_get_avail_bytes\<close> over one chain: enough bytes found (\<open>goto done\<close>),
  an error, or the end of the chain with the totals and \<open>num_bufs\<close>. Fuel as in \<open>log_chain\<close>.
\<close>

datatype chain_bytes = EnoughBytes u32 u32 | ChainError | ChainEnd u32 u32 u32

fun avail_chain ::
    "nat \<Rightarrow> VuDev \<Rightarrow> desc_table \<Rightarrow> u32 \<Rightarrow> u32 \<Rightarrow> u32 \<Rightarrow> u32 \<times> u32 \<Rightarrow> u32 \<times> u32
       \<Rightarrow> (chain_bytes \<times> VuDev) trapping"
where
  "avail_chain 0 dev tbl i mx num_bufs tot lim = Inl Diverges"
| "avail_chain (Suc fuel) dev tbl i mx num_bufs tot lim =
     (if num_bufs + 1 > mx then Inr (ChainError, vu_panic dev ''Looped descriptor'')
      else tbind (read_desc dev tbl i) (\<lambda>d.
        let (in_total, out_total) =
              (if d_flags d AND VRING_DESC_F_WRITE \<noteq> 0 then (fst tot + d_len d, snd tot)
               else (fst tot, snd tot + d_len d))
        in if in_total \<ge> fst lim \<and> out_total \<ge> snd lim
           then Inr (EnoughBytes in_total out_total, dev)
           else tbind (virtqueue_read_next_desc dev tbl i mx) (\<lambda>(r, dev1).
             case r of
               MoreDesc n \<Rightarrow> avail_chain fuel dev1 tbl n mx (num_bufs + 1) (in_total, out_total) lim
             | ReadError \<Rightarrow> Inr (ChainError, dev1)
             | ReadDone \<Rightarrow> Inr (ChainEnd in_total out_total (num_bufs + 1), dev1))))"

text \<open>
  Finding the table of a head: the table, its size, the first index, \<open>num_bufs\<close> and whether it is
  an indirect one; \<open>None\<close> after a panic.
\<close>

definition avail_table ::
    "VuDev \<Rightarrow> VuVirtq \<Rightarrow> u32 \<Rightarrow> u32
       \<Rightarrow> ((desc_table \<times> u32 \<times> u32 \<times> u32 \<times> bool) option \<times> VuDev) trapping"
where
  "avail_table dev vq head total_bufs =
     (let tbl0 = DescAt (ring_desc (vq_vring vq)) (ring_num (vq_vring vq)); mx = ring_num (vq_vring vq)
      in tbind (read_desc dev tbl0 head) (\<lambda>d.
           if d_flags d AND VRING_DESC_F_INDIRECT \<noteq> 0
           then if d_len d mod 16 \<noteq> 0
                then Inr (None, vu_panic dev ''Invalid size for indirect buffer table'')
                else if total_bufs \<ge> mx then Inr (None, vu_panic dev ''Looped descriptor'')
                else tbind (open_indirect dev d) (\<lambda>(r, dev1).
                       Inr (map_option (\<lambda>(t, mx'). (t, mx', 0, 0, True)) r, dev1))
           else Inr (Some (tbl0, mx, head, total_bufs, False), dev)))"

text \<open>
  The outer loop over the available heads; each round takes one head, so \<open>num_heads + 1\<close> rounds
  are enough fuel. The totals are 0 after an error.
\<close>

fun avail_heads ::
    "nat \<Rightarrow> VuDev \<Rightarrow> VuVirtq \<Rightarrow> u32 \<Rightarrow> u32 \<Rightarrow> u32 \<times> u32 \<Rightarrow> u32 \<times> u32
       \<Rightarrow> ((u32 \<times> u32) \<times> VuDev \<times> VuVirtq) trapping"
where
  "avail_heads 0 dev vq idx total_bufs tot lim = Inl Diverges"
| "avail_heads (Suc fuel) dev vq idx total_bufs tot lim =
     (let (n, dev1, vq1) = virtqueue_num_heads dev vq idx
      in case n of
        None \<Rightarrow> Inr ((0, 0), dev1, vq1)
      | Some h \<Rightarrow>
          if h = 0 then Inr (tot, dev1, vq1)
          else tbind (virtqueue_get_head dev1 vq1 idx) (\<lambda>(hd, dev2). case hd of
              None \<Rightarrow> Inr ((0, 0), dev2, vq1)
            | Some head \<Rightarrow> tbind (avail_table dev2 vq1 head total_bufs) (\<lambda>(t, dev3). case t of
                None \<Rightarrow> Inr ((0, 0), dev3, vq1)
              | Some (tbl, mx, i, num_bufs, indirect) \<Rightarrow>
                  tbind (avail_chain (unat (mx - num_bufs) + 1) dev3 tbl i mx num_bufs tot lim)
                    (\<lambda>(r, dev4). case r of
                       EnoughBytes a b \<Rightarrow> Inr ((a, b), dev4, vq1)
                     | ChainError \<Rightarrow> Inr ((0, 0), dev4, vq1)
                     | ChainEnd a b nb \<Rightarrow>
                         avail_heads fuel dev4 vq1 (idx + 1)
                           (if indirect then total_bufs + 1 else nb) (a, b) lim))))"

definition vu_queue_get_avail_bytes ::
    "VuDev \<Rightarrow> VuVirtq \<Rightarrow> u32 \<Rightarrow> u32 \<Rightarrow> ((u32 \<times> u32) \<times> VuDev \<times> VuVirtq) trapping"
where
  "vu_queue_get_avail_bytes dev vq max_in_bytes max_out_bytes =
     (if dv_broken dev \<or> ring_avail (vq_vring vq) = 0 then Inr ((0, 0), dev, vq)
      else
        let idx = ucast (vq_last_avail_idx vq) :: u32;
            heads = avail_idx (dv_mem dev) (ring_avail (vq_vring vq)) - vq_last_avail_idx vq
        in avail_heads (unat heads + 1) dev vq idx 0 (0, 0) (max_in_bytes, max_out_bytes))"

definition vu_queue_avail_bytes ::
    "VuDev \<Rightarrow> VuVirtq \<Rightarrow> u32 \<Rightarrow> u32 \<Rightarrow> (bool \<times> VuDev \<times> VuVirtq) trapping"
where
  "vu_queue_avail_bytes dev vq in_bytes out_bytes =
     tbind (vu_queue_get_avail_bytes dev vq in_bytes out_bytes)
       (\<lambda>((in_total, out_total), dev1, vq1).
          Inr (in_bytes \<le> in_total \<and> out_bytes \<le> out_total, dev1, vq1))"

section \<open>Notifications\<close>

definition vring_notify :: "VuDev \<Rightarrow> VuVirtq \<Rightarrow> bool \<times> VuVirtq" where
  "vring_notify dev vq =
     (let check = vu_has_feature dev VIRTIO_F_NOTIFY_ON_EMPTY \<and> vq_inuse vq = 0;
          (empty, vq1) = (if check then vu_queue_empty dev vq else (False, vq))
      in if check \<and> empty then (True, vq1)
         else if \<not> vu_has_feature dev VIRTIO_RING_F_EVENT_IDX
         then (vring_avail_flags dev vq1 AND VRING_AVAIL_F_NO_INTERRUPT = 0, vq1)
         else
           let v = vq_signalled_used_valid vq1; old = vq_signalled_used vq1; new = vq_used_idx vq1
           in (\<not> v \<or> vring_need_event (vring_get_used_event dev vq1) new old,
               vq1\<lparr>vq_signalled_used_valid := True, vq_signalled_used := new\<rparr>))"

definition VHOST_USER_BACKEND_CONFIG_CHANGE_MSG :: u32 where
  "VHOST_USER_BACKEND_CONFIG_CHANGE_MSG = 2"
definition VHOST_USER_BACKEND_VRING_CALL :: u32 where
  "VHOST_USER_BACKEND_VRING_CALL = 4"

text \<open>A message to the front end whose payload is all zero.\<close>

definition backend_msg :: "u32 \<Rightarrow> u32 \<Rightarrow> VhostUserMsg" where
  "backend_msg req n =
     \<lparr>m_request = req, m_flags = VHOST_USER_VERSION, m_size = n, m_payload = (\<lambda>_. 0), m_fds = [],
      m_data = None\<rparr>"

text \<open>\<open>qidx\<close> is \<open>vq - dev->vq\<close>.\<close>

definition vu_queue_notify_with :: "VuDev \<Rightarrow> VuVirtq \<Rightarrow> nat \<Rightarrow> bool \<Rightarrow> (VuDev \<times> VuVirtq) trapping" where
  "vu_queue_notify_with dev vq qidx sync =
     (if dv_broken dev \<or> ring_avail (vq_vring vq) = 0 then Inr (dev, vq)
      else
        let (notify, vq1) = vring_notify dev vq
        in if \<not> notify then Inr (dev, vq1)
           else if vq_call_fd vq1 < 0 \<and>
             vu_has_protocol_feature dev VHOST_USER_PROTOCOL_F_INBAND_NOTIFICATIONS \<and>
             vu_has_protocol_feature dev VHOST_USER_PROTOCOL_F_BACKEND_REQ
           then
             let ack = (sync \<and> vu_has_protocol_feature dev VHOST_USER_PROTOCOL_F_REPLY_ACK);
                 m0 = (backend_msg VHOST_USER_BACKEND_VRING_CALL 8)
                        \<lparr>m_payload := store32 (\<lambda>_. 0) 0 (of_nat qidx)\<rparr>;
                 m = (if ack then m0\<lparr>m_flags := m_flags m0 OR VHOST_USER_NEED_REPLY_MASK\<rparr> else m0)
             in tbind (vu_message_write dev (dv_backend_fd dev) m) (\<lambda>(_, dev1).
                  if ack
                  then tbind (vu_message_read_default dev1 (dv_backend_fd dev1) m)
                         (\<lambda>(_, dev2, _). Inr (dev2, vq1))
                  else Inr (dev1, vq1))
           else
             let (rc, dev1) = vu_call dev (EvEventfdWrite (vq_call_fd vq1))
             in Inr (if rc < 0 then vu_panic dev1 ''Error writing eventfd'' else dev1, vq1))"

definition vu_queue_notify :: "VuDev \<Rightarrow> VuVirtq \<Rightarrow> nat \<Rightarrow> (VuDev \<times> VuVirtq) trapping" where
  "vu_queue_notify dev vq qidx = vu_queue_notify_with dev vq qidx False"

definition vu_queue_notify_sync :: "VuDev \<Rightarrow> VuVirtq \<Rightarrow> nat \<Rightarrow> (VuDev \<times> VuVirtq) trapping" where
  "vu_queue_notify_sync dev vq qidx = vu_queue_notify_with dev vq qidx True"

definition vu_config_change_msg :: "VuDev \<Rightarrow> VuDev trapping" where
  "vu_config_change_msg dev =
     tbind (vu_message_write dev (dv_backend_fd dev) (backend_msg VHOST_USER_BACKEND_CONFIG_CHANGE_MSG 0))
       (\<lambda>(_, dev1). Inr dev1)"

definition vring_used_flags_set_bit :: "VuDev \<Rightarrow> VuVirtq \<Rightarrow> u16 \<Rightarrow> VuDev trapping" where
  "vring_used_flags_set_bit dev vq mk =
     (let us = ring_used (vq_vring vq)
      in if us = 0 then Inl NullDeref
         else Inr (dev\<lparr>dv_mem := store16 (dv_mem dev) us (load16 (dv_mem dev) us OR mk)\<rparr>))"

definition vring_used_flags_unset_bit :: "VuDev \<Rightarrow> VuVirtq \<Rightarrow> u16 \<Rightarrow> VuDev trapping" where
  "vring_used_flags_unset_bit dev vq mk =
     (let us = ring_used (vq_vring vq)
      in if us = 0 then Inl NullDeref
         else Inr (dev\<lparr>dv_mem := store16 (dv_mem dev) us (load16 (dv_mem dev) us AND NOT mk)\<rparr>))"

definition vu_queue_set_notification :: "VuDev \<Rightarrow> VuVirtq \<Rightarrow> bool \<Rightarrow> (VuDev \<times> VuVirtq) trapping" where
  "vu_queue_set_notification dev vq enable =
     (let vq1 = vq\<lparr>vq_notification := enable\<rparr>
      in if vu_has_feature dev VIRTIO_RING_F_EVENT_IDX
         then if ring_avail (vq_vring vq1) = 0 then Inl NullDeref
              else (let (av, vq2) = vring_avail_idx dev vq1
                    in tbind (vring_set_avail_event dev vq2 av) (\<lambda>dev1. Inr (dev1, vq2)))
         else if enable
         then tbind (vring_used_flags_unset_bit dev vq1 VRING_USED_F_NO_NOTIFY)
                (\<lambda>dev1. Inr (dev1, vq1))
         else tbind (vring_used_flags_set_bit dev vq1 VRING_USED_F_NO_NOTIFY)
                (\<lambda>dev1. Inr (dev1, vq1)))"

end
