(* ===== verification/VuQueueFacts.thy ===== *)
theory VuQueueFacts
  imports VuQueue
begin

text \<open>
  What the virtqueue operations of \<open>VuQueue\<close> guarantee: the buffers of a popped element are the
  guest's, translated byte by byte; walks of descriptor chains end; popping takes the heads in
  order and pushing publishes used elements; notifications follow the event index.
\<close>

section \<open>Byte-wise translation\<close>

definition regions_of :: "VuDev \<Rightarrow> VuDevRegion list" where
  "regions_of dev = take (unat (dv_nregions dev)) (dv_regions dev)"

definition regions_disjoint :: "VuDev \<Rightarrow> bool" where
  "regions_disjoint dev \<longleftrightarrow>
     sorted_wrt (\<lambda>r s. uint (r_gpa r) + uint (r_size r) \<le> uint (r_gpa s) \<or>
                       uint (r_gpa s) + uint (r_size s) \<le> uint (r_gpa r)) (regions_of dev)"

definition translate :: "VuDev \<Rightarrow> u64 \<Rightarrow> u64" where
  "translate dev a = fst (vu_gpa_to_va dev 1 a)"

definition guest_bytes :: "VuDev \<Rightarrow> u64 \<Rightarrow> nat \<Rightarrow> u64 list" where
  "guest_bytes dev a n = map (\<lambda>k. translate dev (a + of_nat k)) [0..<n]"

definition iov_bytes :: "iovec list \<Rightarrow> u64 list" where
  "iov_bytes iov = concat (map (\<lambda>v. map (\<lambda>k. iov_base v + of_nat k) [0..<unat (iov_len v)]) iov)"

lemma iov_bytes_simps [simp]:
  "iov_bytes [] = []"
  "iov_bytes (iov @ [v]) = iov_bytes iov @ map (\<lambda>k. iov_base v + of_nat k) [0..<unat (iov_len v)]"
  by (simp_all add: iov_bytes_def)

lemma guest_bytes_0 [simp]: "guest_bytes dev a 0 = []"
  by (simp add: guest_bytes_def)

lemma guest_bytes_split:
  "guest_bytes dev a (m + n) = guest_bytes dev a m @ guest_bytes dev (a + of_nat m) n"
proof -
  have "[0..<m + n] = [0..<m] @ map (\<lambda>k. k + m) [0..<n]"
    using upt_add_eq_append [of 0 m n] map_add_upt [of m n] by (simp add: add.commute)
  then show ?thesis by (simp add: guest_bytes_def comp_def ac_simps)
qed

lemma regions_disjoint_unique:
  assumes "sorted_wrt (\<lambda>r s. uint (r_gpa r) + uint (r_size r) \<le> uint (r_gpa s) \<or>
                       uint (r_gpa s) + uint (r_size s) \<le> uint (r_gpa r)) rs"
    and "r \<in> set rs" "s \<in> set rs" "in_region r a" "in_region s a"
  shows "r = s"
  using assms by (induction rs) (auto simp: in_region_def)

text \<open>With disjoint regions the region that holds an address is the one the search finds.\<close>

lemma gpa_search_at:
  assumes "list_all region_ok rs" and "r \<in> set rs" and "in_region r (uint a)"
    and "\<And>s. s \<in> set rs \<Longrightarrow> in_region s (uint a) \<Longrightarrow> r = s"
  shows "gpa_search rs len a =
    (a - r_gpa r + r_mmap_addr r + r_mmap_offset r,
     if a + len > r_gpa r + r_size r then r_gpa r + r_size r - a else len)"
  using assms
proof (induction rs)
  case (Cons s rs)
  show ?case
  proof (cases "in_region s (uint a)")
    case True
    with Cons.prems(4) [of s] have "r = s" by simp
    with True in_region_iff [of s a] Cons.prems(1) show ?thesis by simp
  next
    case False
    then have "s \<noteq> r" using Cons.prems(3) by blast
    then have "r \<in> set rs" using Cons.prems(2) by simp
    have "\<not> (r_gpa s \<le> a \<and> a < r_gpa s + r_size s)"
      using False in_region_iff [of s a] Cons.prems(1) by simp
    then have "gpa_search (s # rs) len a = gpa_search rs len a"
      unfolding gpa_search.simps by (rule if_not_P)
    also have "\<dots> = (a - r_gpa r + r_mmap_addr r + r_mmap_offset r,
       if a + len > r_gpa r + r_size r then r_gpa r + r_size r - a else len)"
    proof (rule Cons.IH)
      show "list_all region_ok rs" using Cons.prems(1) by simp
      show "r = s'" if "s' \<in> set rs" "in_region s' (uint a)" for s'
        using that(2) by (rule Cons.prems(4) [OF list.set_intros(2) [OF that(1)]])
    qed (fact \<open>r \<in> set rs\<close>, fact Cons.prems(3))
    finally show ?thesis .
  qed
qed simp

lemma vu_gpa_to_va_at:
  assumes "regions_ok dev" and "regions_disjoint dev" and "r \<in> set (regions_of dev)"
    and "in_region r (uint a)" and "len \<noteq> 0"
  shows "vu_gpa_to_va dev len a =
    (a - r_gpa r + r_mmap_addr r + r_mmap_offset r,
     if a + len > r_gpa r + r_size r then r_gpa r + r_size r - a else len)"
proof -
  have "list_all region_ok (regions_of dev)"
    using assms(1) by (simp only: regions_ok_def regions_of_def)
  from gpa_search_at [OF this assms(3,4)
      regions_disjoint_unique [OF assms(2) [unfolded regions_disjoint_def] assms(3) _ assms(4)]]
  have "gpa_search (regions_of dev) len a =
    (a - r_gpa r + r_mmap_addr r + r_mmap_offset r,
     if a + len > r_gpa r + r_size r then r_gpa r + r_size r - a else len)" .
  with assms(5) show ?thesis by (simp add: vu_gpa_to_va_def regions_of_def)
qed

text \<open>
  One translated piece: its bytes are the translations of the guest addresses, one by one.
\<close>

lemma in_region_no_wrap:
  assumes "region_ok r" and "in_region r (uint a)" and "uint len < 2 ^ 32"
  shows "uint a + uint (len :: u64) < 2 ^ 64"
  using assms by (simp add: region_ok_def in_region_def)

lemma piece_bytes:
  assumes dev: "regions_ok dev" "regions_disjoint dev" and len: "uint len < 2 ^ 32"
    and t: "vu_gpa_to_va dev len a = (p, len')" and p: "p \<noteq> 0"
  shows "map (\<lambda>k. p + of_nat k) [0..<unat len'] = guest_bytes dev a (unat len')"
proof -
  from t p have "len \<noteq> 0" by (intro notI) (simp add: vu_gpa_to_va_def)
  note le = vu_gpa_to_va_progress [OF t p]
  have all: "list_all region_ok (regions_of dev)"
    using dev(1) by (simp only: regions_ok_def regions_of_def)
  have "gpa_search (regions_of dev) len a = (p, len')"
    using t \<open>len \<noteq> 0\<close> by (simp add: vu_gpa_to_va_def regions_of_def)
  from gpa_search_hit [OF this p all]
  obtain r where r: "r \<in> set (regions_of dev)" "in_region r (uint a)" by blast
  have rok: "region_ok r" using r(1) all by (simp add: list_all_iff)
  note nw = in_region_no_wrap [OF rok r(2) len]
  have pp: "p = a - r_gpa r + r_mmap_addr r + r_mmap_offset r"
    using vu_gpa_to_va_at [OF dev r \<open>len \<noteq> 0\<close>] t by simp
  obtain s where s: "s \<in> set (regions_of dev)" "in_region s (uint a)"
      "uint len' = min (uint len) (uint (r_gpa s) + uint (r_size s) - uint a)"
    by (rule vu_gpa_to_va_inside [OF t p dev(1) nw, folded regions_of_def])
  have "s = r"
    using regions_disjoint_unique [OF dev(2) [unfolded regions_disjoint_def] s(1) r(1) s(2) r(2)] .
  have "translate dev (a + of_nat k) = p + of_nat k" if k: "k < unat len'" for k
  proof -
    have kk: "int k < uint len'" using k by (simp only: unat_eq_nat_uint zless_nat_eq_int_zless) 
    have "uint (of_nat k :: u64) = int k"
      using k unat_bounds(4) [of len'] by (simp add: unsigned_of_nat take_bit_nat_eq_self)
    moreover have small: "int k < uint len" "int k < uint (r_gpa r) + uint (r_size r) - uint a"
      using kk s(3) \<open>s = r\<close> by simp_all
    ultimately have u: "uint (a + of_nat k) = uint a + int k"
      using nw uint_add_no_wrap [of a "of_nat k"] by simp
    then have "in_region r (uint (a + of_nat k))"
      using small r(2) by (simp add: in_region_def)
    from vu_gpa_to_va_at [OF dev r(1) this, of 1] show ?thesis
      by (simp add: translate_def pp)
  qed
  then show ?thesis by (simp add: guest_bytes_def)
qed

lemma map_sg_bytes:
  assumes "map_sg dev mx iov pa sz = (Some iov', dev')" and "regions_ok dev"
    and "regions_disjoint dev" and "uint sz < 2 ^ 32"
  shows "iov_bytes iov' = iov_bytes iov @ guest_bytes dev pa (unat sz)"
  using assms
proof (induction dev mx iov pa sz arbitrary: iov' dev' rule: map_sg.induct)
  case (1 dev mx iov pa sz)
  show ?case
  proof (cases "sz = 0 \<or> length iov = mx")
    case True
    with 1(2) show ?thesis by (auto simp: map_sg.simps [of dev mx iov pa sz] split: if_splits)
  next
    case False
    obtain p len where t: "vu_gpa_to_va dev sz pa = (p, len)" by (cases "vu_gpa_to_va dev sz pa")
    let ?v = "\<lparr>iov_base = p, iov_len = len\<rparr>"
    from False t 1(2) have p: "p \<noteq> 0"
      and rec: "map_sg dev mx (iov @ [?v]) (pa + len) (sz - len) = (Some iov', dev')"
      by (auto simp: map_sg.simps [of dev mx iov pa sz] split: if_splits)
    note len = vu_gpa_to_va_progress [OF t p]
    have u: "unat sz = unat len + unat (sz - len)"
      using len(2) by (simp add: unat_sub word_le_nat_alt)
    have "uint (sz - len) < 2 ^ 32"
      using 1(5) uint_sub_no_wrap [OF len(2)] uint64_range [of len] by linarith
    from 1(1) [OF _ _ t [symmetric] refl p rec 1(3,4) this] False
    have "iov_bytes iov' = iov_bytes (iov @ [?v]) @ guest_bytes dev (pa + len) (unat (sz - len))" by simp
    moreover have "map (\<lambda>k. p + of_nat k) [0..<unat len] = guest_bytes dev pa (unat len)"
      by (rule piece_bytes [OF 1(3,4,5) t p])
    ultimately show ?thesis by (simp add: u guest_bytes_split)
  qed
qed

section \<open>Chains\<close>

text \<open>
  The descriptors of a chain from index \<open>i\<close> on, in a table of \<open>mx\<close>: the last one has no \<open>NEXT\<close>
  flag, every other one names an index inside the table.
\<close>

definition has_next :: "vring_desc \<Rightarrow> bool" where
  "has_next d \<longleftrightarrow> d_flags d AND VRING_DESC_F_NEXT \<noteq> 0"

definition is_write :: "vring_desc \<Rightarrow> bool" where
  "is_write d \<longleftrightarrow> d_flags d AND VRING_DESC_F_WRITE \<noteq> 0"

inductive desc_chain :: "VuDev \<Rightarrow> desc_table \<Rightarrow> u32 \<Rightarrow> u32 \<Rightarrow> vring_desc list \<Rightarrow> bool"
  for dev tbl mx where
  last: "read_desc dev tbl i = Inr d \<Longrightarrow> \<not> has_next d \<Longrightarrow> desc_chain dev tbl mx i [d]"
| more: "read_desc dev tbl i = Inr d \<Longrightarrow> has_next d \<Longrightarrow> ucast (d_next d) < mx \<Longrightarrow>
    desc_chain dev tbl mx (ucast (d_next d)) ds \<Longrightarrow> desc_chain dev tbl mx i (d # ds)"

definition desc_bytes :: "VuDev \<Rightarrow> vring_desc \<Rightarrow> u64 list" where
  "desc_bytes dev d = guest_bytes dev (d_addr d) (unat (d_len d))"

lemma uint_ucast_u32: "uint (ucast (n :: u32) :: u64) < 2 ^ 32"
  using unsigned_less [where 'a = int, of n] by (simp add: unsigned_ucast_eq take_bit_int_eq_self)

lemma unat_ucast_u32 [simp]: "unat (ucast (n :: u32) :: u64) = unat n"
  by (simp add: unsigned_ucast_eq take_bit_nat_eq_self order_less_le_trans [OF unat_bounds(3)])

lemma virtqueue_map_desc_bytes:
  assumes "virtqueue_map_desc dev mx iov pa (ucast (n :: u32)) = Inr (Some iov', dev')"
    and "regions_ok dev" and "regions_disjoint dev"
  shows "iov_bytes iov' = iov_bytes iov @ guest_bytes dev pa (unat n)"
proof -
  from assms(1) have "map_sg dev mx iov pa (ucast n) = (Some iov', dev')"
    by (simp add: virtqueue_map_desc_def split: if_splits)
  from map_sg_bytes [OF this assms(2,3) uint_ucast_u32] show ?thesis by simp
qed

text \<open>
  What a successful walk has mapped: the readable descriptors of the chain come first, the
  writable ones after them, the two lists of pieces are their bytes, and neither the array
  of pieces nor the table is exceeded. The device is as before.
\<close>

definition maps_chain ::
    "VuDev \<Rightarrow> vring_desc list \<Rightarrow> iovec list \<Rightarrow> iovec list \<Rightarrow> iovec list \<Rightarrow> iovec list \<Rightarrow> bool"
where
  "maps_chain dev ds outs ins outs' ins' \<longleftrightarrow>
     (\<exists>rs ws. ds = rs @ ws \<and> list_all (\<lambda>d. \<not> is_write d) rs \<and> list_all is_write ws \<and>
        (ins \<noteq> [] \<longrightarrow> rs = []) \<and>
        iov_bytes outs' = iov_bytes outs @ concat (map (desc_bytes dev) rs) \<and>
        iov_bytes ins' = iov_bytes ins @ concat (map (desc_bytes dev) ws))"

lemma read_next_cases:
  assumes "virtqueue_read_next_desc dev tbl i mx = Inr (r, dev')" and "read_desc dev tbl i = Inr d"
  shows "r = ReadDone \<and> \<not> has_next d \<and> dev' = dev
    \<or> r = ReadError \<and> has_next d \<and> \<not> ucast (d_next d) < mx \<and> dev' = vu_panic dev ''Desc next''
    \<or> r = MoreDesc (ucast (d_next d)) \<and> has_next d \<and> ucast (d_next d) < mx \<and> dev' = dev"
  using assms by (auto simp: virtqueue_read_next_desc_def has_next_def Let_def not_less split: if_splits)

lemma map_one_maps:
  assumes "map_one dev outs ins d = Inr (Some (outs1, ins1), dev1)"
    and "regions_ok dev" and "regions_disjoint dev"
  shows "maps_chain dev [d] outs ins outs1 ins1 \<and> (is_write d \<longrightarrow> ins1 \<noteq> []) \<and> (is_write d \<or> ins = [] \<and> ins1 = [])"
proof (cases "is_write d")
  case True
  with assms(1) have m: "virtqueue_map_desc dev (VIRTQUEUE_MAX_SIZE - length outs) ins (d_addr d)
      (ucast (d_len d)) = Inr (Some ins1, dev1)" "outs1 = outs"
    by (auto simp: map_one_def is_write_def tbind_eq_Inr_iff)
  with True virtqueue_map_desc_bytes [OF m(1) assms(2,3)] virtqueue_map_desc_length [OF m(1)]
  show ?thesis unfolding maps_chain_def desc_bytes_def
    by (intro conjI exI [of _ "[]"] exI [of _ "[d]"]) auto
next
  case False
  with assms(1) have m: "virtqueue_map_desc dev VIRTQUEUE_MAX_SIZE outs (d_addr d)
      (ucast (d_len d)) = Inr (Some outs1, dev1)" "ins = []" "ins1 = []"
    by (auto simp: map_one_def is_write_def tbind_eq_Inr_iff split: if_splits)
  with False virtqueue_map_desc_bytes [OF m(1) assms(2,3)]
  show ?thesis unfolding maps_chain_def desc_bytes_def
    by (intro conjI exI [of _ "[d]"] exI [of _ "[]"]) auto
qed

lemma maps_chain_Cons:
  assumes "maps_chain dev [d] outs ins outs1 ins1" and "maps_chain dev ds outs1 ins1 outs' ins'"
    and "is_write d \<longrightarrow> ins1 \<noteq> []" and "is_write d \<or> ins = [] \<and> ins1 = []"
  shows "maps_chain dev (d # ds) outs ins outs' ins'"
proof -
  from assms(2) obtain rs ws where ds: "ds = rs @ ws" "list_all (\<lambda>d. \<not> is_write d) rs"
      "list_all is_write ws" "ins1 \<noteq> [] \<longrightarrow> rs = []"
      "iov_bytes outs' = iov_bytes outs1 @ concat (map (desc_bytes dev) rs)"
      "iov_bytes ins' = iov_bytes ins1 @ concat (map (desc_bytes dev) ws)"
    by (auto simp: maps_chain_def)
  show ?thesis
  proof (cases "is_write d")
    case True
    with assms(1,3) ds show ?thesis unfolding maps_chain_def
      by (intro exI [of _ "[]"] exI [of _ "d # ws"]) (auto simp: Cons_eq_append_conv)
  next
    case False
    with assms(1,4) ds show ?thesis unfolding maps_chain_def
      by (intro exI [of _ "d # rs"] exI [of _ ws]) (auto simp: Cons_eq_append_conv)
  qed
qed

lemma read_next_total:
  assumes "read_desc dev tbl i = Inr d"
  shows "\<exists>r dev'. virtqueue_read_next_desc dev tbl i mx = Inr (r, dev')"
  using assms
  by (cases "d_flags d AND VRING_DESC_F_NEXT = 0"; cases "mx \<le> ucast (d_next d)")
     (simp_all add: virtqueue_read_next_desc_def Let_def)

lemma map_chain_success:
  assumes "map_chain dev tbl i mx outs ins = Inr (Some (outs', ins'), dev')"
    and "regions_ok dev" and "regions_disjoint dev"
  shows "dev' = dev \<and> length outs' + length ins' \<le> unat mx \<and>
    length outs' + length ins' \<le> VIRTQUEUE_MAX_SIZE \<and>
    (\<exists>ds. desc_chain dev tbl mx i ds \<and> maps_chain dev ds outs ins outs' ins' \<and>
       length outs + length ins + length ds \<le> length outs' + length ins')"
  using assms
proof (induction dev tbl i mx outs ins arbitrary: outs' ins' dev' rule: map_chain.induct)
  case (1 dev tbl i mx outs ins)
  from 1(2) obtain d where d: "read_desc dev tbl i = Inr d"
    by (cases "read_desc dev tbl i") (auto simp: map_chain.simps [of dev tbl i mx outs ins])
  from 1(2) d obtain outs1 ins1 dev1 where m: "map_one dev outs ins d = Inr (Some (outs1, ins1), dev1)"
    by (auto simp: map_chain.simps [of dev tbl i mx outs ins] split: sum.splits option.splits)
  note len = map_one_length [OF m]
  note maps = map_one_maps [OF m 1(3,4)]
  from 1(2) d m len have fits: "length outs1 + length ins1 \<le> unat mx"
    by (simp add: map_chain.simps [of dev tbl i mx outs ins] split: if_splits)
  from 1(2) d m len fits obtain r dev2 where n: "virtqueue_read_next_desc dev tbl i mx = Inr (r, dev2)"
    by (auto simp: map_chain.simps [of dev tbl i mx outs ins] split: sum.splits)
  from read_next_cases [OF n d] show ?case
  proof (elim disjE conjE)
    assume "r = ReadDone" "\<not> has_next d" "dev2 = dev"
    with 1(2) d m n len fits have res: "outs' = outs1" "ins' = ins1" "dev' = dev"
      by (simp_all add: map_chain.simps [of dev tbl i mx outs ins])
    have "desc_chain dev tbl mx i [d]" using d \<open>\<not> has_next d\<close> by (rule desc_chain.last)
    with res len fits maps show ?thesis by (intro conjI exI [of _ "[d]"]) simp_all
  next
    assume "r = ReadError"
    with 1(2) d m n len fits show ?thesis
      by (auto simp: map_chain.simps [of dev tbl i mx outs ins])
  next
    assume r: "r = MoreDesc (ucast (d_next d))" "has_next d" "ucast (d_next d) < mx" "dev2 = dev"
    from 1(2) d m n len fits r
    have rec: "map_chain dev tbl (ucast (d_next d)) mx outs1 ins1 = Inr (Some (outs', ins'), dev')"
      by (simp add: map_chain.simps [of dev tbl i mx outs ins])
    have "dev' = dev \<and> length outs' + length ins' \<le> unat mx \<and>
        length outs' + length ins' \<le> VIRTQUEUE_MAX_SIZE \<and>
        (\<exists>ds. desc_chain dev tbl mx (ucast (d_next d)) ds \<and> maps_chain dev ds outs1 ins1 outs' ins' \<and>
           length outs1 + length ins1 + length ds \<le> length outs' + length ins')"
      using 1(1) [OF d m _ refl refl _ n _ _ rec] 1(3,4) len fits r by simp
    then obtain ds where ds: "desc_chain dev tbl mx (ucast (d_next d)) ds"
        "maps_chain dev ds outs1 ins1 outs' ins'"
        "length outs1 + length ins1 + length ds \<le> length outs' + length ins'"
      and rest: "dev' = dev" "length outs' + length ins' \<le> unat mx"
        "length outs' + length ins' \<le> VIRTQUEUE_MAX_SIZE" by blast
    have "maps_chain dev (d # ds) outs ins outs' ins'"
      using maps ds(2) by (blast intro: maps_chain_Cons)
    with desc_chain.more [OF d r(2,3) ds(1)] ds(3) rest len show ?thesis
      by (intro conjI exI [of _ "d # ds"]) simp_all
  qed
qed

text \<open>
  A walk ends in success or in a panic; it can trap only where reading the table does.
\<close>

definition readable_table :: "VuDev \<Rightarrow> desc_table \<Rightarrow> u32 \<Rightarrow> bool" where
  "readable_table dev tbl mx \<longleftrightarrow>
     (case tbl of DescAt p n \<Rightarrow> p \<noteq> 0 \<and> mx \<le> n | DescBuf _ \<Rightarrow> unat mx \<le> VIRTQUEUE_MAX_SIZE)"

lemma readable_table_read:
  "readable_table dev tbl mx \<Longrightarrow> i < mx \<Longrightarrow> \<exists>d. read_desc dev tbl i = Inr d"
  by (cases tbl) (auto simp: readable_table_def read_desc_def word_less_nat_alt word_le_nat_alt)

lemma readable_table_dev: "readable_table dev tbl mx = readable_table dev' tbl mx"
  by (simp add: readable_table_def)

lemma map_sg_broken: "map_sg dev mx iov pa sz = (None, dev') \<Longrightarrow> dv_broken dev'"
proof (induction dev mx iov pa sz rule: map_sg.induct)
  case (1 dev mx iov pa sz)
  then show ?case
    by (subst (asm) (2) map_sg.simps) (auto split: if_splits prod.splits)
qed

lemma map_one_total:
  assumes "length outs + length ins \<le> VIRTQUEUE_MAX_SIZE"
  shows "\<exists>r dev1. map_one dev outs ins d = Inr (r, dev1) \<and> (r = None \<longrightarrow> dv_broken dev1)"
proof -
  have total: "\<exists>r dev1. virtqueue_map_desc dev mx iov pa sz = Inr (r, dev1) \<and> (r = None \<longrightarrow> dv_broken dev1)"
    if "length iov \<le> mx" for mx iov pa sz
    using that map_sg_broken [of dev mx iov pa sz]
    by (cases "map_sg dev mx iov pa sz") (auto simp: virtqueue_map_desc_def)
  have "length ins \<le> VIRTQUEUE_MAX_SIZE - length outs" "length outs \<le> VIRTQUEUE_MAX_SIZE"
    using assms by simp_all
  from total [OF this(1), of "d_addr d" "ucast (d_len d)"] total [OF this(2), of "d_addr d" "ucast (d_len d)"]
  show ?thesis by (fastforce simp: map_one_def)
qed

lemma map_chain_total:
  assumes "readable_table dev tbl mx" and "i < mx"
    and "length outs + length ins \<le> VIRTQUEUE_MAX_SIZE"
  shows "\<exists>r dev'. map_chain dev tbl i mx outs ins = Inr (r, dev') \<and> (r = None \<longrightarrow> dv_broken dev')"
  using assms
proof (induction dev tbl i mx outs ins rule: map_chain.induct)
  case (1 dev tbl i mx outs ins)
  obtain d where d: "read_desc dev tbl i = Inr d" using readable_table_read [OF 1(2,3)] by blast
  obtain r1 dev1 where m: "map_one dev outs ins d = Inr (r1, dev1)" "r1 = None \<longrightarrow> dv_broken dev1"
    using map_one_total [OF 1(4), of dev d] by blast
  show ?case
  proof (cases r1)
    case None
    with d m show ?thesis by (simp add: map_chain.simps [of dev tbl i mx outs ins])
  next
    case (Some oi)
    obtain outs1 ins1 where oi: "oi = (outs1, ins1)" by (cases oi)
    note m' = m(1) [unfolded Some oi]
    note len = map_one_length [OF m']
    show ?thesis
    proof (cases "length ins1 + length outs1 > unat mx")
      case True
      with d m' show ?thesis by (simp add: map_chain.simps [of dev tbl i mx outs ins])
    next
      case False
      obtain r dev2 where n: "virtqueue_read_next_desc dev tbl i mx = Inr (r, dev2)"
        using read_next_total [OF d] by blast
      from read_next_cases [OF n d] show ?thesis
      proof (elim disjE conjE)
        assume "r = ReadDone" "dev2 = dev"
        with d m' n len False show ?thesis by (simp add: map_chain.simps [of dev tbl i mx outs ins])
      next
        assume "r = ReadError" "dev2 = vu_panic dev ''Desc next''"
        with d m' n len False show ?thesis by (simp add: map_chain.simps [of dev tbl i mx outs ins])
      next
        assume r: "r = MoreDesc (ucast (d_next d))" "ucast (d_next d) < mx" "dev2 = dev"
        have "\<exists>r dev'. map_chain dev tbl (ucast (d_next d)) mx outs1 ins1 = Inr (r, dev') \<and>
            (r = None \<longrightarrow> dv_broken dev')"
          using 1(1) [OF d m' _ refl refl _ n] len False 1(2) r by simp
        with d m' n len False r show ?thesis by (simp add: map_chain.simps [of dev tbl i mx outs ins])
      qed
    qed
  qed
qed

section \<open>Memory safety of the pieces\<close>

text \<open>A piece that lies in the mapping of one region.\<close>

definition piece_in :: "VuDevRegion \<Rightarrow> iovec \<Rightarrow> bool" where
  "piece_in r v \<longleftrightarrow>
     uint (r_mmap_addr r) + uint (r_mmap_offset r) \<le> uint (iov_base v) \<and>
     uint (iov_base v) + uint (iov_len v)
       \<le> uint (r_mmap_addr r) + uint (r_mmap_offset r) + uint (r_size r) \<and>
     0 < uint (iov_len v)"

definition piece_ok :: "VuDev \<Rightarrow> iovec \<Rightarrow> bool" where
  "piece_ok dev v \<longleftrightarrow> list_ex (\<lambda>r. piece_in r v) (regions_of dev)"

lemma translation_piece_ok:
  assumes "vu_gpa_to_va dev len a = (p, len')" and "p \<noteq> 0" and "regions_ok dev"
    and "uint len < 2 ^ 32"
  shows "piece_ok dev \<lparr>iov_base = p, iov_len = len'\<rparr>"
proof -
  have all: "list_all region_ok (regions_of dev)"
    using assms(3) by (simp only: regions_ok_def regions_of_def)
  have "len \<noteq> 0" using assms(1,2) by (intro notI) (simp add: vu_gpa_to_va_def)
  then have "gpa_search (regions_of dev) len a = (p, len')"
    using assms(1) by (simp add: vu_gpa_to_va_def regions_of_def)
  from gpa_search_hit [OF this assms(2) all]
  obtain s where s: "s \<in> set (regions_of dev)" "in_region s (uint a)" by blast
  then have "region_ok s" using all by (simp add: list_all_iff)
  note nw = in_region_no_wrap [OF this s(2) assms(4)]
  obtain r where r: "r \<in> set (regions_of dev)" "in_region r (uint a)" "uint p = host_of r (uint a)"
      "uint len' = min (uint len) (uint (r_gpa r) + uint (r_size r) - uint a)"
    by (rule vu_gpa_to_va_inside [OF assms(1,2,3) nw, folded regions_of_def])
  have pos: "0 < uint len'" using vu_gpa_to_va_progress(1) [OF assms(1,2)] by (simp add: word_less_def)
  have "uint len' \<le> uint (r_gpa r) + uint (r_size r) - uint a" using r(4) by linarith
  with r(2,3) pos have "piece_in r \<lparr>iov_base = p, iov_len = len'\<rparr>"
    by (simp add: piece_in_def in_region_def host_of_def)
  with r(1) show ?thesis by (auto simp: piece_ok_def list_ex_iff)
qed

lemma map_sg_pieces_ok:
  assumes "map_sg dev mx iov pa sz = (Some iov', dev')" and "regions_ok dev"
    and "uint sz < 2 ^ 32" and "list_all (piece_ok dev) iov"
  shows "list_all (piece_ok dev) iov'"
  using assms
proof (induction dev mx iov pa sz arbitrary: iov' dev' rule: map_sg.induct)
  case (1 dev mx iov pa sz)
  show ?case
  proof (cases "sz = 0 \<or> length iov = mx")
    case True
    with 1(2,5) show ?thesis by (auto simp: map_sg.simps [of dev mx iov pa sz] split: if_splits)
  next
    case False
    obtain p len where t: "vu_gpa_to_va dev sz pa = (p, len)" by (cases "vu_gpa_to_va dev sz pa")
    let ?v = "\<lparr>iov_base = p, iov_len = len\<rparr>"
    from False t 1(2) have p: "p \<noteq> 0"
      and rec: "map_sg dev mx (iov @ [?v]) (pa + len) (sz - len) = (Some iov', dev')"
      by (auto simp: map_sg.simps [of dev mx iov pa sz] split: if_splits)
    note len = vu_gpa_to_va_progress [OF t p]
    have "uint (sz - len) < 2 ^ 32"
      using 1(4) uint_sub_no_wrap [OF len(2)] uint64_range [of len] by linarith
    moreover have "list_all (piece_ok dev) (iov @ [?v])"
      using 1(5) translation_piece_ok [OF t p 1(3,4)] by simp
    ultimately show ?thesis using 1(1) [OF _ _ t [symmetric] refl p rec 1(3)] False by simp
  qed
qed

lemma map_one_pieces_ok:
  assumes "map_one dev outs ins d = Inr (Some (outs1, ins1), dev1)" and "regions_ok dev"
    and "list_all (piece_ok dev) (outs @ ins)"
  shows "list_all (piece_ok dev) (outs1 @ ins1)"
  using assms map_sg_pieces_ok [OF _ assms(2) uint_ucast_u32]
  by (auto simp: map_one_def tbind_eq_Inr_iff virtqueue_map_desc_def split: if_splits)

lemma map_chain_pieces_ok:
  assumes "map_chain dev tbl i mx outs ins = Inr (Some (outs', ins'), dev')" and "regions_ok dev"
    and "list_all (piece_ok dev) (outs @ ins)"
  shows "list_all (piece_ok dev) (outs' @ ins')"
  using assms
proof (induction dev tbl i mx outs ins arbitrary: outs' ins' dev' rule: map_chain.induct)
  case (1 dev tbl i mx outs ins)
  from 1(2) obtain d where d: "read_desc dev tbl i = Inr d"
    by (cases "read_desc dev tbl i") (auto simp: map_chain.simps [of dev tbl i mx outs ins])
  from 1(2) d obtain outs1 ins1 dev1 where m: "map_one dev outs ins d = Inr (Some (outs1, ins1), dev1)"
    by (auto simp: map_chain.simps [of dev tbl i mx outs ins] split: sum.splits option.splits)
  have dev1: "dev1 = dev" using map_one_length [OF m] by simp
  note ok = map_one_pieces_ok [OF m 1(3,4)]
  from 1(2) d m have fits: "\<not> length ins1 + length outs1 > unat mx"
    by (auto simp: map_chain.simps [of dev tbl i mx outs ins])
  from 1(2) d m dev1 fits obtain r dev2 where n: "virtqueue_read_next_desc dev tbl i mx = Inr (r, dev2)"
    by (auto simp: map_chain.simps [of dev tbl i mx outs ins] split: sum.splits)
  show ?case
  proof (cases r)
    case (MoreDesc k)
    with read_next_cases [OF n d] have "dev2 = dev" by auto
    with 1(2) d m n fits dev1 MoreDesc
    have rec: "map_chain dev tbl k mx outs1 ins1 = Inr (Some (outs', ins'), dev')"
      by (simp add: map_chain.simps [of dev tbl i mx outs ins])
    from 1(1) [OF d m _ refl refl _ n _ _ rec 1(3)] MoreDesc dev1 \<open>dev2 = dev\<close> fits ok
    show ?thesis by simp
  qed (use 1(2) d m n fits dev1 ok in \<open>auto simp: map_chain.simps [of dev tbl i mx outs ins]\<close>)
qed

section \<open>A concrete queue\<close>

text \<open>The queue in the memory of \<open>demo_dev\<close>.\<close>

definition demo_vq :: VuVirtq where
  "demo_vq =
     \<lparr>vq_vring = \<lparr>ring_num = 4, ring_desc = 0x5000, ring_avail = 0x5040, ring_used = 0x5080,
                   ring_log_guest_addr = 0, ring_flags = 0\<rparr>,
      vq_inflight = 0, vq_resubmit_list = None, vq_resubmit_num = 0, vq_counter = 0,
      vq_last_avail_idx = 0, vq_shadow_avail_idx = 0, vq_used_idx = 0, vq_signalled_used = 0,
      vq_signalled_used_valid = False, vq_notification = True, vq_inuse = 0, vq_handler = False,
      vq_call_fd = 7, vq_kick_fd = 8, vq_err_fd = -1, vq_enable = 1, vq_started = True,
      vq_vra = \<lparr>va_index = 0, va_flags = 0, va_desc_user_addr = 0, va_used_user_addr = 0,
                va_avail_user_addr = 0, va_log_guest_addr = 0\<rparr>\<rparr>"

definition demo_elem :: VuVirtqElement where
  "demo_elem = \<lparr>el_index = 2, el_out_sg = [\<lparr>iov_base = 0x5120, iov_len = 3\<rparr>],
                el_in_sg = [\<lparr>iov_base = 0x5140, iov_len = 8\<rparr>]\<rparr>"

lemma demo_map:
  "\<exists>dev'. vu_queue_map_desc demo_dev demo_vq 2 32 = Inr (Some demo_elem, dev')"
proof -
  have "map_sum id fst (vu_queue_map_desc demo_dev demo_vq 2 32) = Inr (Some demo_elem)" by code_simp
  then show ?thesis by (cases "vu_queue_map_desc demo_dev demo_vq 2 32") auto
qed

lemma demo_pop:
  "\<exists>dev' vq'. vu_queue_pop demo_dev demo_vq 32 = Inr (Some demo_elem, dev', vq')"
proof -
  have "map_sum id fst (vu_queue_pop demo_dev demo_vq 32) = Inr (Some demo_elem)" by code_simp
  then show ?thesis by (cases "vu_queue_pop demo_dev demo_vq 32") auto
qed

lemma demo_ok: "regions_ok demo_dev" "regions_disjoint demo_dev"
  by code_simp+

section \<open>Mapping an element\<close>

text \<open>
  Where the chain with head \<open>idx\<close> starts: in the queue's table, or at index 0 of the indirect
  table its head points at.
\<close>

definition chain_start ::
    "VuDev \<Rightarrow> VuVirtq \<Rightarrow> u32 \<Rightarrow> desc_table \<Rightarrow> u32 \<Rightarrow> u32 \<Rightarrow> bool"
where
  "chain_start dev vq idx tbl mx i \<longleftrightarrow>
     (case read_desc dev (DescAt (ring_desc (vq_vring vq)) (ring_num (vq_vring vq))) idx of
        Inl _ \<Rightarrow> False
      | Inr d \<Rightarrow>
          if d_flags d AND VRING_DESC_F_INDIRECT \<noteq> 0
          then d_len d mod 16 = 0 \<and> open_indirect dev d = Inr (Some (tbl, mx), dev) \<and> i = 0
          else tbl = DescAt (ring_desc (vq_vring vq)) (ring_num (vq_vring vq)) \<and> mx = ring_num (vq_vring vq) \<and> i = idx)"

lemma open_indirect_dev:
  "open_indirect dev d = Inr (r, dev') \<Longrightarrow> (if r = None then dv_broken dev' else dev' = dev)"
  by (auto simp: open_indirect_def Let_def tbind_eq_Inr_iff split: prod.splits option.splits if_splits)

lemma vu_queue_map_desc_Some:
  assumes "vu_queue_map_desc dev vq idx sz = Inr (Some e, dev')"
  obtains tbl mx i outs ins dev2 n where "chain_start dev vq idx tbl mx i"
    and "map_chain dev tbl i mx [] [] = Inr (Some (outs, ins), dev2)"
    and "e = \<lparr>el_index = idx, el_out_sg = outs, el_in_sg = ins\<rparr>"
    and "dev' = vu_emit dev2 (EvMalloc n)"
proof -
  let ?tbl = "DescAt (ring_desc (vq_vring vq)) (ring_num (vq_vring vq))"
  from assms obtain d where d: "read_desc dev ?tbl idx = Inr d"
    by (auto simp: vu_queue_map_desc_def Let_def tbind_eq_Inr_iff)
  have alloc: "\<exists>n. dev'' = vu_emit dev2 (EvMalloc n)"
    if "virtqueue_alloc_element dev2 sz a b = Inr (ok, dev'')" for dev2 a b ok dev''
    using that by (auto simp: virtqueue_alloc_element_def Let_def vu_call_def vu_emit_def split: if_splits)
  show ?thesis
  proof (cases "d_flags d AND VRING_DESC_F_INDIRECT = 0")
    case True
    with assms d obtain outs ins dev2 where
        "map_chain dev ?tbl idx (ring_num (vq_vring vq)) [] [] = Inr (Some (outs, ins), dev2)"
        "e = \<lparr>el_index = idx, el_out_sg = outs, el_in_sg = ins\<rparr>" "\<exists>n. dev' = vu_emit dev2 (EvMalloc n)"
      by (auto simp: vu_queue_map_desc_def Let_def tbind_eq_Inr_iff split: option.splits if_splits
          dest!: alloc)
    with True d show ?thesis
      by (auto intro: that [of ?tbl "ring_num (vq_vring vq)" idx] simp: chain_start_def)
  next
    case False
    with assms d obtain r dev1 where o: "open_indirect dev d = Inr (r, dev1)" "d_len d mod 16 = 0"
      by (auto simp: vu_queue_map_desc_def Let_def tbind_eq_Inr_iff split: if_splits)
    with False assms d obtain tbl mx where r: "r = Some (tbl, mx)"
      by (cases r) (auto simp: vu_queue_map_desc_def Let_def tbind_eq_Inr_iff)
    then have dev1: "dev1 = dev" using open_indirect_dev [OF o(1)] by simp
    with False assms d o r obtain outs ins dev2 where
        walk: "map_chain dev tbl 0 mx [] [] = Inr (Some (outs, ins), dev2)"
        "e = \<lparr>el_index = idx, el_out_sg = outs, el_in_sg = ins\<rparr>"
      and ev: "\<exists>n. dev' = vu_emit dev2 (EvMalloc n)"
      by (auto simp: vu_queue_map_desc_def Let_def tbind_eq_Inr_iff split: option.splits if_splits
          dest!: alloc)
    have start: "chain_start dev vq idx tbl mx 0" using False d o r dev1 by (simp add: chain_start_def)
    from ev obtain n where "dev' = vu_emit dev2 (EvMalloc n)" ..
    with start walk show ?thesis by (rule that)
  qed
qed

text \<open>
  C2: \<^bold>\<open>an element is the guest's chain, byte for byte.\<close> If mapping a head gives an element, the
  chain that starts there is well formed: every descriptor but the last names an index inside
  its table, the readable descriptors come before the writable ones; the pieces of \<open>out_sg\<close> are,
  one byte after the other, the translations of the readable buffers, those of \<open>in_sg\<close> of the
  writable ones; there is at least one piece per descriptor, at most 1024 pieces in all and no
  more than the table has entries.
\<close>
theorem mapped_element_is_the_chain:
  assumes "vu_queue_map_desc dev vq idx sz = Inr (Some e, dev')"
    and "regions_ok dev" and "regions_disjoint dev"
  shows "el_index e = idx \<and>
    (\<exists>tbl mx i rs ws. chain_start dev vq idx tbl mx i \<and> desc_chain dev tbl mx i (rs @ ws) \<and>
       list_all (\<lambda>d. \<not> is_write d) rs \<and> list_all is_write ws \<and>
       iov_bytes (el_out_sg e) = concat (map (desc_bytes dev) rs) \<and>
       iov_bytes (el_in_sg e) = concat (map (desc_bytes dev) ws) \<and>
       length (rs @ ws) \<le> length (el_out_sg e) + length (el_in_sg e) \<and>
       length (el_out_sg e) + length (el_in_sg e) \<le> min 1024 (unat mx))"
proof -
  obtain tbl mx i outs ins dev2 n where m: "chain_start dev vq idx tbl mx i"
      "map_chain dev tbl i mx [] [] = Inr (Some (outs, ins), dev2)"
      "e = \<lparr>el_index = idx, el_out_sg = outs, el_in_sg = ins\<rparr>"
    by (rule vu_queue_map_desc_Some [OF assms(1)])
  from map_chain_success [OF m(2) assms(2,3)] obtain rs ws where
      "desc_chain dev tbl mx i (rs @ ws)" "list_all (\<lambda>d. \<not> is_write d) rs" "list_all is_write ws"
      "iov_bytes outs = concat (map (desc_bytes dev) rs)"
      "iov_bytes ins = concat (map (desc_bytes dev) ws)" "length outs + length ins \<le> min 1024 (unat mx)"
      "length (rs @ ws) \<le> length outs + length ins"
    by (auto simp: maps_chain_def VIRTQUEUE_MAX_SIZE_def)
  with m(1,3) show ?thesis
    by (intro conjI exI [of _ tbl] exI [of _ mx] exI [of _ i] exI [of _ rs] exI [of _ ws]) simp_all
qed

theorem mapped_element_is_the_chain_witness:
  "\<exists>tbl mx i rs ws. chain_start demo_dev demo_vq 2 tbl mx i \<and>
     desc_chain demo_dev tbl mx i (rs @ ws) \<and>
     [0x5120, 0x5121, 0x5122] = concat (map (desc_bytes demo_dev) rs)"
proof -
  obtain dev' where "vu_queue_map_desc demo_dev demo_vq 2 32 = Inr (Some demo_elem, dev')"
    using demo_map by blast
  from mapped_element_is_the_chain [OF this demo_ok] obtain tbl mx i rs ws where
    "chain_start demo_dev demo_vq 2 tbl mx i" "desc_chain demo_dev tbl mx i (rs @ ws)"
    "iov_bytes (el_out_sg demo_elem) = concat (map (desc_bytes demo_dev) rs)"
    by blast
  moreover have "iov_bytes (el_out_sg demo_elem) = [0x5120, 0x5121, 0x5122]" by code_simp
  ultimately show ?thesis
    by (intro exI [of _ tbl] exI [of _ mx] exI [of _ i] exI [of _ rs] exI [of _ ws]) simp
qed

text \<open>
  C1: \<^bold>\<open>an element never reaches outside guest memory.\<close> Every piece of an element lies, from its
  first byte to its last, in the mapping of one region the front end has shared, and is not
  empty, whatever the descriptors say.
\<close>
theorem mapped_pieces_stay_in_shared_memory:
  assumes "vu_queue_map_desc dev vq idx sz = Inr (Some e, dev')" and "regions_ok dev"
  shows "\<forall>v \<in> set (el_out_sg e @ el_in_sg e). \<exists>r \<in> set (regions_of dev). piece_in r v"
proof -
  obtain tbl mx i outs ins dev2 n where
      "map_chain dev tbl i mx [] [] = Inr (Some (outs, ins), dev2)"
      "e = \<lparr>el_index = idx, el_out_sg = outs, el_in_sg = ins\<rparr>"
    by (rule vu_queue_map_desc_Some [OF assms(1)])
  with map_chain_pieces_ok [OF this(1) assms(2)] show ?thesis
    by (auto simp: list_all_iff piece_ok_def list_ex_iff)
qed

theorem mapped_pieces_stay_in_shared_memory_witness:
  "(\<exists>r \<in> set (regions_of demo_dev). piece_in r (hd (el_out_sg demo_elem))) \<and>
   (\<exists>r \<in> set (regions_of demo_dev). piece_in r (hd (el_in_sg demo_elem)))"
proof -
  obtain dev' where "vu_queue_map_desc demo_dev demo_vq 2 32 = Inr (Some demo_elem, dev')"
    using demo_map by blast
  from mapped_pieces_stay_in_shared_memory [OF this demo_ok(1)] show ?thesis
    by (simp add: demo_elem_def)
qed

text \<open>A walk that succeeds has followed a chain that ends.\<close>

lemma map_chain_desc_chain:
  "map_chain dev tbl i mx outs ins = Inr (Some res, dev') \<Longrightarrow> \<exists>ds. desc_chain dev tbl mx i ds"
proof (induction dev tbl i mx outs ins rule: map_chain.induct)
  case (1 dev tbl i mx outs ins)
  from 1(2) obtain d where d: "read_desc dev tbl i = Inr d"
    by (cases "read_desc dev tbl i") (auto simp: map_chain.simps [of dev tbl i mx outs ins])
  from 1(2) d obtain outs1 ins1 dev1 where m: "map_one dev outs ins d = Inr (Some (outs1, ins1), dev1)"
    by (auto simp: map_chain.simps [of dev tbl i mx outs ins] split: sum.splits option.splits)
  note len = map_one_length [OF m]
  from 1(2) d m len have fits: "\<not> length ins1 + length outs1 > unat mx"
    by (auto simp: map_chain.simps [of dev tbl i mx outs ins])
  obtain r dev2 where n: "virtqueue_read_next_desc dev tbl i mx = Inr (r, dev2)"
    using read_next_total [OF d] by blast
  from read_next_cases [OF n d] show ?case
  proof (elim disjE conjE)
    assume "r = ReadDone" "\<not> has_next d"
    with desc_chain.last [OF d] show ?thesis by blast
  next
    assume "r = ReadError"
    with 1(2) d m n len fits show ?thesis by (simp add: map_chain.simps [of dev tbl i mx outs ins])
  next
    assume r: "r = MoreDesc (ucast (d_next d))" "has_next d" "ucast (d_next d) < mx" "dev2 = dev"
    with 1(2) d m n len fits have rec: "map_chain dev tbl (ucast (d_next d)) mx outs1 ins1 = Inr (Some res, dev')"
      by (simp add: map_chain.simps [of dev tbl i mx outs ins])
    have "\<exists>ds. desc_chain dev tbl mx (ucast (d_next d)) ds"
      using 1(1) [OF d m _ refl refl _ n _ _ rec] fits len r by simp
    with desc_chain.more [OF d r(2,3)] show ?thesis by blast
  qed
qed

text \<open>The descriptor of the queue's own table at an index.\<close>

definition ring_entry :: "VuDev \<Rightarrow> VuVirtq \<Rightarrow> u32 \<Rightarrow> vring_desc" where
  "ring_entry dev vq i = load_desc (dv_mem dev) (ring_desc (vq_vring vq)) (scast i)"

text \<open>
  C14: \<^bold>\<open>an endless chain breaks the device, it does not hang it.\<close> Let the head be an entry of the queue's table
  that is not indirect, and let the chain from it never come to an end: there is a set of entries of the table with the
  head in it in which every entry says it has a successor, which is again in the set (the chain runs in a circle) or past
  the end of the table. Then the walk still returns: no element, and the device is marked broken. Whatever the entries
  outside the set hold, and whatever the buffers are, is of no matter.
\<close>
theorem endless_chain_breaks_the_device:
  assumes "ring_desc (vq_vring vq) \<noteq> 0" and "idx \<in> S"
    and "d_flags (ring_entry dev vq idx) AND VRING_DESC_F_INDIRECT = 0"
    and "\<forall>i \<in> S. i < ring_num (vq_vring vq) \<and> has_next (ring_entry dev vq i) \<and>
           (ucast (d_next (ring_entry dev vq i)) \<in> S \<or> ring_num (vq_vring vq) \<le> ucast (d_next (ring_entry dev vq i)))"
  shows "\<exists>dev'. vu_queue_map_desc dev vq idx sz = Inr (None, dev') \<and> dv_broken dev'"
proof -
  let ?mx = "ring_num (vq_vring vq)"
  let ?tbl = "DescAt (ring_desc (vq_vring vq)) ?mx"
  have table: "readable_table dev ?tbl ?mx" using assms(1) by (simp add: readable_table_def)
  have read: "read_desc dev ?tbl i = Inr (ring_entry dev vq i)" if "i \<in> S" for i
    using assms(1,4) that by (simp add: read_desc_def ring_entry_def)
  obtain r dev' where m: "map_chain dev ?tbl idx ?mx [] [] = Inr (r, dev')" "r = None \<longrightarrow> dv_broken dev'"
    using map_chain_total [OF table, of idx "[]" "[]"] assms(2,4) by auto
  have no_chain: "i \<notin> S" if "desc_chain dev ?tbl ?mx i ds" for i ds
    using that
  proof induction
    case (last i d)
    then show ?case using read assms(4) by auto
  next
    case (more i d ds)
    then show ?case using read [of i] assms(4) by (auto simp: not_le)
  qed
  have "r = None"
    using m(1) map_chain_desc_chain [of dev ?tbl idx ?mx "[]" "[]" _ dev'] no_chain assms(2) by (cases r) blast+
  with m read [OF assms(2)] assms(3) show ?thesis by (auto simp: vu_queue_map_desc_def Let_def)
qed

text \<open>
  The witness: entries 1 and 2 of a ring of 4 point at each other, with good buffers; 0 and 3 are unused.
\<close>

definition circle_mem :: mem where
  "circle_mem =
     store_desc (store_desc (\<lambda>_. 0) (0x5000 + 16 * 1) \<lparr>d_addr = 0x1120, d_len = 4, d_flags = VRING_DESC_F_NEXT, d_next = 2\<rparr>)
       (0x5000 + 16 * 2) \<lparr>d_addr = 0x1130, d_len = 4, d_flags = VRING_DESC_F_NEXT, d_next = 1\<rparr>"

theorem endless_chain_breaks_the_device_witness:
  "\<exists>dev'. vu_queue_map_desc (demo_dev\<lparr>dv_mem := circle_mem\<rparr>) demo_vq 1 32 = Inr (None, dev') \<and> dv_broken dev'"
proof -
  let ?dev = "demo_dev\<lparr>dv_mem := circle_mem\<rparr>"
  have e: "ring_entry ?dev demo_vq 1 = \<lparr>d_addr = 0x1120, d_len = 4, d_flags = VRING_DESC_F_NEXT, d_next = 2\<rparr>"
    "ring_entry ?dev demo_vq 2 = \<lparr>d_addr = 0x1130, d_len = 4, d_flags = VRING_DESC_F_NEXT, d_next = 1\<rparr>"
    by code_simp+
  have ring: "ring_desc (vq_vring demo_vq) = 0x5000" "ring_num (vq_vring demo_vq) = 4" by (simp_all add: demo_vq_def)
  have "d_flags (ring_entry ?dev demo_vq 1) AND VRING_DESC_F_INDIRECT = 0" unfolding e by code_simp
  moreover have "has_next \<lparr>d_addr = a, d_len = n, d_flags = VRING_DESC_F_NEXT, d_next = k\<rparr>" for a n k
    by (simp add: has_next_def VRING_DESC_F_NEXT_def)
  ultimately show ?thesis
    using endless_chain_breaks_the_device [of demo_vq 1 "{1, 2}" ?dev 32] ring by (simp add: e)
qed

section \<open>Popping in order\<close>

lemma vu_queue_empty_False:
  assumes "vu_queue_empty dev vq = (False, vq1)"
  shows "\<exists>sh. vq1 = vq\<lparr>vq_shadow_avail_idx := sh\<rparr> \<and> sh \<noteq> vq_last_avail_idx vq"
  using assms
  by (auto simp: vu_queue_empty_def vring_avail_idx_def Let_def split: if_splits
      intro: exI [of _ "vq_shadow_avail_idx vq"])

lemma virtqueue_get_head_Some:
  assumes "virtqueue_get_head dev vq idx = Inr (Some h, dev')"
  shows "h = ucast (vring_avail_ring dev vq (idx mod ring_num (vq_vring vq)))"
    and "h < ring_num (vq_vring vq)" and "dev' = dev"
  using assms by (auto simp: virtqueue_get_head_def Let_def not_le split: if_splits)

lemma pop_avail_Some:
  assumes "pop_avail dev vq sz = Inr (Some e, dev', vq')"
  shows "\<exists>sh cnt. vq' = vq\<lparr>vq_shadow_avail_idx := sh, vq_last_avail_idx := vq_last_avail_idx vq + 1,
      vq_inuse := vq_inuse vq + 1, vq_counter := cnt\<rparr> \<and> sh \<noteq> vq_last_avail_idx vq \<and>
    vq_inuse vq < ring_num (vq_vring vq) \<and>
    el_index e = ucast (vring_avail_ring dev vq (ucast (vq_last_avail_idx vq) mod ring_num (vq_vring vq))) \<and>
    el_index e < ring_num (vq_vring vq)"
proof -
  from assms obtain vq1 where e: "vu_queue_empty dev vq = (False, vq1)"
    by (auto simp: pop_avail_def Let_def split: prod.splits if_splits)
  from vu_queue_empty_False [OF e] obtain sh where
    vq1: "vq1 = vq\<lparr>vq_shadow_avail_idx := sh\<rparr>" "sh \<noteq> vq_last_avail_idx vq" by blast
  let ?vq2 = "vq1\<lparr>vq_last_avail_idx := vq_last_avail_idx vq + 1\<rparr>"
  from assms e vq1 have room: "vq_inuse vq < ring_num (vq_vring vq)"
    by (auto simp: pop_avail_def Let_def not_le split: if_splits)
  from assms e vq1 room obtain h dev1 where
    h: "virtqueue_get_head dev ?vq2 (ucast (vq_last_avail_idx vq)) = Inr (Some h, dev1)"
    by (auto simp: pop_avail_def Let_def tbind_eq_Inr_iff split: option.splits if_splits)
  note h' = virtqueue_get_head_Some [OF h]
  from assms e vq1 room h obtain dev2 dev3 where
    m: "vu_queue_map_desc dev2 ?vq2 h sz = Inr (Some e, dev3)"
    and vq': "vq' = snd (snd (vu_queue_inflight_get dev3 (?vq2\<lparr>vq_inuse := vq_inuse ?vq2 + 1\<rparr>) h))"
    by (auto simp: pop_avail_def Let_def tbind_eq_Inr_iff split: option.splits if_splits prod.splits)
  have "el_index e = h" by (rule vu_queue_map_desc_Some [OF m]) simp
  moreover have "\<exists>cnt. vq' = ?vq2\<lparr>vq_inuse := vq_inuse ?vq2 + 1, vq_counter := cnt\<rparr>"
    unfolding vq' by (cases vq1) (auto simp: vu_queue_inflight_get_def Let_def)
  ultimately show ?thesis using h' vq1 room
    by (auto simp: vring_avail_ring_def intro!: exI [of _ sh])
qed

text \<open>
  C6: \<^bold>\<open>heads are taken in ring order, once each.\<close> A successful pop (with nothing to resubmit)
  returns the head stored at the slot of the running index \<open>last_avail_idx\<close>, which is a valid
  descriptor index, advances the index by one and counts the element in \<open>inuse\<close>, which never
  exceeds the size of the queue; nothing else of the queue changes but the cached available
  index and the in-flight counter.
\<close>
theorem pop_takes_the_next_head:
  assumes "vu_queue_pop dev vq sz = Inr (Some e, dev', vq')" and "vq_resubmit_list vq = None"
  shows "el_index e = ucast (vring_avail_ring dev vq (ucast (vq_last_avail_idx vq) mod ring_num (vq_vring vq))) \<and>
    el_index e < ring_num (vq_vring vq) \<and> vq_inuse vq' \<le> ring_num (vq_vring vq) \<and>
    (\<exists>sh cnt. vq' = vq\<lparr>vq_shadow_avail_idx := sh, vq_last_avail_idx := vq_last_avail_idx vq + 1,
       vq_inuse := vq_inuse vq + 1, vq_counter := cnt\<rparr> \<and> sh \<noteq> vq_last_avail_idx vq)"
proof -
  from assms have "pop_avail dev vq sz = Inr (Some e, dev', vq')"
    by (auto simp: vu_queue_pop_def split: if_splits)
  from pop_avail_Some [OF this] show ?thesis
    by (auto simp: word_le_nat_alt word_less_nat_alt unat_inc32)
qed

theorem pop_takes_the_next_head_witness:
  "\<exists>dev' vq'. vu_queue_pop demo_dev demo_vq 32 = Inr (Some demo_elem, dev', vq') \<and>
     vring_avail_ring demo_dev demo_vq 0 = 2 \<and> vq_inuse vq' \<le> 4"
proof -
  obtain dev' vq' where p: "vu_queue_pop demo_dev demo_vq 32 = Inr (Some demo_elem, dev', vq')"
    using demo_pop by blast
  have "vring_avail_ring demo_dev demo_vq 0 = 2" by code_simp
  with pop_takes_the_next_head [OF p] p show ?thesis by (simp add: demo_vq_def)
qed

text \<open>
  A batch of pops, all of which succeed.
\<close>

fun pop_many ::
    "nat \<Rightarrow> VuDev \<Rightarrow> VuVirtq \<Rightarrow> u64 \<Rightarrow> (VuVirtqElement list \<times> VuDev \<times> VuVirtq) option"
where
  "pop_many 0 dev vq sz = Some ([], dev, vq)"
| "pop_many (Suc n) dev vq sz =
     (case vu_queue_pop dev vq sz of
        Inr (Some e, dev1, vq1) \<Rightarrow> map_option (\<lambda>(es, r). (e # es, r)) (pop_many n dev1 vq1 sz)
      | _ \<Rightarrow> None)"

lemma pop_resubmit_None:
  assumes "vu_queue_pop dev vq sz = Inr (Some e, dev', vq')" and "vq_resubmit_list vq = None"
  shows "vq_resubmit_list vq' = None \<and> vq_last_avail_idx vq' = vq_last_avail_idx vq + 1 \<and>
    unat (vq_inuse vq') = unat (vq_inuse vq) + 1"
proof -
  from assms have "pop_avail dev vq sz = Inr (Some e, dev', vq')"
    by (auto simp: vu_queue_pop_def split: if_splits)
  from pop_avail_Some [OF this] assms(2) show ?thesis by (auto simp: word_less_nat_alt unat_inc32)
qed

lemma pop_many_indices:
  assumes "pop_many n dev vq sz = Some (es, dev', vq')" and "vq_resubmit_list vq = None"
  shows "vq_resubmit_list vq' = None \<and> vq_last_avail_idx vq' = vq_last_avail_idx vq + of_nat n \<and>
    unat (vq_inuse vq') = unat (vq_inuse vq) + n"
  using assms
proof (induction n arbitrary: dev vq es)
  case (Suc n)
  from Suc.prems(1) obtain e dev1 vq1 es' where
    p: "vu_queue_pop dev vq sz = Inr (Some e, dev1, vq1)" and m: "pop_many n dev1 vq1 sz = Some (es', dev', vq')"
    by (auto split: sum.splits option.splits)
  note one = pop_resubmit_None [OF p Suc.prems(2)]
  from Suc.IH [OF m] one show ?case by (simp add: ac_simps)
qed simp

text \<open>
  Rewinding undoes a batch of pops. After any number of successful pops (below the 65536
  the 16-bit index can tell apart), \<open>vu_queue_rewind\<close> by that number succeeds and restores the
  running index and the count of elements in use, so the same heads are popped again.
\<close>
lemma rewind_undoes_pops:
  assumes "pop_many n dev vq sz = Some (es, dev', vq')" and "vq_resubmit_list vq = None"
    and "n < 2 ^ 16"
  shows "\<exists>vq''. vu_queue_rewind vq' (of_nat n) = (True, vq'') \<and>
    vq_last_avail_idx vq'' = vq_last_avail_idx vq \<and> vq_inuse vq'' = vq_inuse vq \<and>
    vq_vring vq'' = vq_vring vq' \<and> vq_used_idx vq'' = vq_used_idx vq'"
proof -
  note p = pop_many_indices [OF assms(1,2)]
  have n: "unat (of_nat n :: u32) = n" using assms(3) by (simp add: unat_of_nat take_bit_nat_eq_self)
  then have le: "\<not> of_nat n > vq_inuse vq'" using p by (simp add: word_less_nat_alt)
  have "vq_inuse vq' - of_nat n = vq_inuse vq"
    using p n le by (simp only: word_unat_eq_iff) (simp add: unat_sub word_le_nat_alt not_less)
  moreover have "(ucast (of_nat n :: u32) :: u16) = of_nat n"
    by (simp add: word_unat_eq_iff n unsigned_ucast_eq unsigned_of_nat)
  ultimately show ?thesis using le p by (auto simp: vu_queue_rewind_def)
qed

text \<open>
  Unpop undoes a pop: giving back the element of the latest pop leaves the queue as before
  it, but for the cached available index and the in-flight counter.
\<close>
lemma unpop_undoes_pop:
  assumes "vu_queue_pop dev vq sz = Inr (Some e, dev', vq')" and "vq_resubmit_list vq = None"
  shows "\<exists>sh cnt. vu_queue_unpop vq' = vq\<lparr>vq_shadow_avail_idx := sh, vq_counter := cnt\<rparr>"
proof -
  from assms have "pop_avail dev vq sz = Inr (Some e, dev', vq')"
    by (auto simp: vu_queue_pop_def split: if_splits)
  from pop_avail_Some [OF this] show ?thesis
    by (cases vq) (auto simp: vu_queue_unpop_def vu_queue_detach_element_def)
qed

section \<open>Pushing\<close>

lemma vu_log_write_off: "\<not> vu_has_feature dev VHOST_F_LOG_ALL \<Longrightarrow> vu_log_write dev a n = Inr dev"
  by (simp add: vu_log_write_def)

lemma desc_chain_start: "desc_chain dev tbl mx i ds \<Longrightarrow> \<exists>d ds'. ds = d # ds' \<and> read_desc dev tbl i = Inr d"
  by (induction rule: desc_chain.induct) auto

text \<open>With dirty logging off, the walk over a well-formed chain changes nothing.\<close>

lemma log_chain_off:
  assumes "desc_chain dev tbl mx i ds" and "\<not> vu_has_feature dev VHOST_F_LOG_ALL"
    and "unat num_bufs + length ds \<le> unat mx" and "length ds \<le> fuel"
  shows "log_chain fuel dev tbl i mx num_bufs len = Inr dev"
  using assms
proof (induction i ds arbitrary: fuel num_bufs len rule: desc_chain.induct)
  case (last i d)
  then obtain f where f: "fuel = Suc f" by (cases fuel) auto
  have "unat (num_bufs + 1) = unat num_bufs + 1" using last.prems(2) by (intro unat_inc32 [of _ mx]) simp
  then have room: "\<not> num_bufs + 1 > mx" using last.prems(2) by (simp add: word_less_nat_alt)
  show ?case using last.hyps last.prems(1) room
    by (auto simp: f vu_log_write_off virtqueue_read_next_desc_def has_next_def)
next
  case (more i d ds)
  then obtain f where f: "fuel = Suc f" by (cases fuel) auto
  have inc: "unat (num_bufs + 1) = unat num_bufs + 1" using more.prems(2) by (intro unat_inc32 [of _ mx]) simp
  then have room: "\<not> num_bufs + 1 > mx" using more.prems(2) by (simp add: word_less_nat_alt)
  have nxt: "virtqueue_read_next_desc dev tbl i mx = Inr (MoreDesc (ucast (d_next d)), dev)"
    using more.hyps by (simp add: virtqueue_read_next_desc_def has_next_def Let_def not_le)
  have rec: "log_chain f dev tbl (ucast (d_next d)) mx (num_bufs + 1) n = Inr dev" for n
    using more.IH [of "num_bufs + 1" f n] more.prems inc f by simp
  show ?case using more.hyps(1) more.prems(1) room
    by (auto simp: f vu_log_write_off nxt rec Let_def)
qed

definition head_chain :: "VuDev \<Rightarrow> VuVirtq \<Rightarrow> u32 \<Rightarrow> bool" where
  "head_chain dev vq idx \<longleftrightarrow>
     (\<exists>tbl mx i ds. chain_start dev vq idx tbl mx i \<and> desc_chain dev tbl mx i ds \<and> length ds \<le> unat mx)"

text \<open>What could be mapped has such a chain, so what was popped can be pushed.\<close>

lemma map_desc_head_chain:
  assumes "vu_queue_map_desc dev vq idx sz = Inr (Some e, dev')"
    and "regions_ok dev" and "regions_disjoint dev"
  shows "head_chain dev vq idx"
proof -
  obtain tbl mx i outs ins dev2 where "chain_start dev vq idx tbl mx i"
      "map_chain dev tbl i mx [] [] = Inr (Some (outs, ins), dev2)"
    by (rule vu_queue_map_desc_Some [OF assms(1)])
  with map_chain_success [OF this(2) assms(2,3)] show ?thesis
    unfolding head_chain_def by (metis add_0 list.size(3) order_trans)
qed

lemma vu_log_queue_fill_off:
  assumes "head_chain dev vq (el_index e)" and "\<not> vu_has_feature dev VHOST_F_LOG_ALL"
  shows "vu_log_queue_fill dev vq e len = Inr dev"
proof -
  from assms(1) obtain tbl mx i ds where c: "chain_start dev vq (el_index e) tbl mx i"
      "desc_chain dev tbl mx i ds" "length ds \<le> unat mx"
    by (auto simp: head_chain_def)
  have "log_chain (unat mx + 1) dev tbl i mx 0 len = Inr dev"
    using c(3) by (intro log_chain_off [OF c(2) assms(2)]) simp_all
  with c(1) show ?thesis
    by (auto simp: vu_log_queue_fill_def chain_start_def Let_def split: sum.splits if_splits)
qed

lemma scast_small: "i < 0x80000000 \<Longrightarrow> (scast (i :: u32) :: u64) = ucast i"
proof -
  assume "i < 0x80000000"
  then have "uint i < 2147483648" by (simp add: word_less_def)
  have "0 \<le> uint i" by simp
  then have "- (2 ^ 31) \<le> uint i" by (rule order_trans [rotated]) simp
  then have "signed_take_bit 31 (uint i) = uint i"
    using \<open>uint i < 2147483648\<close> by (intro signed_take_bit_int_eq_self) simp_all
  then have "sint i = uint i" unfolding sint_uint by simp
  then show ?thesis by (simp only: scast_eq ucast_eq)
qed

lemma used_slot_apart_from_idx:
  assumes "unat (i :: u64) < 2 ^ 32"
  shows "span (used_ring_addr us i) 8 \<inter> span (used_idx_addr us) 2 = {}"
proof (rule equals0I)
  fix x assume "x \<in> span (used_ring_addr us i) 8 \<inter> span (used_idx_addr us) 2"
  then obtain j k where jk: "j < 8" "k < 2" "us + 4 + 8 * i + of_nat j = us + 2 + of_nat k"
    by (auto simp: span_def used_ring_addr_def used_idx_addr_def)
  then have E: "8 * i + of_nat (j + 2) = (of_nat k :: u64)" by (simp add: algebra_simps)
  have U: "unat (8 * i + of_nat (j + 2)) = 8 * unat i + (j + 2)"
  proof -
    have "(8 * i + of_nat (j + 2) :: u64) = of_nat (8 * unat i + (j + 2))" by simp
    moreover have "8 * unat i + (j + 2) < 2 ^ 64" using assms jk(1) by simp
    ultimately show ?thesis by (simp only: unat_of_nat_u64)
  qed
  have "unat (of_nat k :: u64) = k" using jk(2) by (intro unat_of_nat_u64) simp
  then have "8 * unat i + (j + 2) = k" by (simp only: U [symmetric] E)
  with jk(2) show False by linarith
qed

text \<open>A push on a healthy device: the used element and the used index are stored, nothing else.\<close>

lemma vu_queue_push_stores:
  assumes "\<not> dv_broken dev" and "ring_avail (vq_vring vq) \<noteq> 0" and "ring_used (vq_vring vq) \<noteq> 0"
    and "0 < ring_num (vq_vring vq)" and "ring_num (vq_vring vq) \<le> 0x80000000"
    and "\<not> vu_has_feature dev VHOST_F_LOG_ALL"
    and "\<not> vu_has_protocol_feature dev VHOST_USER_PROTOCOL_F_INFLIGHT_SHMFD"
    and "head_chain dev vq (el_index e)"
  shows "vu_queue_push dev vq e len =
    (let us = ring_used (vq_vring vq);
         slot = used_ring_addr us (ucast (ucast (vq_used_idx vq) mod ring_num (vq_vring vq)));
         v = vq\<lparr>vq_used_idx := vq_used_idx vq + 1, vq_inuse := vq_inuse vq - 1\<rparr>
     in Inr (dev\<lparr>dv_mem := store16 (store_used_elem (dv_mem dev) slot \<lparr>ue_id = el_index e, ue_len = len\<rparr>)
               (used_idx_addr us) (vq_used_idx vq + 1),
               dv_trace := dv_trace dev @ [EvUsedElem slot \<lparr>ue_id = el_index e, ue_len = len\<rparr>, EvWmb,
                 EvUsedIdx (used_idx_addr us) (vq_used_idx vq + 1)]\<rparr>,
             if sint (vq_used_idx vq + 1 - vq_signalled_used v) < uint (vq_used_idx vq + 1 - vq_used_idx vq)
             then v\<lparr>vq_signalled_used_valid := False\<rparr> else v))"
proof -
  let ?us = "ring_used (vq_vring vq)"
  let ?i = "ucast (vq_used_idx vq) mod ring_num (vq_vring vq)"
  let ?slot = "used_ring_addr ?us (ucast ?i)"
  let ?m1 = "store_used_elem (dv_mem dev) ?slot \<lparr>ue_id = el_index e, ue_len = len\<rparr>"
  have "?i < ring_num (vq_vring vq)" using assms(4) by (rule word_mod_less_divisor)
  then have "?i < 0x80000000" using assms(5) by (rule less_le_trans)
  then have slot: "used_ring_addr ?us (scast ?i) = ?slot" by (simp only: scast_small)
  let ?ev = "EvUsedElem ?slot \<lparr>ue_id = el_index e, ue_len = len\<rparr>"
  have log1: "vu_log_write (dev\<lparr>dv_mem := m, dv_trace := t\<rparr>) a n = Inr (dev\<lparr>dv_mem := m, dv_trace := t\<rparr>)" for m t a n
    using assms(6) by (intro vu_log_write_off) (simp add: vu_has_feature_def)
  have fill: "vu_queue_fill dev vq e len 0 = Inr (dev\<lparr>dv_mem := ?m1, dv_trace := dv_trace dev @ [?ev]\<rparr>)"
    using assms vu_log_queue_fill_off [OF assms(8,6)]
    by (simp add: vu_queue_fill_def vring_used_write_def Let_def slot log1 word_gt_0 vu_emit_def)
  have inf: "vu_queue_inflight_pre_put (dev\<lparr>dv_mem := m, dv_trace := t\<rparr>) v i = (True, dev\<lparr>dv_mem := m, dv_trace := t\<rparr>)"
     "vu_queue_inflight_post_put (dev\<lparr>dv_mem := m, dv_trace := t\<rparr>) v i = (True, dev\<lparr>dv_mem := m, dv_trace := t\<rparr>)" for m t v i
    using assms(7)
    by (simp_all add: vu_queue_inflight_pre_put_def vu_queue_inflight_post_put_def vu_has_protocol_feature_def)
  have new: "(ucast (ucast (vq_used_idx vq) + 1 :: u32) :: u16) = vq_used_idx vq + 1"
    using ucast_down_add [of "vq_used_idx vq" 1] by simp
  show ?thesis
    using assms(1-3)
    by (simp add: vu_queue_push_def fill inf vu_queue_flush_def vring_used_idx_set_def Let_def log1 new vu_emit_def)
qed

lemma stored_used_elem:
  fixes us :: u64 and i :: u32
  assumes "slot = used_ring_addr us (ucast i)"
    and "m' = store16 (store_used_elem m slot el) (used_idx_addr us) idx"
  shows "load_used_elem m' slot = el" and "load16 m' (used_idx_addr us) = idx"
    and "x \<notin> span slot 8 \<union> span (used_idx_addr us) 2 \<Longrightarrow> m' x = m x"
proof -
  have small: "unat (ucast i :: u64) < 2 ^ 32" using unat_bounds(3) [of i] by simp
  note apart = used_slot_apart_from_idx [OF small, of us]
  have "load_used_elem m' slot = load_used_elem (store_used_elem m slot el) slot"
    unfolding assms by (rule load_used_elem_cong, rule store16_outside) (use apart in blast)
  then show "load_used_elem m' slot = el" by (simp add: mem_simps)
  show "load16 m' (used_idx_addr us) = idx" by (simp add: assms(2) mem_simps)
  show "x \<notin> span slot 8 \<union> span (used_idx_addr us) 2 \<Longrightarrow> m' x = m x"
    by (simp add: assms(2) store16_outside store_used_elem_outside)
qed

text \<open>
  C5: \<^bold>\<open>a push publishes exactly one used element, and the element before the index.\<close> On a device that is not broken, with dirty
  logging (\<open>LOG_ALL\<close>) and the in-flight region (\<open>INFLIGHT_SHMFD\<close>) not negotiated, on a ring with at most \<open>2 ^ 31\<close> entries, pushing an
  element whose chain is well formed stores its head and length in the slot of the running used index, then passes
  the write barrier, and only then stores the index advanced by one: these are the only stores to the used ring, in this order. In the
  memory it leaves the slot holds the element, the index is the new one, and no other byte has changed; the queue has one
  element less in use, its running available index stays, and nothing else of the device changes.
\<close>
theorem push_publishes_one_element:
  assumes "\<not> dv_broken dev" and "ring_avail (vq_vring vq) \<noteq> 0" and "ring_used (vq_vring vq) \<noteq> 0"
    and "0 < ring_num (vq_vring vq)" and "ring_num (vq_vring vq) \<le> 0x80000000"
    and "\<not> vu_has_feature dev VHOST_F_LOG_ALL"
    and "\<not> vu_has_protocol_feature dev VHOST_USER_PROTOCOL_F_INFLIGHT_SHMFD"
    and "head_chain dev vq (el_index e)"
  shows "let us = ring_used (vq_vring vq);
      slot = used_ring_addr us (ucast (ucast (vq_used_idx vq) mod ring_num (vq_vring vq)));
      el = \<lparr>ue_id = el_index e, ue_len = len\<rparr>; idx = vq_used_idx vq + 1
    in \<exists>m' vq'. vu_queue_push dev vq e len =
         Inr (dev\<lparr>dv_mem := m',
                  dv_trace := dv_trace dev @ [EvUsedElem slot el, EvWmb, EvUsedIdx (used_idx_addr us) idx]\<rparr>, vq') \<and>
       load_used_elem m' slot = el \<and> load16 m' (used_idx_addr us) = idx \<and>
       (\<forall>x. x \<notin> span slot 8 \<union> span (used_idx_addr us) 2 \<longrightarrow> m' x = dv_mem dev x) \<and>
       vq_used_idx vq' = idx \<and> vq_inuse vq' = vq_inuse vq - 1 \<and>
       vq_last_avail_idx vq' = vq_last_avail_idx vq \<and> vq_vring vq' = vq_vring vq"
proof -
  let ?i = "ucast (vq_used_idx vq) mod ring_num (vq_vring vq) :: u32"
  note st = stored_used_elem [OF refl refl, where us = "ring_used (vq_vring vq)" and i = ?i]
  show ?thesis
    unfolding vu_queue_push_stores [OF assms] Let_def
    by (intro exI conjI, rule refl) (simp_all add: st)
qed

theorem push_publishes_one_element_witness:
  "\<exists>m' vq'. vu_queue_push demo_dev demo_vq demo_elem 8 =
       Inr (demo_dev\<lparr>dv_mem := m',
         dv_trace := dv_trace demo_dev @ [EvUsedElem 0x5084 \<lparr>ue_id = 2, ue_len = 8\<rparr>, EvWmb, EvUsedIdx 0x5082 1]\<rparr>, vq') \<and>
     load_used_elem m' 0x5084 = \<lparr>ue_id = 2, ue_len = 8\<rparr> \<and> load16 m' 0x5082 = 1 \<and>
     m' 0x5120 = demo_mem 0x5120"
proof -
  obtain dev' where "vu_queue_map_desc demo_dev demo_vq 2 32 = Inr (Some demo_elem, dev')"
    using demo_map by blast
  from map_desc_head_chain [OF this demo_ok] have c: "head_chain demo_dev demo_vq (el_index demo_elem)"
    by (simp add: demo_elem_def)
  have f: "\<not> vu_has_feature demo_dev VHOST_F_LOG_ALL"
    "\<not> vu_has_protocol_feature demo_dev VHOST_USER_PROTOCOL_F_INFLIGHT_SHMFD"
    by (simp_all add: vu_has_feature_def vu_has_protocol_feature_def has_feature_def demo_dev_def)
  have "(0x5120 :: u64) \<notin> span 0x5084 8 \<union> span 0x5082 2" by (simp add: span_8 span_2)
  with push_publishes_one_element [OF _ _ _ _ _ f c, of 8] show ?thesis
    by (auto simp: demo_dev_def demo_vq_def demo_elem_def Let_def used_ring_addr_def used_idx_addr_def)
qed

section \<open>Notifications\<close>

text \<open>
  C16: \<^bold>\<open>the guest is interrupted when, and only when, it asked to be.\<close> With the event index
  negotiated and a valid record of the last signal (and the always-notify rule for empty
  queues not in force), \<open>vring_notify\<close> says yes exactly if the used index the guest wants to
  hear about is among those published since then, counted modulo \<open>2 ^ 16\<close>; either way the
  record then says that everything up to \<open>used_idx\<close> has been signalled, so a second call without
  new elements stays silent.
\<close>
theorem notify_follows_the_event_index:
  assumes "vu_has_feature dev VIRTIO_RING_F_EVENT_IDX"
    and "\<not> vu_has_feature dev VIRTIO_F_NOTIFY_ON_EMPTY" and "vq_signalled_used_valid vq"
  shows "\<exists>vq'. vring_notify dev vq =
      ((\<exists>k < unat (vq_used_idx vq - vq_signalled_used vq).
          vring_get_used_event dev vq = vq_signalled_used vq + of_nat k), vq') \<and>
    vq' = vq\<lparr>vq_signalled_used := vq_used_idx vq\<rparr> \<and> \<not> fst (vring_notify dev vq')"
proof -
  have same: "vq\<lparr>vq_signalled_used_valid := True\<rparr> = vq" using assms(3) by (cases vq) simp
  have again: "\<not> vring_need_event ev n n" for ev n by (simp add: vring_need_event_def)
  show ?thesis
    using assms same again
    by (simp add: vring_notify_def Let_def vring_get_used_event_def vring_avail_ring_def
        vring_need_event_iff)
qed

theorem notify_follows_the_event_index_witness:
  "fst (vring_notify (demo_dev\<lparr>dv_features := 0x20000000\<rparr>)
          (demo_vq\<lparr>vq_used_idx := 2, vq_signalled_used := 1, vq_signalled_used_valid := True\<rparr>)) \<and>
   \<not> fst (vring_notify (demo_dev\<lparr>dv_features := 0x20000000\<rparr>)
          (demo_vq\<lparr>vq_used_idx := 1, vq_signalled_used := 0, vq_signalled_used_valid := True\<rparr>))"
proof -
  let ?dev = "demo_dev\<lparr>dv_features := 0x20000000\<rparr>"
  let ?vq = "\<lambda>u s. demo_vq\<lparr>vq_used_idx := u, vq_signalled_used := s, vq_signalled_used_valid := True\<rparr>"
  have f: "vu_has_feature ?dev VIRTIO_RING_F_EVENT_IDX" "\<not> vu_has_feature ?dev VIRTIO_F_NOTIFY_ON_EMPTY"
    by (simp_all add: vu_has_feature_def has_feature_def VIRTIO_RING_F_EVENT_IDX_def
        VIRTIO_F_NOTIFY_ON_EMPTY_def)
  have ev: "vring_get_used_event ?dev (?vq u s) = 1" for u s
  proof -
    have "vring_get_used_event demo_dev demo_vq = 1" by code_simp
    then show ?thesis by (simp add: vring_get_used_event_def vring_avail_ring_def)
  qed
  show ?thesis
    using notify_follows_the_event_index [OF f, of "?vq 2 1"] notify_follows_the_event_index [OF f, of "?vq 1 0"]
    by (simp add: ev)
qed

section \<open>Indirect tables that span regions\<close>

text \<open>
  C20: \<^bold>\<open>an indirect table split over two regions is misplaced.\<close> The copy of a table whose first \<open>k\<close>
  bytes lie in one region and the rest in another puts the rest \<open>16 * k\<close> bytes into the local
  array, not \<open>k\<close>: the pointer is advanced by \<open>k\<close> descriptors. Where that runs past the array's
  16384 bytes, memory behind it is overwritten; otherwise the bytes right after the first part
  are whatever was on the stack.
\<close>
theorem split_indirect_table_is_misplaced:
  assumes "0 < k" and "k < len" and "len \<le> DESC_BUF_BYTES"
    and "vu_gpa_to_va dev len addr = (p, k)" and "p \<noteq> 0"
    and "vu_gpa_to_va dev (len - k) (addr + k) = (q, len - k)" and "q \<noteq> 0"
  shows "if unat (16 * k) + unat (len - k) > unat DESC_BUF_BYTES
    then virtqueue_read_indirect_desc dev addr len = Inl OutOfBounds
    else \<exists>buf. virtqueue_read_indirect_desc dev addr len = Inr (Some buf) \<and>
           buf k = dv_stack dev k \<and> buf (16 * k) = dv_mem dev q"
proof -
  have len: "0 < len" "unat len \<le> 16384" using assms(2,3)
    by (auto simp: word_le_nat_alt word_less_nat_alt DESC_BUF_BYTES_def)
  have k: "unat k < unat len" "0 < unat k" using assms(1,2) by (auto simp: word_less_nat_alt)
  let ?b1 = "copy_in (dv_stack dev) 0 (dv_mem dev) p k"
  let ?b2 = "copy_in ?b1 (16 * k) (dv_mem dev) q (len - k)"
  have one: "virtqueue_read_indirect_desc dev addr len
      = read_indirect_loop dev ?b1 (16 * k) (addr + k) (len - k)"
    using assms len k unfolding virtqueue_read_indirect_desc_def
    by (subst read_indirect_loop.simps) (auto simp: DESC_BUF_BYTES_def)
  have "len \<noteq> k" using assms(2) by auto
  have two: "read_indirect_loop dev ?b1 (16 * k) (addr + k) (len - k)
      = (if unat (16 * k) + unat (len - k) > unat DESC_BUF_BYTES then Inl OutOfBounds else Inr (Some ?b2))"
    using assms(2,6,7) \<open>len \<noteq> k\<close>
    by (subst read_indirect_loop.simps) (simp add: read_indirect_loop.simps)
  have u16: "unat (16 * k) = 16 * unat k" using k len by (simp add: unat_word_ariths)
  have "\<not> k - 16 * k < len - k"
  proof
    assume "k - 16 * k < len - k"
    moreover have "unat (len - k) \<le> 16384" using k len by (simp add: unat_sub word_le_nat_alt)
    ultimately have "unat (k - 16 * k) < 16384" by (simp add: word_less_nat_alt)
    then have "unat (16 * k + (k - 16 * k)) = 16 * unat k + unat (k - 16 * k)"
      using u16 k len by (simp only: unat_word_ariths(1)) simp
    then have "unat k = 16 * unat k + unat (k - 16 * k)" by simp
    with k(2) show False by linarith
  qed
  moreover have "0 < len - k" using \<open>len \<noteq> k\<close> by (simp add: word_gt_0)
  ultimately have "?b2 k = dv_stack dev k" "?b2 (16 * k) = dv_mem dev q"
    by (simp_all add: copy_in_def)
  then show ?thesis using one two by auto
qed

theorem split_indirect_table_is_misplaced_witness:
  "virtqueue_read_indirect_desc
     (demo_dev\<lparr>dv_nregions := 2,
        dv_regions := [\<lparr>r_gpa = 0x1000, r_size = 0x800, r_qva = 0, r_mmap_offset = 0, r_mmap_addr = 0x5000\<rparr>,
                       \<lparr>r_gpa = 0x1800, r_size = 0x800, r_qva = 0, r_mmap_offset = 0, r_mmap_addr = 0x8000\<rparr>]\<rparr>)
     0x1000 0x1000 = Inl OutOfBounds"
  (is "virtqueue_read_indirect_desc ?dev _ _ = _")
proof -
  have t: "vu_gpa_to_va ?dev 0x1000 0x1000 = (0x5000, 0x800)"
    "vu_gpa_to_va ?dev (0x1000 - 0x800) (0x1000 + 0x800) = (0x8000, 0x1000 - 0x800)"
    by (simp_all add: vu_gpa_to_va_def)
  show ?thesis
    using split_indirect_table_is_misplaced [OF _ _ _ t(1) _ t(2)] by (simp add: DESC_BUF_BYTES_def)
qed

section \<open>Counting available bytes\<close>

lemma open_indirect_ends: "open_indirect dev d \<noteq> Inl Diverges"
proof -
  have loop: "read_indirect_loop dev buf off addr len \<noteq> Inl Diverges" for buf off addr len
  proof (induction dev buf off addr len rule: read_indirect_loop.induct)
    case (1 dev buf off addr len)
    then show ?case
      by (subst read_indirect_loop.simps) (auto split: prod.splits)
  qed
  show ?thesis
    by (auto simp: open_indirect_def Let_def tbind_def virtqueue_read_indirect_desc_def loop
        split: prod.splits sum.splits option.splits if_splits)
qed

lemma open_indirect_Some:
  "open_indirect dev d = Inr (Some (t, mx), dev') \<Longrightarrow> mx = d_len d div 16 \<and> dev' = dev"
  by (auto simp: open_indirect_def Let_def tbind_eq_Inr_iff split: prod.splits option.splits if_splits)

lemma read_desc_ends: "read_desc dev tbl i \<noteq> Inl Diverges"
  by (auto simp: read_desc_def split: desc_table.splits if_splits)

lemma read_next_ends: "virtqueue_read_next_desc dev tbl i mx \<noteq> Inl Diverges"
  using read_desc_ends [of dev tbl i]
  by (cases "read_desc dev tbl i") (auto simp: virtqueue_read_next_desc_def Let_def)

lemma fuel_step:
  fixes mx n :: u32
  assumes "mx \<noteq> - 1" and "\<not> n + 1 > mx"
  shows "unat (mx - (n + 1)) + 1 = unat (mx - n)"
proof -
  have "mx \<noteq> n" using assms u32_inc_le [of n] by (auto simp: not_less)
  then have "mx - n \<noteq> 0" by simp
  then have "unat (mx - n - 1) + 1 = unat (mx - n)" by (simp add: unat_minus_one unat_gt_0)
  then show ?thesis by (simp add: diff_diff_eq)
qed

lemma avail_chain_ends:
  "mx \<noteq> - 1 \<Longrightarrow> unat (mx - n) < fuel \<Longrightarrow> avail_chain fuel dev tbl i mx n tot lim \<noteq> Inl Diverges"
proof (induction fuel arbitrary: dev i n tot)
  case (Suc fuel)
  show ?case
  proof (cases "n + 1 > mx")
    case False
    from fuel_step [OF Suc.prems(1) False] Suc.prems(2) have "unat (mx - (n + 1)) < fuel" by simp
    note IH = Suc.IH [OF Suc.prems(1) this]
    from read_desc_ends [of dev tbl i] read_next_ends [of dev tbl i mx] IH False show ?thesis
      by (auto simp: tbind_def split: sum.splits prod.splits read_next.splits)
  qed simp
qed simp

lemma avail_chain_dev:
  "avail_chain fuel dev tbl i mx n tot lim = Inr (ChainEnd a b nb, dev') \<Longrightarrow> dev' = dev"
proof (induction fuel arbitrary: dev i n tot)
  case (Suc fuel)
  from Suc.prems obtain d where d: "read_desc dev tbl i = Inr d"
    by (auto simp: tbind_eq_Inr_iff split: if_splits)
  obtain r dev1 where nxt: "virtqueue_read_next_desc dev tbl i mx = Inr (r, dev1)"
    using read_next_total [OF d] by blast
  from Suc.prems d nxt read_next_cases [OF nxt d] show ?case
    by (auto dest: Suc.IH split: if_splits prod.splits)
qed simp

lemma avail_table_Some:
  assumes "avail_table dev vq head nbufs = Inr (Some (tbl, mx, i, nb, ind), dev')"
  shows "dev' = dev \<and> (ring_num (vq_vring vq) \<noteq> - 1 \<longrightarrow> mx \<noteq> - 1)"
proof -
  have small: "n div 16 \<noteq> - 1" for n :: u32
  proof
    assume "n div 16 = - 1"
    then have "unat (n div 16) = unat (- 1 :: u32)" by simp
    then have "unat n div 16 = 4294967295" by (simp add: unat_div unsigned_minus_1_eq_mask mask_eq_exp_minus_1)
    then show False using unat_bounds(3) [of n] by simp
  qed
  from assms show ?thesis
    by (auto simp: avail_table_def Let_def tbind_eq_Inr_iff small split: if_splits
        dest!: open_indirect_Some)
qed

lemma avail_table_ends: "avail_table dev vq head nbufs \<noteq> Inl Diverges"
  using read_desc_ends [of dev "DescAt (ring_desc (vq_vring vq)) (ring_num (vq_vring vq))" head] open_indirect_ends [of dev]
  by (auto simp: avail_table_def Let_def tbind_def split: sum.splits prod.splits)

lemma virtqueue_num_heads_cases:
  assumes "virtqueue_num_heads dev vq idx = (n, dev', vq')"
  shows "vq_vring vq' = vq_vring vq"
    and "n = Some h \<Longrightarrow> dev' = dev \<and> h = avail_idx (dv_mem dev) (ring_avail (vq_vring vq)) - ucast idx"
  using assms
  by (auto simp: virtqueue_num_heads_def vring_avail_idx_def Let_def ucast_down_sub split: if_splits)

lemma avail_heads_ends:
  assumes "ring_num (vq_vring vq) \<noteq> - 1"
    and "unat (avail_idx (dv_mem dev) (ring_avail (vq_vring vq)) - ucast idx) < fuel"
  shows "avail_heads fuel dev vq idx nbufs tot lim \<noteq> Inl Diverges"
  using assms
proof (induction fuel arbitrary: dev vq idx nbufs tot)
  case (Suc fuel)
  obtain n dev1 vq1 where heads: "virtqueue_num_heads dev vq idx = (n, dev1, vq1)"
    by (cases "virtqueue_num_heads dev vq idx")
  note hc = virtqueue_num_heads_cases [OF heads]
  show ?case
  proof (cases "n = None \<or> n = Some 0")
    case True
    with heads show ?thesis by auto
  next
    case False
    then obtain h where h: "n = Some h" "h \<noteq> 0" by (cases n) auto
    from hc(2) [OF h(1)] have dev1: "dev1 = dev"
      and hh: "h = avail_idx (dv_mem dev) (ring_avail (vq_vring vq)) - ucast idx" by simp_all
    have "unat h < Suc fuel" using Suc.prems(2) hh by simp
    moreover have "unat (h - 1) = unat h - 1" "0 < unat h" using h(2) by (simp_all add: unat_minus_one unat_gt_0)
    ultimately have "unat (h - 1) < fuel" by linarith
    moreover have "avail_idx (dv_mem dev) (ring_avail (vq_vring vq1)) - ucast (idx + 1) = h - 1"
      using ucast_inc [of idx] by (simp add: hh hc(1) diff_diff_eq)
    ultimately have rec: "avail_heads fuel dev vq1 (idx + 1) nb t lim \<noteq> Inl Diverges" for nb t
      using Suc.prems(1) hc(1) by (intro Suc.IH) simp_all
    have head: "virtqueue_get_head dev vq1 idx \<noteq> Inl Diverges"
      by (simp add: virtqueue_get_head_def Let_def)
    show ?thesis
    proof (cases "virtqueue_get_head dev vq1 idx")
      case (Inl t)
      with head heads h dev1 show ?thesis by auto
    next
      case (Inr hd2)
      obtain ho dev2 where hd2: "hd2 = (ho, dev2)" by (cases hd2)
      show ?thesis
      proof (cases ho)
        case None
        with Inr hd2 heads h dev1 show ?thesis by simp
      next
        case (Some hd0)
        with Inr hd2 have dev2: "dev2 = dev" using virtqueue_get_head_Some(3) by blast
        show ?thesis
          using heads h dev1 Inr hd2 Some dev2 rec avail_table_ends [of dev vq1 hd0 nbufs] Suc.prems(1) hc(1)
          by (auto simp: tbind_def avail_chain_ends split: sum.splits prod.splits option.splits
              chain_bytes.splits if_splits dest!: avail_table_Some dest: avail_chain_dev
              simp del: avail_chain.simps)
      qed
    qed
  qed
qed simp

text \<open>
  C19: \<^bold>\<open>counting the available bytes always ends.\<close> Whatever the guest has put into the available
  ring and the descriptor tables, circular chains included, \<open>vu_queue_get_avail_bytes\<close> returns
  or traps; it never loops, as long as the queue size is not \<open>UINT_MAX\<close>.
\<close>
theorem counting_available_bytes_ends:
  assumes "ring_num (vq_vring vq) \<noteq> - 1"
  shows "vu_queue_get_avail_bytes dev vq max_in max_out \<noteq> Inl Diverges"
  using avail_heads_ends [OF assms, of dev "ucast (vq_last_avail_idx vq)"]
  by (simp add: vu_queue_get_avail_bytes_def Let_def ucast_ucast_u16 del: avail_heads.simps)

theorem counting_available_bytes_ends_witness:
  "vu_queue_get_avail_bytes demo_dev demo_vq 100 100 \<noteq> Inl Diverges"
  by (rule counting_available_bytes_ends) (simp add: demo_vq_def)

end
