(* ===== verification/VuMsg.thy ===== *)
theory VuMsg
  imports VuQueue
begin

text \<open>
  The vhost-user protocol side of \<^verbatim>\<open>project_1/vhost/libvhost-user.c\<close>: one definition per message
  handler, the dispatcher, and setting a device up and tearing it down. A handler takes the
  device and the message and returns whether a reply is wanted, the device and the message.
  The callbacks of the device implementation come in a record of type \<open>VuDevIface\<close>.
\<close>

section \<open>The implementation's callbacks\<close>

text \<open>
  \<open>None\<close> is a null function pointer. \<open>if_queue_handler\<close> is the function installed with
  \<open>vu_set_queue_handler\<close> (the device records only whether one is installed).
\<close>

record VuDevIface =
  if_get_features :: "(VuDev \<Rightarrow> u64) option"
  if_set_features :: "(VuDev \<Rightarrow> u64 \<Rightarrow> VuDev) option"
  if_get_protocol_features :: "(VuDev \<Rightarrow> u64) option"
  if_set_protocol_features :: "(VuDev \<Rightarrow> u64 \<Rightarrow> VuDev) option"
  if_process_msg :: "(VuDev \<Rightarrow> VhostUserMsg \<Rightarrow> bool \<times> bool \<times> VuDev \<times> VhostUserMsg) option"
  if_queue_set_started :: "(VuDev \<Rightarrow> nat \<Rightarrow> bool \<Rightarrow> VuDev) option"
  if_queue_is_processed_in_order :: "(VuDev \<Rightarrow> nat \<Rightarrow> bool) option"
  if_get_config :: "(VuDev \<Rightarrow> u32 \<Rightarrow> int \<times> mem) option"
  if_set_config :: "(VuDev \<Rightarrow> mem \<Rightarrow> u32 \<Rightarrow> u32 \<Rightarrow> u32 \<Rightarrow> int \<times> VuDev) option"
  if_get_shared_object :: "(VuDev \<Rightarrow> mem \<Rightarrow> int) option"
  if_queue_handler :: "VuDev \<Rightarrow> nat \<Rightarrow> VuDev trapping"

type_synonym vu_reply = "(bool \<times> VuDev \<times> VhostUserMsg) trapping"

text \<open>Access to \<open>dev->vq[i]\<close>, and to \<open>vmsg->fds[i]\<close> (entries that were not sent are 0).\<close>

definition get_vq :: "VuDev \<Rightarrow> nat \<Rightarrow> VuVirtq trapping" where
  "get_vq dev i = (if i < length (dv_vq dev) then Inr (dv_vq dev ! i) else Inl OutOfBounds)"

definition put_vq :: "VuDev \<Rightarrow> nat \<Rightarrow> VuVirtq \<Rightarrow> VuDev" where
  "put_vq dev i vq = dev\<lparr>dv_vq := (dv_vq dev)[i := vq]\<rparr>"

definition fd_at :: "VhostUserMsg \<Rightarrow> nat \<Rightarrow> int" where
  "fd_at m i = (if i < length (m_fds m) then m_fds m ! i else 0)"

definition bits_or :: "nat list \<Rightarrow> u64" where
  "bits_or bs = fold (\<lambda>b w. w OR push_bit b 1) bs 0"

section \<open>Features\<close>

definition vu_get_features_exec :: "VuDevIface \<Rightarrow> VuDev \<Rightarrow> VhostUserMsg \<Rightarrow> vu_reply" where
  "vu_get_features_exec iface dev m =
     (let f0 = bits_or [VIRTIO_F_NOTIFY_ON_EMPTY, VIRTIO_RING_F_INDIRECT_DESC, VIRTIO_RING_F_EVENT_IDX,
                        VIRTIO_F_VERSION_1, VHOST_F_LOG_ALL, unat VHOST_USER_F_PROTOCOL_FEATURES];
          f1 = (case if_get_features iface of None \<Rightarrow> f0 | Some g \<Rightarrow> f0 OR g dev)
      in Inr (True, dev, m\<lparr>m_payload := store64 (m_payload m) 0 f1, m_size := 8, m_fds := []\<rparr>))"

definition vu_set_enable_all_rings :: "VuDev \<Rightarrow> bool \<Rightarrow> VuDev" where
  "vu_set_enable_all_rings dev enabled =
     dev\<lparr>dv_vq := map (\<lambda>q. q\<lparr>vq_enable := (if enabled then 1 else 0)\<rparr>) (dv_vq dev)\<rparr>"

definition vu_set_features_exec :: "VuDevIface \<Rightarrow> VuDev \<Rightarrow> VhostUserMsg \<Rightarrow> vu_reply" where
  "vu_set_features_exec iface dev m =
     (let dev1 = dev\<lparr>dv_features := payload_u64 m\<rparr>
      in if \<not> vu_has_feature dev1 VIRTIO_F_VERSION_1
         then Inr (False, vu_panic dev1 ''virtio legacy devices aren't supported by libvhost-user'', m)
         else
           let dev2 = (if dv_features dev1 AND VHOST_USER_F_PROTOCOL_FEATURES = 0
                       then vu_set_enable_all_rings dev1 True else dev1)
           in Inr (False,
                   (case if_set_features iface of
                      None \<Rightarrow> dev2
                    | Some s \<Rightarrow> s (vu_emit dev2 (EvSetFeatures (dv_features dev2))) (dv_features dev2)),
                   m))"

definition vu_set_owner_exec :: "VuDev \<Rightarrow> VhostUserMsg \<Rightarrow> vu_reply" where
  "vu_set_owner_exec dev m = Inr (False, dev, m)"

definition vu_close_log :: "VuDev \<Rightarrow> VuDev" where
  "vu_close_log dev =
     (let dev1 = (if dv_log_table dev \<noteq> 0
                  then (vu_emit dev (EvMunmap (dv_log_table dev) (dv_log_size dev)))\<lparr>dv_log_table := 0\<rparr>
                  else dev)
      in if dv_log_call_fd dev1 \<noteq> -1
         then (vu_emit dev1 (EvClose (dv_log_call_fd dev1)))\<lparr>dv_log_call_fd := -1\<rparr>
         else dev1)"

definition vu_reset_device_exec :: "VuDev \<Rightarrow> VhostUserMsg \<Rightarrow> vu_reply" where
  "vu_reset_device_exec dev m = Inr (False, vu_set_enable_all_rings dev False, m)"

text \<open>\<open>have_userfault\<close>: a descriptor can be had and the kernel has the two features.\<close>

definition have_userfault :: "VuDev \<Rightarrow> bool \<times> VuDev" where
  "have_userfault dev =
     (let (ufd, dev1) = vu_call dev (EvSyscall ''userfaultfd'')
      in if ufd < 0 then (False, dev1)
         else
           let (rc, dev2) = vu_call dev1 (EvSyscall ''UFFDIO_API'')
           in (rc = 0, vu_emit dev2 (EvClose ufd)))"

definition vu_get_protocol_features_exec :: "VuDevIface \<Rightarrow> VuDev \<Rightarrow> VhostUserMsg \<Rightarrow> vu_reply" where
  "vu_get_protocol_features_exec iface dev m =
     (let f0 = bits_or [VHOST_USER_PROTOCOL_F_MQ, VHOST_USER_PROTOCOL_F_LOG_SHMFD,
                        VHOST_USER_PROTOCOL_F_BACKEND_REQ, VHOST_USER_PROTOCOL_F_HOST_NOTIFIER,
                        VHOST_USER_PROTOCOL_F_BACKEND_SEND_FD, VHOST_USER_PROTOCOL_F_REPLY_ACK,
                        VHOST_USER_PROTOCOL_F_CONFIGURE_MEM_SLOTS];
          (uf, dev1) = have_userfault dev;
          f1 = (if uf then f0 OR push_bit VHOST_USER_PROTOCOL_F_PAGEFAULT 1 else f0);
          f2 = (if if_get_config iface \<noteq> None \<and> if_set_config iface \<noteq> None
                then f1 OR push_bit VHOST_USER_PROTOCOL_F_CONFIG 1 else f1);
          f3 = (case if_get_protocol_features iface of None \<Rightarrow> f2 | Some g \<Rightarrow> f2 OR g dev1)
      in Inr (True, dev1, vmsg_set_reply_u64 m f3))"

definition vu_set_protocol_features_exec :: "VuDevIface \<Rightarrow> VuDev \<Rightarrow> VhostUserMsg \<Rightarrow> vu_reply" where
  "vu_set_protocol_features_exec iface dev m =
     (let features = payload_u64 m; dev1 = dev\<lparr>dv_protocol_features := features\<rparr>
      in if vu_has_protocol_feature dev1 VHOST_USER_PROTOCOL_F_INBAND_NOTIFICATIONS \<and>
            (\<not> vu_has_protocol_feature dev1 VHOST_USER_PROTOCOL_F_BACKEND_REQ \<or>
             \<not> vu_has_protocol_feature dev1 VHOST_USER_PROTOCOL_F_REPLY_ACK)
         then Inr (False, vu_panic dev1 ''F_IN_BAND_NOTIFICATIONS requires F_BACKEND_REQ && F_REPLY_ACK'', m)
         else Inr (False,
                   (case if_set_protocol_features iface of
                      None \<Rightarrow> dev1
                    | Some s \<Rightarrow> s (vu_emit dev1 (EvSetProtocolFeatures features)) features), m))"

definition vu_get_queue_num_exec :: "VuDev \<Rightarrow> VhostUserMsg \<Rightarrow> vu_reply" where
  "vu_get_queue_num_exec dev m = Inr (True, dev, vmsg_set_reply_u64 m (ucast (dv_max_queues dev)))"

section \<open>Memory regions\<close>

text \<open>The result of \<open>map_ring\<close> is \<open>True\<close> for a failure, with the queue.\<close>

definition map_ring :: "VuDev \<Rightarrow> VuVirtq \<Rightarrow> bool \<times> VuVirtq" where
  "map_ring dev vq =
     (let d = qva_to_va dev (va_desc_user_addr (vq_vra vq));
          u = qva_to_va dev (va_used_user_addr (vq_vra vq));
          a = qva_to_va dev (va_avail_user_addr (vq_vra vq))
      in (\<not> (d \<noteq> 0 \<and> u \<noteq> 0 \<and> a \<noteq> 0),
          vq\<lparr>vq_vring := (vq_vring vq)\<lparr>ring_desc := d, ring_used := u, ring_avail := a\<rparr>\<rparr>))"

text \<open>The loop over the queues that maps those again that were mapped before.\<close>

fun remap_rings :: "string \<Rightarrow> nat list \<Rightarrow> VuDev \<Rightarrow> VuDev trapping" where
  "remap_rings msg [] dev = Inr dev"
| "remap_rings msg (i # is) dev =
     tbind (get_vq dev i) (\<lambda>vq.
       if ring_desc (vq_vring vq) \<noteq> 0
       then (let (bad, vq1) = map_ring dev vq; dev1 = put_vq dev i vq1
             in remap_rings msg is (if bad then vu_panic dev1 msg else dev1))
       else remap_rings msg is dev)"

text \<open>
  \<open>generate_faults\<close> on one region. The fourth call stands for reading \<open>reg_struct.ioctls\<close> after the
  \<open>ioctl\<close>: its answer says whether the region supports \<open>UFFDIO_COPY\<close>.
\<close>

definition fault_region :: "VuDev \<Rightarrow> VuDevRegion \<Rightarrow> bool \<times> VuDev" where
  "fault_region dev r =
     (let (_, dev1) = vu_call dev (EvSyscall ''madvise(DONTNEED)'');
          (_, dev2) = vu_call dev1 (EvSyscall ''madvise(NOHUGEPAGE)'');
          (rc, dev3) = vu_call dev2 (EvSyscall ''UFFDIO_REGISTER'')
      in if rc \<noteq> 0 then (False, vu_panic dev3 ''Failed to userfault region'')
         else
           let (copy, dev4) = vu_call dev3 (EvSyscall ''UFFDIO_COPY supported'')
           in if copy = 0 then (False, vu_panic dev4 ''Region doesn't support COPY'')
              else
                let (rc2, dev5) = vu_call dev4 (EvSyscall ''mprotect'')
                in if rc2 \<noteq> 0 then (False, vu_panic dev5 ''failed to mprotect region for postcopy'')
                   else (True, dev5))"

fun fault_regions :: "VuDevRegion list \<Rightarrow> VuDev \<Rightarrow> bool \<times> VuDev" where
  "fault_regions [] dev = (True, dev)"
| "fault_regions (r # rs) dev =
     (let (ok, dev1) = fault_region dev r in if ok then fault_regions rs dev1 else (False, dev1))"

definition generate_faults :: "VuDev \<Rightarrow> bool \<times> VuDev" where
  "generate_faults dev = fault_regions (take (unat (dv_nregions dev)) (dv_regions dev)) dev"

definition VHOST_USER_MEM_REG_SIZE :: u32 where
  "VHOST_USER_MEM_REG_SIZE = 32"

text \<open>
  Mapping one region into slot \<open>i\<close>: the fields are copied from the message, the mapping's address
  is kept only if \<open>mmap\<close> succeeds (\<open>MAP_FAILED\<close> is \<open>-1\<close>), and the descriptor is closed.
\<close>

definition map_region :: "VuDev \<Rightarrow> nat \<Rightarrow> VhostUserMemoryRegion \<Rightarrow> int \<Rightarrow> VuDev" where
  "map_region dev i mr fd =
     (let r = (dv_regions dev ! i)\<lparr>r_gpa := mr_guest_phys_addr mr, r_size := mr_memory_size mr,
                r_qva := mr_userspace_addr mr, r_mmap_offset := mr_mmap_offset mr\<rparr>;
          (rc, dev1) = vu_call dev (EvMmap (r_size r + r_mmap_offset r) fd 0);
          dev2 = (if rc = -1
                  then vu_panic (dev1\<lparr>dv_regions := (dv_regions dev1)[i := r]\<rparr>) ''region mmap error''
                  else dev1\<lparr>dv_regions := (dv_regions dev1)[i := r\<lparr>r_mmap_addr := word_of_int rc\<rparr>]\<rparr>)
      in vu_emit dev2 (EvClose fd))"

definition vu_add_mem_reg :: "VuDev \<Rightarrow> VhostUserMsg \<Rightarrow> vu_reply" where
  "vu_add_mem_reg dev m =
     (let track = dv_postcopy_listening dev; n = unat (dv_nregions dev)
      in if length (m_fds m) \<noteq> 1
         then Inr (False, vu_panic (vmsg_close_fds dev m) ''VHOST_USER_ADD_MEM_REG: wrong number of fds'', m)
         else if m_size m < VHOST_USER_MEM_REG_SIZE
         then Inr (False, vu_panic (vu_emit dev (EvClose (fd_at m 0)))
                            ''VHOST_USER_ADD_MEM_REG: message too short'', m)
         else if n = VHOST_USER_MAX_RAM_SLOTS
         then Inr (False, vu_panic (vu_emit dev (EvClose (fd_at m 0))) ''no free ram slots available'', m)
         else if track \<and> m_size m = 8 \<and> payload_u64 m = 0
         then Inr (False, snd (generate_faults dev), m)
         else if \<not> n < length (dv_regions dev) then Inl OutOfBounds
         else
           let dev1 = map_region dev n (memreg_region m) (fd_at m 0)
           in if track
              then Inr (True, dev1\<lparr>dv_nregions := dv_nregions dev1 + 1\<rparr>, m\<lparr>m_fds := []\<rparr>)
              else tbind (remap_rings ''remapping queue for new memory region''
                            [0..<unat (dv_max_queues dev1)] dev1)
                     (\<lambda>dev2. Inr (False, dev2\<lparr>dv_nregions := dv_nregions dev2 + 1\<rparr>, m)))"

definition reg_equal :: "VuDevRegion \<Rightarrow> VhostUserMemoryRegion \<Rightarrow> bool" where
  "reg_equal r mr \<longleftrightarrow>
     r_gpa r = mr_guest_phys_addr mr \<and> r_qva r = mr_userspace_addr mr \<and> r_size r = mr_memory_size mr"

definition zero_region :: VuDevRegion where
  "zero_region = \<lparr>r_gpa = 0, r_size = 0, r_qva = 0, r_mmap_offset = 0, r_mmap_addr = 0\<rparr>"

text \<open>
  The loop of \<open>vu_rem_mem_reg\<close> over the regions from \<open>i\<close> on. \<open>memmove\<close> closes the hole, \<open>memset\<close> clears
  the last used slot; after a removal the same index is looked at again.
\<close>

function (sequential) rem_regions ::
    "VhostUserMemoryRegion \<Rightarrow> nat \<Rightarrow> bool \<Rightarrow> VuDev \<Rightarrow> bool \<times> VuDev"
where
  "rem_regions mr i found dev =
     (let n = unat (dv_nregions dev); rs = dv_regions dev
      in if \<not> i < n then (found, dev)
         else
           let r = rs ! i
           in if reg_equal r mr
              then
                let dev1 = (if r_mmap_addr r \<noteq> 0
                            then vu_emit dev (EvMunmap (r_mmap_addr r) (r_size r + r_mmap_offset r)) else dev);
                    rs1 = take i rs @ drop (i + 1) (take n rs) @ [zero_region] @ drop n rs
                in rem_regions mr i True (dev1\<lparr>dv_regions := rs1, dv_nregions := dv_nregions dev1 - 1\<rparr>)
              else rem_regions mr (i + 1) found dev)"
  by pat_completeness auto
termination
proof (relation "measure (\<lambda>(mr, i, found, dev). unat (dv_nregions dev) - i)", goal_cases)
  case (2 mr i found dev n rs r dev1 rs1)
  then have "dv_nregions dev1 = dv_nregions dev" "unat (dv_nregions dev) \<noteq> 0"
    by (auto simp: vu_emit_def)
  then have "unat (dv_nregions dev1 - 1) = unat (dv_nregions dev) - 1"
    by (subst unat_minus_one) (auto simp: unat_eq_zero)
  with 2 show ?case by simp
qed auto

declare rem_regions.simps [simp del]

definition vu_rem_mem_reg :: "VuDev \<Rightarrow> VhostUserMsg \<Rightarrow> vu_reply" where
  "vu_rem_mem_reg dev m =
     (if length (m_fds m) > 1
      then Inr (False, vu_panic (vmsg_close_fds dev m) ''VHOST_USER_REM_MEM_REG: too many fds'', m)
      else if m_size m < VHOST_USER_MEM_REG_SIZE
      then Inr (False, vu_panic (vmsg_close_fds dev m) ''VHOST_USER_REM_MEM_REG: message too short'', m)
      else
        let (found, dev1) = rem_regions (memreg_region m) 0 False dev;
            dev2 = (if found then dev1 else vu_panic dev1 ''Specified region not found'')
        in Inr (False, vmsg_close_fds dev2 m, m))"

definition vu_get_shared_object :: "VuDevIface \<Rightarrow> VuDev \<Rightarrow> VhostUserMsg \<Rightarrow> vu_reply" where
  "vu_get_shared_object iface dev m =
     (let fd = (case if_get_shared_object iface of None \<Rightarrow> -1 | Some g \<Rightarrow> g dev (m_payload m))
      in Inr (True, dev, m\<lparr>m_fds := (if fd \<noteq> -1 then [fd] else [])\<rparr>))"

text \<open>
  The loop over the regions of a memory table: the message has room for 8, the device for 32,
  and neither bound is checked.
\<close>

fun map_table :: "nat \<Rightarrow> nat \<Rightarrow> VhostUserMsg \<Rightarrow> VuDev \<Rightarrow> VuDev trapping" where
  "map_table 0 i m dev = Inr dev"
| "map_table (Suc k) i m dev =
     (if \<not> i < VHOST_MEMORY_BASELINE_NREGIONS \<or> \<not> i < length (dv_regions dev) then Inl OutOfBounds
      else map_table k (i + 1) m (map_region dev i (memory_region m i) (fd_at m i)))"

definition unmap_regions :: "VuDev \<Rightarrow> VuDev" where
  "unmap_regions dev =
     fold (\<lambda>r d. if r_mmap_addr r \<noteq> 0
                 then vu_emit d (EvMunmap (r_mmap_addr r) (r_size r + r_mmap_offset r)) else d)
       (take (unat (dv_nregions dev)) (dv_regions dev)) dev"

text \<open>
  In postcopy the addresses of the mappings are stored in a local copy of the table, so the
  reply carries the message as it came (without descriptors).
\<close>

definition vu_set_mem_table_exec_postcopy :: "VuDev \<Rightarrow> VhostUserMsg \<Rightarrow> vu_reply" where
  "vu_set_mem_table_exec_postcopy dev m =
     (let dev0 = dev\<lparr>dv_nregions := memory_nregions m\<rparr>
      in tbind (map_table (unat (dv_nregions dev0)) 0 m dev0) (\<lambda>dev1.
         let m1 = m\<lparr>m_fds := []\<rparr>
         in tbind (vu_send_reply dev1 (dv_sock dev1) m1) (\<lambda>(ok, dev2).
            let m2 = m1\<lparr>m_flags := reply_flags (m_flags m1)\<rparr>
            in if \<not> ok
               then Inr (False, vu_panic dev2 ''failed to respond to set-mem-table for postcopy'', m2)
               else tbind (vu_message_read_default dev2 (dv_sock dev2) m2) (\<lambda>(ok2, dev3, m3).
                 if \<not> ok2 \<or> m_size m3 \<noteq> 8 \<or> payload_u64 m3 \<noteq> 0
                 then Inr (False, vu_panic dev3 ''failed to receive valid ack for postcopy set-mem-table'', m3)
                 else Inr (False, snd (generate_faults dev3), m3)))))"

definition vu_set_mem_table_exec :: "VuDev \<Rightarrow> VhostUserMsg \<Rightarrow> vu_reply" where
  "vu_set_mem_table_exec dev m =
     (let dev1 = (unmap_regions dev)\<lparr>dv_nregions := memory_nregions m\<rparr>
      in if dv_postcopy_listening dev1 then vu_set_mem_table_exec_postcopy dev1 m
         else tbind (map_table (unat (dv_nregions dev1)) 0 m dev1) (\<lambda>dev2.
              tbind (remap_rings ''remapping queue during setmemtable''
                       [0..<unat (dv_max_queues dev2)] dev2)
                (\<lambda>dev3. Inr (False, dev3, m))))"

section \<open>The dirty log\<close>

definition vu_set_log_base_exec :: "VuDev \<Rightarrow> VhostUserMsg \<Rightarrow> vu_reply" where
  "vu_set_log_base_exec dev m =
     (if length (m_fds m) \<noteq> 1 \<or> m_size m \<noteq> 16
      then Inr (True, vu_panic dev ''Invalid log_base message'', m)
      else
        let fd = fd_at m 0; sz = log_mmap_size m;
            (rc, dev1) = vu_call dev (EvMmap sz fd (log_mmap_offset m));
            dev2 = vu_emit dev1 (EvClose fd);
            dev3 = (if dv_log_table dev2 \<noteq> 0
                    then vu_emit dev2 (EvMunmap (dv_log_table dev2) (dv_log_size dev2)) else dev2)
        in Inr (True, dev3\<lparr>dv_log_table := word_of_int rc, dv_log_size := sz\<rparr>,
                m\<lparr>m_size := 8, m_fds := []\<rparr>))"

definition vu_set_log_fd_exec :: "VuDev \<Rightarrow> VhostUserMsg \<Rightarrow> vu_reply" where
  "vu_set_log_fd_exec dev m =
     (if length (m_fds m) \<noteq> 1 then Inr (False, vu_panic dev ''Invalid log_fd message'', m)
      else
        let dev1 = (if dv_log_call_fd dev \<noteq> -1 then vu_emit dev (EvClose (dv_log_call_fd dev)) else dev)
        in Inr (False, dev1\<lparr>dv_log_call_fd := fd_at m 0\<rparr>, m))"

section \<open>Queue configuration\<close>

definition vu_set_vring_num_exec :: "VuDev \<Rightarrow> VhostUserMsg \<Rightarrow> vu_reply" where
  "vu_set_vring_num_exec dev m =
     (let index = unat (state_index m)
      in tbind (get_vq dev index) (\<lambda>vq.
           Inr (False, put_vq dev index (vq\<lparr>vq_vring := (vq_vring vq)\<lparr>ring_num := state_num m\<rparr>\<rparr>), m)))"

definition vu_set_vring_addr_exec :: "VuDevIface \<Rightarrow> VuDev \<Rightarrow> VhostUserMsg \<Rightarrow> vu_reply" where
  "vu_set_vring_addr_exec iface dev m =
     (let vra = payload_addr m; index = unat (va_index vra)
      in tbind (get_vq dev index) (\<lambda>vq.
        let vq1 = vq\<lparr>vq_vra := vra,
                    vq_vring := (vq_vring vq)\<lparr>ring_flags := va_flags vra,
                                              ring_log_guest_addr := va_log_guest_addr vra\<rparr>\<rparr>;
            (bad, vq2) = map_ring dev vq1
        in if bad then Inr (False, vu_panic (put_vq dev index vq2) ''Invalid vring_addr message'', m)
           else
             let used = load16 (dv_mem dev) (used_idx_addr (ring_used (vq_vring vq2)));
                 vq3 = vq2\<lparr>vq_used_idx := used\<rparr>;
                 dev3 = put_vq dev index vq3;
                 resume = (vq_last_avail_idx vq3 \<noteq> used \<and>
                   (case if_queue_is_processed_in_order iface of None \<Rightarrow> False | Some g \<Rightarrow> g dev3 index))
             in Inr (False,
                  if resume
                  then put_vq dev3 index (vq3\<lparr>vq_last_avail_idx := used, vq_shadow_avail_idx := used\<rparr>)
                  else dev3, m)))"

definition vu_set_vring_base_exec :: "VuDev \<Rightarrow> VhostUserMsg \<Rightarrow> vu_reply" where
  "vu_set_vring_base_exec dev m =
     (let index = unat (state_index m); num = ucast (state_num m)
      in tbind (get_vq dev index) (\<lambda>vq.
           Inr (False, put_vq dev index (vq\<lparr>vq_last_avail_idx := num, vq_shadow_avail_idx := num\<rparr>), m)))"

definition vu_queue_set_started :: "VuDevIface \<Rightarrow> VuDev \<Rightarrow> nat \<Rightarrow> bool \<Rightarrow> VuDev" where
  "vu_queue_set_started iface dev index started =
     (case if_queue_set_started iface of
        None \<Rightarrow> dev
      | Some f \<Rightarrow> f (vu_emit dev (EvQueueStarted index started)) index started)"

definition close_call_fd :: "VuDev \<Rightarrow> nat \<Rightarrow> VuDev" where
  "close_call_fd dev i =
     (let vq = dv_vq dev ! i
      in if vq_call_fd vq \<noteq> -1
         then put_vq (vu_emit dev (EvClose (vq_call_fd vq))) i (vq\<lparr>vq_call_fd := -1\<rparr>) else dev)"

definition close_kick_fd :: "VuDev \<Rightarrow> nat \<Rightarrow> VuDev" where
  "close_kick_fd dev i =
     (let vq = dv_vq dev ! i
      in if vq_kick_fd vq \<noteq> -1
         then put_vq (vu_emit (vu_emit dev (EvRemoveWatch (vq_kick_fd vq))) (EvClose (vq_kick_fd vq))) i
                (vq\<lparr>vq_kick_fd := -1\<rparr>)
         else dev)"

definition close_err_fd :: "VuDev \<Rightarrow> nat \<Rightarrow> VuDev" where
  "close_err_fd dev i =
     (let vq = dv_vq dev ! i
      in if vq_err_fd vq \<noteq> -1
         then put_vq (vu_emit dev (EvClose (vq_err_fd vq))) i (vq\<lparr>vq_err_fd := -1\<rparr>) else dev)"

definition vu_get_vring_base_exec :: "VuDevIface \<Rightarrow> VuDev \<Rightarrow> VhostUserMsg \<Rightarrow> vu_reply" where
  "vu_get_vring_base_exec iface dev m =
     (let index = unat (state_index m)
      in tbind (get_vq dev index) (\<lambda>vq.
        let m1 = m\<lparr>m_payload := store32 (m_payload m) 4 (ucast (vq_last_avail_idx vq)), m_size := 8\<rparr>;
            dev1 = put_vq dev index (vq\<lparr>vq_started := False\<rparr>);
            dev2 = vu_queue_set_started iface dev1 index False
        in Inr (True, close_kick_fd (close_call_fd dev2 index) index, m1)))"

text \<open>The queue index of a file message, and whether it says that no descriptor follows.\<close>

definition file_index :: "VhostUserMsg \<Rightarrow> nat" where
  "file_index m = unat (payload_u64 m AND VHOST_USER_VRING_IDX_MASK)"

definition file_nofd :: "VhostUserMsg \<Rightarrow> bool" where
  "file_nofd m \<longleftrightarrow> payload_u64 m AND VHOST_USER_VRING_NOFD_MASK \<noteq> 0"

definition vu_check_queue_msg_file :: "VuDev \<Rightarrow> VhostUserMsg \<Rightarrow> bool \<times> VuDev" where
  "vu_check_queue_msg_file dev m =
     (if file_index m \<ge> unat (dv_max_queues dev)
      then (False, vu_panic (vmsg_close_fds dev m) ''Invalid queue index'')
      else if file_nofd m then (True, vmsg_close_fds dev m)
      else if length (m_fds m) \<noteq> 1
      then (False, vu_panic (vmsg_close_fds dev m) ''Invalid fds in request'')
      else (True, dev))"

section \<open>Elements in flight\<close>

definition inflight_desc_compare :: "VuVirtqInflightDesc \<Rightarrow> VuVirtqInflightDesc \<Rightarrow> int" where
  "inflight_desc_compare d0 d1 =
     (if ifd_counter d1 > ifd_counter d0 \<and> ifd_counter d1 - ifd_counter d0 < 2048 then 1 else -1)"

text \<open>
  \<open>qsort\<close> with a comparison function, as an insertion sort. Where the comparison is a strict
  order on the array, every sorting gives the same result.
\<close>

fun qs_insert :: "('a \<Rightarrow> 'a \<Rightarrow> int) \<Rightarrow> 'a \<Rightarrow> 'a list \<Rightarrow> 'a list" where
  "qs_insert cmp x [] = [x]"
| "qs_insert cmp x (y # ys) = (if cmp x y > 0 then y # qs_insert cmp x ys else x # y # ys)"

fun qsort :: "('a \<Rightarrow> 'a \<Rightarrow> int) \<Rightarrow> 'a list \<Rightarrow> 'a list" where
  "qsort cmp [] = []"
| "qsort cmp (x # xs) = qs_insert cmp x (qsort cmp xs)"

text \<open>\<open>desc[i].inflight\<close> and \<open>desc[i].counter\<close> of the record at \<open>p\<close>.\<close>

definition inflight_flag :: "mem \<Rightarrow> u64 \<Rightarrow> nat \<Rightarrow> u8" where
  "inflight_flag m p i = m (p + 16 + 16 * of_nat i)"

definition inflight_counter :: "mem \<Rightarrow> u64 \<Rightarrow> nat \<Rightarrow> u64" where
  "inflight_counter m p i = load64 m (p + 16 + 16 * of_nat i + 8)"

text \<open>
  The list of descriptors to submit again: \<open>calloc\<close> makes room for \<open>inuse\<close> entries, one for each
  flag that is 1; the loop that fills them takes every flag that is not 0.
\<close>

definition build_resubmit :: "mem \<Rightarrow> u64 \<Rightarrow> nat \<Rightarrow> nat \<Rightarrow> VuVirtqInflightDesc list trapping" where
  "build_resubmit m p desc_num room =
     (let es = map (\<lambda>i. \<lparr>ifd_index = of_nat i, ifd_counter = inflight_counter m p i\<rparr>)
                 (filter (\<lambda>i. inflight_flag m p i \<noteq> 0) [0..<desc_num])
      in if length es > room then Inl OutOfBounds
         else Inr (es @ replicate (room - length es) \<lparr>ifd_index = 0, ifd_counter = 0\<rparr>))"

definition INFLIGHT_VERSION :: u16 where
  "INFLIGHT_VERSION = 1"

text \<open>
  Recovering the used index and counting the elements in flight: an element whose used entry was
  published but not yet cleared (the one in \<open>last_batch_head\<close>) is cleared first.
\<close>

definition count_inflights :: "VuDev \<Rightarrow> VuVirtq \<Rightarrow> VuDev \<times> VuVirtq" where
  "count_inflights dev vq =
     (let p = vq_inflight vq;
          used = load16 (dv_mem dev) (used_idx_addr (ring_used (vq_vring vq)));
          dev1 = (if load16 (dv_mem dev) (p + 14) \<noteq> used
                  then
                    let a = p + 16 + 16 * ucast (load16 (dv_mem dev) (p + 12));
                        m1 = (dv_mem dev)(a := 0)
                    in dev\<lparr>dv_mem := store16 m1 (p + 14) used\<rparr>
                  else dev);
          mm = dv_mem dev1;
          cnt = length (filter (\<lambda>i. inflight_flag mm p i = 1) [0..<unat (load16 mm (p + 10))]);
          inuse = vq_inuse vq + of_nat cnt;
          last = ucast (inuse + ucast used) :: u16
      in (dev1, vq\<lparr>vq_used_idx := used, vq_resubmit_num := 0, vq_resubmit_list := None, vq_counter := 0,
                   vq_inuse := inuse, vq_shadow_avail_idx := last, vq_last_avail_idx := last\<rparr>))"

text \<open>The list itself; \<open>None\<close> when there is no memory for it.\<close>

definition list_inflights :: "VuDev \<Rightarrow> VuVirtq \<Rightarrow> (VuVirtq option \<times> VuDev) trapping" where
  "list_inflights dev vq =
     (if vq_inuse vq = 0 then Inr (Some vq, dev)
      else
        let p = vq_inflight vq; mm = dv_mem dev; desc_num = unat (load16 mm (p + 10));
            (rc, dev1) = vu_call dev (EvMalloc (ucast (vq_inuse vq) * 16))
        in if rc = 0 then Inr (None, dev1)
           else tbind (build_resubmit mm p desc_num (unat (vq_inuse vq))) (\<lambda>es.
             let n = length (filter (\<lambda>i. inflight_flag mm p i \<noteq> 0) [0..<desc_num]);
                 es1 = (if n > 1 then qsort inflight_desc_compare (take n es) @ drop n es else es)
             in Inr (Some (vq\<lparr>vq_resubmit_list := Some es1, vq_resubmit_num := of_nat n,
                              vq_counter := ifd_counter (es1 ! 0) + 1\<rparr>), dev1)))"

text \<open>The result is \<open>False\<close> for \<open>-1\<close>.\<close>

definition vu_check_queue_inflights ::
    "VuDev \<Rightarrow> VuVirtq \<Rightarrow> (bool \<times> VuDev \<times> VuVirtq) trapping"
where
  "vu_check_queue_inflights dev vq =
     (let p = vq_inflight vq
      in if \<not> vu_has_protocol_feature dev VHOST_USER_PROTOCOL_F_INFLIGHT_SHMFD then Inr (True, dev, vq)
         else if p = 0 then Inr (False, dev, vq)
         else if load16 (dv_mem dev) (p + 8) = 0
         then Inr (True, dev\<lparr>dv_mem := store16 (dv_mem dev) (p + 8) INFLIGHT_VERSION\<rparr>, vq)
         else if ring_used (vq_vring vq) = 0 then Inl NullDeref
         else
           let (dev1, vq1) = count_inflights dev vq
           in tbind (list_inflights dev1 vq1) (\<lambda>(r, dev2). case r of
                None \<Rightarrow> Inr (False, dev2, vq1)
              | Some vq2 \<Rightarrow>
                  (let (rc, dev3) = vu_call dev2 (EvEventfdWrite (vq_kick_fd vq2))
                   in Inr (rc = 0, dev3, vq2))))"

definition vu_set_vring_kick_exec :: "VuDevIface \<Rightarrow> VuDev \<Rightarrow> VhostUserMsg \<Rightarrow> vu_reply" where
  "vu_set_vring_kick_exec iface dev m =
     (let index = file_index m; nofd = file_nofd m;
          (ok, dev1) = vu_check_queue_msg_file dev m
      in if \<not> ok then Inr (False, dev1, m)
         else tbind (get_vq dev1 index) (\<lambda>_.
           let dev2 = close_kick_fd dev1 index;
               vq2 = (dv_vq dev2 ! index)\<lparr>vq_kick_fd := (if nofd then -1 else fd_at m 0), vq_started := True\<rparr>;
               dev3 = vu_queue_set_started iface (put_vq dev2 index vq2) index True;
               vq3 = dv_vq dev3 ! index;
               dev4 = (if vq_kick_fd vq3 \<noteq> -1 \<and> vq_handler vq3
                       then vu_emit dev3 (EvSetWatch (vq_kick_fd vq3) index) else dev3)
           in tbind (vu_check_queue_inflights dev4 vq3) (\<lambda>(fine, dev5, vq5).
                let dev6 = put_vq dev5 index vq5
                in Inr (False, if fine then dev6 else vu_panic dev6 ''Failed to check inflights'', m))))"

definition vu_set_queue_handler :: "VuDev \<Rightarrow> nat \<Rightarrow> bool \<Rightarrow> VuDev" where
  "vu_set_queue_handler dev qidx handler =
     (let vq = (dv_vq dev ! qidx)\<lparr>vq_handler := handler\<rparr>; dev1 = put_vq dev qidx vq
      in if vq_kick_fd vq \<ge> 0
         then vu_emit dev1 (if handler then EvSetWatch (vq_kick_fd vq) qidx else EvRemoveWatch (vq_kick_fd vq))
         else dev1)"

text \<open>
  A failing \<open>eventfd_write\<close> is answered with \<open>return -1\<close>, which a function of type \<open>bool\<close> turns into
  \<open>true\<close>.
\<close>

definition vu_set_vring_call_exec :: "VuDev \<Rightarrow> VhostUserMsg \<Rightarrow> vu_reply" where
  "vu_set_vring_call_exec dev m =
     (let index = file_index m; nofd = file_nofd m;
          (ok, dev1) = vu_check_queue_msg_file dev m
      in if \<not> ok then Inr (False, dev1, m)
         else tbind (get_vq dev1 index) (\<lambda>_.
           let dev2 = close_call_fd dev1 index;
               vq2 = (dv_vq dev2 ! index)\<lparr>vq_call_fd := (if nofd then -1 else fd_at m 0)\<rparr>;
               dev3 = put_vq dev2 index vq2
           in if vq_call_fd vq2 \<noteq> -1
              then (let (rc, dev4) = vu_call dev3 (EvEventfdWrite (fd_at m 0)) in Inr (rc \<noteq> 0, dev4, m))
              else Inr (False, dev3, m)))"

definition vu_set_vring_err_exec :: "VuDev \<Rightarrow> VhostUserMsg \<Rightarrow> vu_reply" where
  "vu_set_vring_err_exec dev m =
     (let index = file_index m; nofd = file_nofd m;
          (ok, dev1) = vu_check_queue_msg_file dev m
      in if \<not> ok then Inr (False, dev1, m)
         else tbind (get_vq dev1 index) (\<lambda>_.
           let dev2 = close_err_fd dev1 index
           in Inr (False, put_vq dev2 index
                     ((dv_vq dev2 ! index)\<lparr>vq_err_fd := (if nofd then -1 else fd_at m 0)\<rparr>), m)))"

definition vu_set_vring_enable_exec :: "VuDev \<Rightarrow> VhostUserMsg \<Rightarrow> vu_reply" where
  "vu_set_vring_enable_exec dev m =
     (let index = unat (state_index m)
      in if index \<ge> unat (dv_max_queues dev)
         then Inr (False, vu_panic dev ''Invalid vring_enable index'', m)
         else tbind (get_vq dev index) (\<lambda>vq.
                Inr (False, put_vq dev index (vq\<lparr>vq_enable := state_num m\<rparr>), m)))"

definition vu_set_backend_req_fd :: "VuDev \<Rightarrow> VhostUserMsg \<Rightarrow> vu_reply" where
  "vu_set_backend_req_fd dev m =
     (if length (m_fds m) \<noteq> 1 then Inr (False, vu_panic dev ''Invalid backend_req_fd message'', m)
      else
        let dev1 = (if dv_backend_fd dev \<noteq> -1 then vu_emit dev (EvClose (dv_backend_fd dev)) else dev)
        in Inr (False, dev1\<lparr>dv_backend_fd := fd_at m 0\<rparr>, m))"

section \<open>Messages to the front end\<close>

definition VHOST_USER_BACKEND_VRING_HOST_NOTIFIER_MSG :: u32 where
  "VHOST_USER_BACKEND_VRING_HOST_NOTIFIER_MSG = 3"
definition VHOST_USER_BACKEND_SHARED_OBJECT_ADD :: u32 where
  "VHOST_USER_BACKEND_SHARED_OBJECT_ADD = 6"
definition VHOST_USER_BACKEND_SHARED_OBJECT_REMOVE :: u32 where
  "VHOST_USER_BACKEND_SHARED_OBJECT_REMOVE = 7"
definition VHOST_USER_BACKEND_SHARED_OBJECT_LOOKUP :: u32 where
  "VHOST_USER_BACKEND_SHARED_OBJECT_LOOKUP = 8"

text \<open>The members of \<open>VhostUserVringArea\<close> are at 0, 8 and 16; \<open>int\<close> arguments are sign-extended.\<close>

definition area_payload :: "u64 \<Rightarrow> u32 \<Rightarrow> u32 \<Rightarrow> mem" where
  "area_payload w sz off = store64 (store64 (store64 (\<lambda>_. 0) 0 w) 8 (scast sz)) 16 (scast off)"

definition vu_set_queue_host_notifier ::
    "VuDev \<Rightarrow> nat \<Rightarrow> int \<Rightarrow> u32 \<Rightarrow> u32 \<Rightarrow> (bool \<times> VuDev) trapping"
where
  "vu_set_queue_host_notifier dev qidx fd sz off =
     (let w0 = of_nat qidx AND VHOST_USER_VRING_IDX_MASK;
          w = (if fd = -1 then w0 OR VHOST_USER_VRING_NOFD_MASK else w0);
          m = \<lparr>m_request = VHOST_USER_BACKEND_VRING_HOST_NOTIFIER_MSG,
               m_flags = VHOST_USER_VERSION OR VHOST_USER_NEED_REPLY_MASK, m_size = 24,
               m_payload = area_payload w sz off, m_fds = (if fd = -1 then [] else [fd]), m_data = None\<rparr>
      in if \<not> vu_has_protocol_feature dev VHOST_USER_PROTOCOL_F_BACKEND_SEND_FD then Inr (False, dev)
         else tbind (vu_message_write dev (dv_backend_fd dev) m) (\<lambda>(ok, dev1).
                if \<not> ok then Inr (False, dev1) else vu_process_message_reply dev1 m))"

text \<open>The uuid is the 16 bytes of \<open>u\<close> from 0 on.\<close>

definition object_msg :: "u32 \<Rightarrow> u32 \<Rightarrow> mem \<Rightarrow> VhostUserMsg" where
  "object_msg req flags u =
     \<lparr>m_request = req, m_flags = flags, m_size = 16, m_payload = read_over (\<lambda>_. 0) 16 u, m_fds = [],
      m_data = None\<rparr>"

text \<open>The result is the return value with the descriptor stored in \<open>*dmabuf_fd\<close>, if any.\<close>

definition vu_lookup_shared_object :: "VuDev \<Rightarrow> mem \<Rightarrow> (bool \<times> int option \<times> VuDev) trapping" where
  "vu_lookup_shared_object dev u =
     (let m = object_msg VHOST_USER_BACKEND_SHARED_OBJECT_LOOKUP
                (VHOST_USER_VERSION OR VHOST_USER_NEED_REPLY_MASK) u
      in if \<not> vu_has_protocol_feature dev VHOST_USER_PROTOCOL_F_SHARED_OBJECT then Inr (False, None, dev)
         else tbind (vu_message_write dev (dv_backend_fd dev) m) (\<lambda>(ok, dev1).
           if \<not> ok then Inr (False, None, dev1)
           else tbind (vu_message_read_default dev1 (dv_backend_fd dev1) (stack_msg dev1))
                  (\<lambda>(ok2, dev2, r).
                     if \<not> ok2 \<or> m_request r \<noteq> m_request m \<or> length (m_fds r) \<noteq> 1
                     then Inr (False, None, dev2)
                     else Inr (fd_at r 0 > 0 \<and> payload_u64 r = 0, Some (fd_at r 0), dev2))))"

definition vu_send_message :: "VuDev \<Rightarrow> VhostUserMsg \<Rightarrow> (bool \<times> VuDev) trapping" where
  "vu_send_message dev m = vu_message_write dev (dv_backend_fd dev) m"

definition vu_add_shared_object :: "VuDev \<Rightarrow> mem \<Rightarrow> (bool \<times> VuDev) trapping" where
  "vu_add_shared_object dev u =
     (if \<not> vu_has_protocol_feature dev VHOST_USER_PROTOCOL_F_SHARED_OBJECT then Inr (False, dev)
      else vu_send_message dev (object_msg VHOST_USER_BACKEND_SHARED_OBJECT_ADD VHOST_USER_VERSION u))"

definition vu_rm_shared_object :: "VuDev \<Rightarrow> mem \<Rightarrow> (bool \<times> VuDev) trapping" where
  "vu_rm_shared_object dev u =
     (if \<not> vu_has_protocol_feature dev VHOST_USER_PROTOCOL_F_SHARED_OBJECT then Inr (False, dev)
      else vu_send_message dev (object_msg VHOST_USER_BACKEND_SHARED_OBJECT_REMOVE VHOST_USER_VERSION u))"

section \<open>Configuration space and postcopy\<close>

text \<open>\<open>VhostUserConfig\<close>: \<open>offset\<close>, \<open>size\<close> and \<open>flags\<close> at 0, 4 and 8, the 256 bytes of \<open>region\<close> at 12.\<close>

definition config_region :: "mem \<Rightarrow> mem" where
  "config_region p = (\<lambda>x. p (x + 12))"

definition set_config_region :: "mem \<Rightarrow> mem \<Rightarrow> mem" where
  "set_config_region p r =
     (\<lambda>x. if x - 12 < ucast VHOST_USER_MAX_CONFIG_SIZE then r (x - 12) else p x)"

definition vu_get_config :: "VuDevIface \<Rightarrow> VuDev \<Rightarrow> VhostUserMsg \<Rightarrow> vu_reply" where
  "vu_get_config iface dev m =
     (let (ret, m1) =
        (case if_get_config iface of
           None \<Rightarrow> (-1, m)
         | Some g \<Rightarrow>
             (let (ret, r) = g dev (load32 (m_payload m) 4)
              in (ret, m\<lparr>m_payload := set_config_region (m_payload m) r\<rparr>)))
      in Inr (True, dev, if ret \<noteq> 0 then m1\<lparr>m_size := 0\<rparr> else m1))"

definition vu_set_config :: "VuDevIface \<Rightarrow> VuDev \<Rightarrow> VhostUserMsg \<Rightarrow> vu_reply" where
  "vu_set_config iface dev m =
     (case if_set_config iface of
        None \<Rightarrow> Inr (False, dev, m)
      | Some s \<Rightarrow>
          (let p = m_payload m;
               (ret, dev1) = s dev (config_region p) (load32 p 0) (load32 p 4) (load32 p 8)
           in Inr (False, if ret \<noteq> 0 then vu_panic dev1 ''Set virtio configuration space failed'' else dev1, m)))"

definition vu_set_postcopy_advise :: "VuDev \<Rightarrow> VhostUserMsg \<Rightarrow> vu_reply" where
  "vu_set_postcopy_advise dev m =
     (let (ufd, dev1) = vu_call dev (EvSyscall ''userfaultfd'');
          dev2 = dev1\<lparr>dv_postcopy_ufd := ufd\<rparr>;
          dev3 = (if ufd = -1 then vu_panic dev2 ''Userfaultfd not available''
                  else
                    let (rc, d) = vu_call dev2 (EvSyscall ''UFFDIO_API'')
                    in if rc \<noteq> 0
                       then (vu_emit (vu_panic d ''Failed UFFDIO_API'') (EvClose ufd))\<lparr>dv_postcopy_ufd := -1\<rparr>
                       else d)
      in Inr (True, dev3, m\<lparr>m_size := 0, m_fds := [dv_postcopy_ufd dev3]\<rparr>))"

definition vu_set_postcopy_listen :: "VuDev \<Rightarrow> VhostUserMsg \<Rightarrow> vu_reply" where
  "vu_set_postcopy_listen dev m =
     (if dv_nregions dev \<noteq> 0
      then Inr (True, vu_panic dev ''Regions already registered at postcopy-listen'',
                vmsg_set_reply_u64 m (- 1))
      else Inr (True, dev\<lparr>dv_postcopy_listening := True\<rparr>, vmsg_set_reply_u64 m 0))"

definition vu_set_postcopy_end :: "VuDev \<Rightarrow> VhostUserMsg \<Rightarrow> vu_reply" where
  "vu_set_postcopy_end dev m =
     (let dev1 = dev\<lparr>dv_postcopy_listening := False\<rparr>;
          dev2 = (if dv_postcopy_ufd dev1 > 0
                  then (vu_emit dev1 (EvClose (dv_postcopy_ufd dev1)))\<lparr>dv_postcopy_ufd := -1\<rparr> else dev1)
      in Inr (True, dev2, vmsg_set_reply_u64 m 0))"

section \<open>The in-flight region\<close>

definition INFLIGHT_ALIGNMENT :: u64 where
  "INFLIGHT_ALIGNMENT = 64"

definition vu_inflight_queue_size :: "u16 \<Rightarrow> u64" where
  "vu_inflight_queue_size queue_size = align_up (16 * ucast queue_size + 2) INFLIGHT_ALIGNMENT"

text \<open>The result is the address, 0 for \<open>NULL\<close>, with the descriptor.\<close>

definition memfd_alloc :: "VuDev \<Rightarrow> u64 \<Rightarrow> u64 \<times> int \<times> VuDev" where
  "memfd_alloc dev sz =
     (let (fd, dev1) = vu_call dev (EvMemfd sz)
      in if fd < 0 then (0, fd, dev1)
         else
           let (r1, dev2) = vu_call dev1 (EvSyscall ''ftruncate'')
           in if r1 < 0 then (0, fd, vu_emit dev2 (EvClose fd))
              else
                let (r2, dev3) = vu_call dev2 (EvSyscall ''fcntl F_ADD_SEALS'')
                in if r2 < 0 then (0, fd, vu_emit dev3 (EvClose fd))
                   else
                     let (p, dev4) = vu_call dev3 (EvMmap sz fd 0)
                     in if p = -1 then (0, fd, vu_emit dev4 (EvClose fd))
                        else (word_of_int p, fd, dev4))"

text \<open>
  \<open>VhostUserInflight\<close>: \<open>mmap_size\<close> and \<open>mmap_offset\<close> at 0 and 8, \<open>num_queues\<close> and \<open>queue_size\<close> at 16 and
  18; 24 bytes with its padding.
\<close>

definition vu_get_inflight_fd :: "VuDev \<Rightarrow> VhostUserMsg \<Rightarrow> vu_reply" where
  "vu_get_inflight_fd dev m =
     (if m_size m \<noteq> 24
      then Inr (True, vu_panic dev ''Invalid get_inflight_fd message'',
                m\<lparr>m_payload := store64 (m_payload m) 0 0\<rparr>)
      else
        let num_queues = load16 (m_payload m) 16; queue_size = load16 (m_payload m) 18;
            sz = vu_inflight_queue_size queue_size * ucast num_queues;
            (a, fd, dev1) = memfd_alloc dev sz
        in if a = 0
           then Inr (True, vu_panic dev1 ''Failed to alloc vhost inflight area'',
                     m\<lparr>m_payload := store64 (m_payload m) 0 0\<rparr>)
           else
             let m0 = dv_mem dev1
             in Inr (True,
                  dev1\<lparr>dv_mem := (\<lambda>x. if x - a < sz then 0 else m0 x),
                       dv_inflight_info := \<lparr>ifi_fd = fd, ifi_addr = a, ifi_size = sz\<rparr>\<rparr>,
                  m\<lparr>m_payload := store64 (store64 (m_payload m) 0 sz) 8 0, m_fds := [fd]\<rparr>))"

fun set_inflights :: "nat list \<Rightarrow> u64 \<Rightarrow> u16 \<Rightarrow> VuDev \<Rightarrow> VuDev trapping" where
  "set_inflights [] p queue_size dev = Inr dev"
| "set_inflights (i # is) p queue_size dev =
     tbind (get_vq dev i) (\<lambda>vq.
       set_inflights is (p + vu_inflight_queue_size queue_size) queue_size
         ((put_vq dev i (vq\<lparr>vq_inflight := p\<rparr>))\<lparr>dv_mem := store16 (dv_mem dev) (p + 10) queue_size\<rparr>))"

definition vu_set_inflight_fd :: "VuDev \<Rightarrow> VhostUserMsg \<Rightarrow> vu_reply" where
  "vu_set_inflight_fd dev m =
     (if length (m_fds m) \<noteq> 1 \<or> m_size m \<noteq> 24
      then Inr (False, vu_panic dev ''Invalid set_inflight_fd message'', m)
      else
        let fd = fd_at m 0; sz = load64 (m_payload m) 0; off = load64 (m_payload m) 8;
            num_queues = load16 (m_payload m) 16; queue_size = load16 (m_payload m) 18;
            (rc, dev1) = vu_call dev (EvMmap sz fd off)
        in if rc = -1 then Inr (False, vu_panic dev1 ''set_inflight_fd mmap error'', m)
           else
             let info = dv_inflight_info dev1;
                 dev2 = (if ifi_fd info \<noteq> 0 then vu_emit dev1 (EvClose (ifi_fd info)) else dev1);
                 dev3 = (if ifi_addr info \<noteq> 0
                         then vu_emit dev2 (EvMunmap (ifi_addr info) (ifi_size info)) else dev2);
                 dev4 = dev3\<lparr>dv_inflight_info := \<lparr>ifi_fd = fd, ifi_addr = word_of_int rc, ifi_size = sz\<rparr>\<rparr>
             in tbind (set_inflights [0..<unat num_queues] (word_of_int rc) queue_size dev4)
                  (\<lambda>dev5. Inr (False, dev5, m)))"

section \<open>Kicks\<close>

definition vu_handle_vring_kick :: "VuDevIface \<Rightarrow> VuDev \<Rightarrow> VhostUserMsg \<Rightarrow> vu_reply" where
  "vu_handle_vring_kick iface dev m =
     (let index = unat (state_index m)
      in if index \<ge> unat (dv_max_queues dev)
         then Inr (False, vu_panic dev ''Invalid queue index'', m)
         else tbind (get_vq dev index) (\<lambda>vq.
           let dev1 = (if \<not> vq_started vq
                       then vu_queue_set_started iface (put_vq dev index (vq\<lparr>vq_started := True\<rparr>)) index True
                       else dev)
           in tbind (if vq_handler (dv_vq dev1 ! index)
                     then if_queue_handler iface (vu_emit dev1 (EvHandler index)) index else Inr dev1)
                (\<lambda>dev2. Inr (False, dev2, m))))"

definition vu_handle_get_max_memslots :: "VuDev \<Rightarrow> VhostUserMsg \<Rightarrow> vu_reply" where
  "vu_handle_get_max_memslots dev m =
     Inr (True, dev, vmsg_set_reply_u64 m (of_nat VHOST_USER_MAX_RAM_SLOTS))"

definition vu_kick_cb :: "VuDevIface \<Rightarrow> VuDev \<Rightarrow> nat \<Rightarrow> VuDev trapping" where
  "vu_kick_cb iface dev index =
     tbind (get_vq dev index) (\<lambda>vq.
       let (rc, dev1) = vu_call dev (EvEventfdRead (vq_kick_fd vq))
       in if rc = -1
          then (let dev2 = vu_panic dev1 ''kick eventfd_read()''
                in Inr (vu_emit dev2 (EvRemoveWatch (vq_kick_fd (dv_vq dev2 ! index)))))
          else if vq_handler vq then if_queue_handler iface (vu_emit dev1 (EvHandler index)) index
          else Inr dev1)"

section \<open>The dispatcher\<close>

definition vu_process_message :: "VuDevIface \<Rightarrow> VuDev \<Rightarrow> VhostUserMsg \<Rightarrow> vu_reply" where
  "vu_process_message iface dev0 m0 =
     (let (skip, reply, dev, m) =
        (case if_process_msg iface of None \<Rightarrow> (False, False, dev0, m0) | Some f \<Rightarrow> f dev0 m0)
      in if skip then Inr (reply, dev, m)
         else if m_request m = 1 then vu_get_features_exec iface dev m
         else if m_request m = 2 then vu_set_features_exec iface dev m
         else if m_request m = 15 then vu_get_protocol_features_exec iface dev m
         else if m_request m = 16 then vu_set_protocol_features_exec iface dev m
         else if m_request m = 3 then vu_set_owner_exec dev m
         else if m_request m = 4 then vu_reset_device_exec dev m
         else if m_request m = 5 then vu_set_mem_table_exec dev m
         else if m_request m = 6 then vu_set_log_base_exec dev m
         else if m_request m = 7 then vu_set_log_fd_exec dev m
         else if m_request m = 8 then vu_set_vring_num_exec dev m
         else if m_request m = 9 then vu_set_vring_addr_exec iface dev m
         else if m_request m = 10 then vu_set_vring_base_exec dev m
         else if m_request m = 11 then vu_get_vring_base_exec iface dev m
         else if m_request m = 12 then vu_set_vring_kick_exec iface dev m
         else if m_request m = 13 then vu_set_vring_call_exec dev m
         else if m_request m = 14 then vu_set_vring_err_exec dev m
         else if m_request m = 17 then vu_get_queue_num_exec dev m
         else if m_request m = 18 then vu_set_vring_enable_exec dev m
         else if m_request m = 21 then vu_set_backend_req_fd dev m
         else if m_request m = 24 then vu_get_config iface dev m
         else if m_request m = 25 then vu_set_config iface dev m
         else if m_request m = 0 then Inl ExitCalled
         else if m_request m = 28 then vu_set_postcopy_advise dev m
         else if m_request m = 29 then vu_set_postcopy_listen dev m
         else if m_request m = 30 then vu_set_postcopy_end dev m
         else if m_request m = 31 then vu_get_inflight_fd dev m
         else if m_request m = 32 then vu_set_inflight_fd dev m
         else if m_request m = 35 then vu_handle_vring_kick iface dev m
         else if m_request m = 36 then vu_handle_get_max_memslots dev m
         else if m_request m = 37 then vu_add_mem_reg dev m
         else if m_request m = 38 then vu_rem_mem_reg dev m
         else if m_request m = 41 then vu_get_shared_object iface dev m
         else Inr (False, vu_panic (vmsg_close_fds dev m) ''Unhandled request'', m))"

definition zero_msg :: VhostUserMsg where
  "zero_msg = \<lparr>m_request = 0, m_flags = 0, m_size = 0, m_payload = (\<lambda>_. 0), m_fds = [], m_data = None\<rparr>"

text \<open>\<open>read_msg\<close> is the default one. The result is the value of \<open>success\<close> with the device.\<close>

definition vu_dispatch :: "VuDevIface \<Rightarrow> VuDev \<Rightarrow> (bool \<times> VuDev) trapping" where
  "vu_dispatch iface dev =
     tbind (vu_message_read_default dev (dv_sock dev) zero_msg) (\<lambda>(ok, dev1, m).
       if \<not> ok then Inr (False, dev1)
       else
         let need_reply = (m_flags m AND VHOST_USER_NEED_REPLY_MASK \<noteq> 0)
         in tbind (vu_process_message iface dev1 m) (\<lambda>(reply, dev2, m2).
              let (reply2, m3) =
                    (if \<not> reply \<and> need_reply then (True, vmsg_set_reply_u64 m2 0) else (reply, m2))
              in if \<not> reply2 then Inr (True, dev2)
                 else tbind (vu_send_reply dev2 (dv_sock dev2) m3) (\<lambda>(sent, dev3). Inr (sent, dev3))))"

section \<open>Set-up and tear-down\<close>

definition fresh_vq :: VuVirtq where
  "fresh_vq =
     \<lparr>vq_vring = \<lparr>ring_num = 0, ring_desc = 0, ring_avail = 0, ring_used = 0,
                   ring_log_guest_addr = 0, ring_flags = 0\<rparr>,
      vq_inflight = 0, vq_resubmit_list = None, vq_resubmit_num = 0, vq_counter = 0,
      vq_last_avail_idx = 0, vq_shadow_avail_idx = 0, vq_used_idx = 0, vq_signalled_used = 0,
      vq_signalled_used_valid = False, vq_notification = True, vq_inuse = 0, vq_handler = False,
      vq_call_fd = -1, vq_kick_fd = -1, vq_err_fd = -1, vq_enable = 0, vq_started = False,
      vq_vra = \<lparr>va_index = 0, va_flags = 0, va_desc_user_addr = 0, va_used_user_addr = 0,
                va_avail_user_addr = 0, va_log_guest_addr = 0\<rparr>\<rparr>"

text \<open>
  \<open>memset (dev, 0, sizeof *dev)\<close> keeps the process around the device, which is why the model takes
  the old device; \<open>args_ok\<close> says that no required argument is null. The size given to
  \<open>malloc\<close> is counted in queues.
\<close>

definition vu_init :: "VuDev \<Rightarrow> u16 \<Rightarrow> int \<Rightarrow> bool \<Rightarrow> (bool \<times> VuDev) trapping" where
  "vu_init dev max_queues socket args_ok =
     (if max_queues = 0 \<or> socket < 0 \<or> \<not> args_ok then Inl AssertFailed
      else
        let dev1 = dev\<lparr>dv_sock := socket, dv_nregions := 0,
                       dv_regions := replicate VHOST_USER_MAX_RAM_SLOTS zero_region, dv_vq := [],
                       dv_inflight_info := \<lparr>ifi_fd = 0, ifi_addr = 0, ifi_size = 0\<rparr>,
                       dv_log_call_fd := -1, dv_backend_fd := -1, dv_log_size := 0, dv_log_table := 0,
                       dv_features := 0, dv_protocol_features := 0, dv_broken := False,
                       dv_max_queues := max_queues, dv_postcopy_ufd := 0,
                       dv_postcopy_listening := False\<rparr>;
            (rc, dev2) = vu_call dev1 (EvMalloc (ucast max_queues))
        in if rc = 0 then Inr (False, dev2)
           else Inr (True, dev2\<lparr>dv_vq := replicate (unat max_queues) fresh_vq\<rparr>))"

definition vu_get_queue :: "VuDev \<Rightarrow> int \<Rightarrow> VuVirtq trapping" where
  "vu_get_queue dev qidx =
     (if \<not> qidx < uint (dv_max_queues dev) then Inl AssertFailed
      else if qidx < 0 then Inl OutOfBounds
      else get_vq dev (nat qidx))"

definition vu_queue_enabled :: "VuVirtq \<Rightarrow> bool" where
  "vu_queue_enabled vq \<longleftrightarrow> vq_enable vq \<noteq> 0"

definition vu_queue_started :: "VuVirtq \<Rightarrow> bool" where
  "vu_queue_started vq \<longleftrightarrow> vq_started vq"

definition deinit_queue :: "VuDev \<Rightarrow> nat \<Rightarrow> VuDev" where
  "deinit_queue dev i =
     (let dev1 = close_err_fd (close_kick_fd (close_call_fd dev i) i) i
      in put_vq dev1 i ((dv_vq dev1 ! i)\<lparr>vq_resubmit_list := None, vq_inflight := 0\<rparr>))"

definition vu_deinit :: "VuDev \<Rightarrow> VuDev" where
  "vu_deinit dev =
     (let dev1 = fold (\<lambda>r d. if r_mmap_addr r \<noteq> - 1
                              then vu_emit d (EvMunmap (r_mmap_addr r) (r_size r + r_mmap_offset r)) else d)
                   (take (unat (dv_nregions dev)) (dv_regions dev)) dev;
          dev2 = fold (\<lambda>i d. deinit_queue d i) [0..<unat (dv_max_queues dev)] (dev1\<lparr>dv_nregions := 0\<rparr>);
          info = dv_inflight_info dev2;
          dev3 = (if ifi_addr info \<noteq> 0
                  then (vu_emit dev2 (EvMunmap (ifi_addr info) (ifi_size info)))
                         \<lparr>dv_inflight_info := info\<lparr>ifi_addr := 0\<rparr>\<rparr>
                  else dev2);
          dev4 = (if ifi_fd info > 0
                  then (vu_emit dev3 (EvClose (ifi_fd info)))
                         \<lparr>dv_inflight_info := (dv_inflight_info dev3)\<lparr>ifi_fd := -1\<rparr>\<rparr>
                  else dev3);
          dev5 = vu_close_log dev4;
          dev6 = (if dv_backend_fd dev5 \<noteq> -1
                  then (vu_emit dev5 (EvClose (dv_backend_fd dev5)))\<lparr>dv_backend_fd := -1\<rparr> else dev5);
          dev7 = (if dv_sock dev6 \<noteq> -1 then vu_emit dev6 (EvClose (dv_sock dev6)) else dev6)
      in dev7\<lparr>dv_vq := []\<rparr>)"

text \<open>The names of the requests; the table has no entry (a null pointer) for some numbers.\<close>

definition request_names :: "(nat \<times> string) list" where
  "request_names =
     [(0, ''VHOST_USER_NONE''), (1, ''VHOST_USER_GET_FEATURES''), (2, ''VHOST_USER_SET_FEATURES''),
      (3, ''VHOST_USER_SET_OWNER''), (4, ''VHOST_USER_RESET_OWNER''), (5, ''VHOST_USER_SET_MEM_TABLE''),
      (6, ''VHOST_USER_SET_LOG_BASE''), (7, ''VHOST_USER_SET_LOG_FD''), (8, ''VHOST_USER_SET_VRING_NUM''),
      (9, ''VHOST_USER_SET_VRING_ADDR''), (10, ''VHOST_USER_SET_VRING_BASE''),
      (11, ''VHOST_USER_GET_VRING_BASE''), (12, ''VHOST_USER_SET_VRING_KICK''),
      (13, ''VHOST_USER_SET_VRING_CALL''), (14, ''VHOST_USER_SET_VRING_ERR''),
      (15, ''VHOST_USER_GET_PROTOCOL_FEATURES''), (16, ''VHOST_USER_SET_PROTOCOL_FEATURES''),
      (17, ''VHOST_USER_GET_QUEUE_NUM''), (18, ''VHOST_USER_SET_VRING_ENABLE''),
      (19, ''VHOST_USER_SEND_RARP''), (20, ''VHOST_USER_NET_SET_MTU''),
      (21, ''VHOST_USER_SET_BACKEND_REQ_FD''), (22, ''VHOST_USER_IOTLB_MSG''),
      (23, ''VHOST_USER_SET_VRING_ENDIAN''), (24, ''VHOST_USER_GET_CONFIG''),
      (25, ''VHOST_USER_SET_CONFIG''), (28, ''VHOST_USER_POSTCOPY_ADVISE''),
      (29, ''VHOST_USER_POSTCOPY_LISTEN''), (30, ''VHOST_USER_POSTCOPY_END''),
      (31, ''VHOST_USER_GET_INFLIGHT_FD''), (32, ''VHOST_USER_SET_INFLIGHT_FD''),
      (33, ''VHOST_USER_GPU_SET_SOCKET''), (35, ''VHOST_USER_VRING_KICK''),
      (36, ''VHOST_USER_GET_MAX_MEM_SLOTS''), (37, ''VHOST_USER_ADD_MEM_REG''),
      (38, ''VHOST_USER_REM_MEM_REG''), (41, ''VHOST_USER_GET_SHARED_OBJECT''), (42, ''VHOST_USER_MAX'')]"

definition vu_request_to_string :: "u32 \<Rightarrow> string option" where
  "vu_request_to_string req =
     (if unat req < 42 then map_of request_names (unat req) else Some ''unknown'')"

end
