(* ===== verification/VuServe.thy ===== *)
theory VuServe
  imports VuMsg "HOL-Library.Sublist"
begin

text \<open>
  What no message can break. \<open>keeps\<close> relates a device to one with the same shape, with
  more calls made and still broken if it was; every step of a handler keeps the device, and the
  rules of \<open>keeps_intros\<close> and \<open>handler_keeps_rules\<close> follow the handlers' own structure. The handlers
  that change the memory table only \<open>evolve\<close> the device. The inductive predicate \<open>serves\<close> is the
  life of a device from \<open>vu_init\<close> on, and its invariant is the theorem of this theory.
\<close>

section \<open>What every handler keeps\<close>

definition device_ok :: "VuDev \<Rightarrow> bool" where
  "device_ok dev \<longleftrightarrow>
     length (dv_regions dev) = VHOST_USER_MAX_RAM_SLOTS \<and>
     unat (dv_nregions dev) \<le> VHOST_USER_MAX_RAM_SLOTS \<and>
     length (dv_vq dev) = unat (dv_max_queues dev)"

definition keeps :: "VuDev \<Rightarrow> VuDev \<Rightarrow> bool" where
  "keeps d d' \<longleftrightarrow>
     length (dv_regions d') = length (dv_regions d) \<and> dv_nregions d' = dv_nregions d \<and>
     length (dv_vq d') = length (dv_vq d) \<and> dv_max_queues d' = dv_max_queues d \<and>
     (dv_broken d \<longrightarrow> dv_broken d') \<and> prefix (dv_trace d) (dv_trace d')"

definition evolves :: "VuDev \<Rightarrow> VuDev \<Rightarrow> bool" where
  "evolves d d' \<longleftrightarrow>
     (device_ok d \<longrightarrow> device_ok d') \<and> dv_max_queues d' = dv_max_queues d \<and>
     (dv_broken d \<longrightarrow> dv_broken d') \<and> prefix (dv_trace d) (dv_trace d')"

named_theorems keeps_intros

lemma keeps_refl [keeps_intros]: "keeps d d"
  by (simp add: keeps_def)

lemma keeps_trans: "keeps a b \<Longrightarrow> keeps b c \<Longrightarrow> keeps a c"
  by (auto simp: keeps_def intro: prefix_order.trans)

lemma keeps_evolves: "keeps d d' \<Longrightarrow> evolves d d'"
  by (auto simp: keeps_def evolves_def device_ok_def)

lemma evolves_refl: "evolves d d"
  by (simp add: evolves_def)

lemma evolves_trans: "evolves a b \<Longrightarrow> evolves b c \<Longrightarrow> evolves a c"
  by (auto simp: evolves_def intro: prefix_order.trans)

lemma keeps_emit [keeps_intros]: "keeps a d \<Longrightarrow> keeps a (vu_emit d e)"
  by (auto simp: keeps_def vu_emit_def intro: prefix_prefix)

lemma keeps_call [keeps_intros]: "keeps a d \<Longrightarrow> keeps a (snd (vu_call d e))"
  by (auto simp: keeps_def vu_call_def intro: prefix_prefix)

lemma keeps_panic [keeps_intros]: "keeps a d \<Longrightarrow> keeps a (vu_panic d s)"
  by (auto simp: keeps_def vu_panic_def vu_emit_def intro: prefix_prefix)

lemma keeps_put_vq [keeps_intros]: "keeps a d \<Longrightarrow> keeps a (put_vq d i q)"
  by (simp add: keeps_def put_vq_def)

lemma keeps_fields [keeps_intros]:
  assumes "keeps a d"
  shows "keeps a (d\<lparr>dv_features := v1\<rparr>)" "keeps a (d\<lparr>dv_protocol_features := v2\<rparr>)"
    "keeps a (d\<lparr>dv_log_table := v3\<rparr>)" "keeps a (d\<lparr>dv_log_size := v4\<rparr>)"
    "keeps a (d\<lparr>dv_log_call_fd := v5\<rparr>)" "keeps a (d\<lparr>dv_backend_fd := v6\<rparr>)"
    "keeps a (d\<lparr>dv_postcopy_ufd := v7\<rparr>)" "keeps a (d\<lparr>dv_postcopy_listening := v8\<rparr>)"
    "keeps a (d\<lparr>dv_inflight_info := v9\<rparr>)" "keeps a (d\<lparr>dv_mem := v10\<rparr>)"
    "length rs = length (dv_regions d) \<Longrightarrow> keeps a (d\<lparr>dv_regions := rs\<rparr>)"
    "length qs = length (dv_vq d) \<Longrightarrow> keeps a (d\<lparr>dv_vq := qs\<rparr>)"
  using assms by (simp_all add: keeps_def)

lemma vu_call_emit: "vu_call d e = (dv_sys d (length (dv_trace d)), vu_emit d e)"
  by (simp add: vu_call_def vu_emit_def)

lemma keeps_close_fds [keeps_intros]: "keeps a d \<Longrightarrow> keeps a (vmsg_close_fds d m)"
proof -
  have "keeps a d \<Longrightarrow> keeps a (fold (\<lambda>fd d. vu_emit d (EvClose fd)) fds d)" for fds
    by (induction fds arbitrary: d) (auto intro: keeps_intros)
  then show "keeps a d \<Longrightarrow> keeps a (vmsg_close_fds d m)" by (simp add: vmsg_close_fds_def)
qed

lemma keeps_if [keeps_intros]: "keeps a x \<Longrightarrow> keeps a y \<Longrightarrow> keeps a (if c then x else y)"
  by simp

lemma keeps_close_q [keeps_intros]:
  assumes "keeps a d"
  shows "keeps a (close_call_fd d i)" "keeps a (close_kick_fd d i)" "keeps a (close_err_fd d i)"
  using assms by (auto simp: close_call_fd_def close_kick_fd_def close_err_fd_def Let_def intro: keeps_intros)

section \<open>The callbacks\<close>

definition iface_keeps :: "VuDevIface \<Rightarrow> bool" where
  "iface_keeps iface \<longleftrightarrow>
     (\<forall>f d v. if_set_features iface = Some f \<longrightarrow> keeps d (f d v)) \<and>
     (\<forall>f d v. if_set_protocol_features iface = Some f \<longrightarrow> keeps d (f d v)) \<and>
     (\<forall>f d m. if_process_msg iface = Some f \<longrightarrow> keeps d (fst (snd (snd (f d m))))) \<and>
     (\<forall>f d i s. if_queue_set_started iface = Some f \<longrightarrow> keeps d (f d i s)) \<and>
     (\<forall>f d p off n fl. if_set_config iface = Some f \<longrightarrow> keeps d (snd (f d p off n fl))) \<and>
     (\<forall>d i d'. if_queue_handler iface d i = Inr d' \<longrightarrow> keeps d d')"

lemma iface_after:
  assumes "iface_keeps iface" and "keeps a d"
  shows "if_set_features iface = Some f1 \<Longrightarrow> keeps a (f1 d v)"
    "if_set_protocol_features iface = Some f2 \<Longrightarrow> keeps a (f2 d v)"
    "if_process_msg iface = Some f3 \<Longrightarrow> f3 d m = (s, b, d3, m3) \<Longrightarrow> keeps a d3"
    "if_queue_set_started iface = Some f4 \<Longrightarrow> keeps a (f4 d i on)"
    "if_set_config iface = Some f5 \<Longrightarrow> f5 d p off n fl = (rc, d5) \<Longrightarrow> keeps a d5"
    "if_queue_handler iface d i = Inr d6 \<Longrightarrow> keeps a d6"
  using assms(1) unfolding iface_keeps_def
  by (auto intro!: keeps_trans [OF assms(2)] dest: spec [where x = d], (metis fst_conv snd_conv)+)

lemma keeps_set_started:
  "iface_keeps iface \<Longrightarrow> keeps a d \<Longrightarrow> keeps a (vu_queue_set_started iface d i s)"
  unfolding vu_queue_set_started_def
  by (auto split: option.split intro: iface_after keeps_intros)

text \<open>
  A result keeps the device if the device in it, when there is one, does. The rules follow the
  shape of the handlers.
\<close>

definition handler_keeps :: "VuDev \<Rightarrow> ('b \<times> VuDev \<times> 'c) trapping \<Rightarrow> bool" where
  "handler_keeps d r \<longleftrightarrow> (\<forall>b d' m'. r = Inr (b, d', m') \<longrightarrow> keeps d d')"

lemma handler_keepsI: "keeps d d' \<Longrightarrow> handler_keeps d (Inr (b, d', m))"
  by (simp add: handler_keeps_def)

lemma handler_keeps_tbind:
  "(\<And>x. r = Inr x \<Longrightarrow> handler_keeps d (f x)) \<Longrightarrow> handler_keeps d (tbind r f)"
  by (cases r) (simp_all add: handler_keeps_def)

lemma handler_keeps_if:
  "(c \<Longrightarrow> handler_keeps d r) \<Longrightarrow> (\<not> c \<Longrightarrow> handler_keeps d s) \<Longrightarrow> handler_keeps d (if c then r else s)"
  by simp

lemma handler_keeps_prod:
  "(\<And>x y. p = (x, y) \<Longrightarrow> handler_keeps d (f x y)) \<Longrightarrow> handler_keeps d (case p of (x, y) \<Rightarrow> f x y)"
  by (cases p) simp

lemma handler_keeps_then:
  "handler_keeps d0 r \<Longrightarrow> keeps d d0 \<Longrightarrow> (\<And>b d' m. keeps d d' \<Longrightarrow> handler_keeps d (f (b, d', m))) \<Longrightarrow>
     handler_keeps d (tbind r f)"
  by (cases r) (simp add: handler_keeps_def,
    cases "projr r", simp add: handler_keeps_def [of d0], metis keeps_trans)

lemma handler_keeps_Inl: "handler_keeps d (Inl t)"
  by (simp add: handler_keeps_def)

lemmas handler_keeps_rules =
  handler_keeps_tbind handler_keeps_if handler_keeps_prod handler_keepsI handler_keeps_Inl

lemmas handler_defs =
  vu_get_features_exec_def vu_set_features_exec_def vu_set_protocol_features_exec_def
  vu_set_owner_exec_def vu_reset_device_exec_def vu_get_queue_num_exec_def
  vu_get_shared_object_def vu_set_backend_req_fd_def vu_get_config_def vu_set_config_def
  vu_set_postcopy_listen_def vu_set_postcopy_end_def vu_handle_get_max_memslots_def
  vu_set_log_fd_exec_def vu_set_enable_all_rings_def vu_set_vring_num_exec_def
  vu_set_vring_base_exec_def vu_set_vring_enable_exec_def

lemma simple_handlers_keep:
  assumes "iface_keeps iface"
  shows "handler_keeps d (vu_get_features_exec iface d m)"
    "handler_keeps d (vu_set_features_exec iface d m)"
    "handler_keeps d (vu_set_protocol_features_exec iface d m)"
    "handler_keeps d (vu_set_owner_exec d m)"
    "handler_keeps d (vu_reset_device_exec d m)"
    "handler_keeps d (vu_get_queue_num_exec d m)"
    "handler_keeps d (vu_get_shared_object iface d m)"
    "handler_keeps d (vu_set_backend_req_fd d m)"
    "handler_keeps d (vu_get_config iface d m)"
    "handler_keeps d (vu_set_config iface d m)"
    "handler_keeps d (vu_set_postcopy_listen d m)"
    "handler_keeps d (vu_set_postcopy_end d m)"
    "handler_keeps d (vu_handle_get_max_memslots d m)"
    "handler_keeps d (vu_set_log_fd_exec d m)"
    "handler_keeps d (vu_set_vring_num_exec d m)"
    "handler_keeps d (vu_set_vring_base_exec d m)"
    "handler_keeps d (vu_set_vring_enable_exec d m)"
  by (auto simp: handler_defs handler_keeps_def Let_def tbind_eq_Inr_iff
      split: option.splits prod.splits if_splits intro!: keeps_intros intro: iface_after [OF assms])

lemma system_handlers_keep:
  "handler_keeps d (vu_get_protocol_features_exec iface d m)"
  "handler_keeps d (vu_set_log_base_exec d m)"
  "handler_keeps d (vu_set_postcopy_advise d m)"
  "handler_keeps d (vu_get_inflight_fd d m)"
  by (auto simp: vu_get_protocol_features_exec_def have_userfault_def vu_set_log_base_exec_def
      vu_set_postcopy_advise_def vu_get_inflight_fd_def memfd_alloc_def handler_keeps_def Let_def
      vu_call_emit split: option.splits prod.splits if_splits intro!: keeps_intros)


lemma keeps_check_file:
  "keeps a d \<Longrightarrow> keeps a (snd (vu_check_queue_msg_file d m))"
  by (auto simp: vu_check_queue_msg_file_def intro: keeps_intros)

lemma keeps_check_fileD:
  "vu_check_queue_msg_file d m = (ok, d1) \<Longrightarrow> keeps a d \<Longrightarrow> keeps a d1"
  using keeps_check_file [of a d m] by simp

lemma list_inflights_keeps: "list_inflights d q = Inr (r, d') \<Longrightarrow> keeps a d \<Longrightarrow> keeps a d'"
  by (auto simp: list_inflights_def Let_def vu_call_emit tbind_eq_Inr_iff split: if_splits
      intro!: keeps_intros)

lemma count_inflights_keeps: "keeps a d \<Longrightarrow> keeps a (fst (count_inflights d q))"
  by (simp add: count_inflights_def Let_def keeps_intros)

lemma keeps_listed:
  assumes "count_inflights d q = (d1, q1)" and "list_inflights d1 q1 = Inr (r, d2)"
  shows "keeps d d2"
  using list_inflights_keeps [OF assms(2)] count_inflights_keeps [OF keeps_refl, of d q] assms(1) by simp

lemma check_inflights_keeps: "handler_keeps d (vu_check_queue_inflights d q)"
proof -
  obtain d1 q1 where c: "count_inflights d q = (d1, q1)" by fastforce
  have "handler_keeps d (case r of
          None \<Rightarrow> Inr (False, d2, q1)
        | Some q2 \<Rightarrow> (let (rc, d3) = vu_call d2 (EvEventfdWrite (vq_kick_fd q2)) in Inr (rc = 0, d3, q2)))"
    if "list_inflights d1 q1 = Inr (r, d2)" for r d2
    using keeps_listed [OF c that]
    by (cases r) (simp_all add: vu_call_emit handler_keepsI keeps_intros)
  then have "handler_keeps d (tbind (list_inflights d1 q1) (\<lambda>(r, d2). case r of
          None \<Rightarrow> Inr (False, d2, q1)
        | Some q2 \<Rightarrow> (let (rc, d3) = vu_call d2 (EvEventfdWrite (vq_kick_fd q2)) in Inr (rc = 0, d3, q2))))"
    by (intro handler_keeps_tbind) auto
  then show ?thesis
    unfolding vu_check_queue_inflights_def Let_def c prod.case
    by (intro handler_keeps_if handler_keepsI handler_keeps_Inl keeps_intros)
qed

lemma call_and_err_handlers_keep:
  "handler_keeps d (vu_set_vring_call_exec d m)"
  "handler_keeps d (vu_set_vring_err_exec d m)"
  unfolding vu_set_vring_call_exec_def vu_set_vring_err_exec_def Let_def vu_call_emit prod.case
  by (erule keeps_check_fileD | rule handler_keeps_rules keeps_intros)+

lemma kick_fd_handler_keeps:
  assumes "iface_keeps iface"
  shows "handler_keeps d (vu_set_vring_kick_exec iface d m)"
  unfolding vu_set_vring_kick_exec_def Let_def
  apply (rule handler_keeps_prod handler_keeps_if handler_keepsI)+
   apply (erule keeps_check_fileD, rule keeps_refl)
  apply (rule handler_keeps_tbind)
  apply (rule handler_keeps_then [OF check_inflights_keeps])
   apply (erule keeps_check_fileD | rule keeps_intros keeps_set_started assms)+
  apply (simp only: prod.case)
  apply (rule handler_keepsI keeps_intros | assumption)+
  done

lemma queue_handlers_keep:
  "iface_keeps iface \<Longrightarrow> handler_keeps d (vu_get_vring_base_exec iface d m)"
  "handler_keeps d (vu_set_vring_addr_exec iface d m)"
  unfolding vu_get_vring_base_exec_def vu_set_vring_addr_exec_def Let_def
  by (rule handler_keeps_rules keeps_intros keeps_set_started | assumption)+

lemma keeps_run_handler:
  assumes "iface_keeps iface"
    and "(if c then if_queue_handler iface (vu_emit d e) i else Inr d) = Inr d'" and "keeps a d"
  shows "keeps a d'"
  using assms(2,3) by (auto split: if_splits intro: keeps_emit iface_after(6) [OF assms(1)])

lemma kick_handler_keeps:
  "iface_keeps iface \<Longrightarrow> handler_keeps d (vu_handle_vring_kick iface d m)"
  unfolding vu_handle_vring_kick_def Let_def
  by (rule handler_keeps_rules | erule keeps_run_handler [rotated] | rule keeps_intros keeps_set_started
      | assumption)+

lemma keeps_set_inflights:
  "set_inflights is p n d = Inr d' \<Longrightarrow> keeps d d'"
proof (induction "is" arbitrary: p d)
  case (Cons i "is")
  from Cons.prems obtain q where
    "set_inflights is (p + vu_inflight_queue_size n) n
       ((put_vq d i (q\<lparr>vq_inflight := p\<rparr>))\<lparr>dv_mem := store16 (dv_mem d) (p + 10) n\<rparr>) = Inr d'"
    by (auto simp: tbind_eq_Inr_iff)
  from Cons.IH [OF this] show ?case by (rule keeps_trans [rotated]) (intro keeps_intros)
qed (simp add: keeps_refl)

lemma set_inflight_fd_keeps: "handler_keeps d (vu_set_inflight_fd d m)"
  by (auto simp: vu_set_inflight_fd_def handler_keeps_def Let_def vu_call_emit tbind_eq_Inr_iff
      split: if_splits dest!: keeps_set_inflights intro!: keeps_intros elim!: keeps_trans [rotated])

section \<open>The handlers that change the memory table\<close>

definition handler_evolves :: "VuDev \<Rightarrow> vu_reply \<Rightarrow> bool" where
  "handler_evolves d r \<longleftrightarrow> (\<forall>b d' m'. r = Inr (b, d', m') \<longrightarrow> evolves d d')"

lemma handler_keeps_evolves: "handler_keeps d r \<Longrightarrow> handler_evolves d r"
  by (auto simp: handler_keeps_def handler_evolves_def intro: keeps_evolves)

lemma keeps_map_region: "keeps d (map_region d i r fd)"
  by (auto simp: map_region_def Let_def vu_call_emit intro!: keeps_intros)

lemma keeps_map_table:
  "map_table k i m d = Inr d' \<Longrightarrow> keeps d d' \<and> (0 < k \<longrightarrow> i + k \<le> VHOST_MEMORY_BASELINE_NREGIONS)"
proof (induction k arbitrary: i d)
  case (Suc k)
  from Suc.prems have i: "i < VHOST_MEMORY_BASELINE_NREGIONS"
    and rest: "map_table k (i + 1) m (map_region d i (memory_region m i) (fd_at m i)) = Inr d'"
    by (auto split: if_splits)
  from Suc.IH [OF rest] i show ?case
    using keeps_trans [OF keeps_map_region] by (cases k) auto
qed (simp add: keeps_refl)

lemma keeps_remap_rings: "remap_rings s is d = Inr d' \<Longrightarrow> keeps d d'"
proof (induction "is" arbitrary: d)
  case (Cons i "is")
  then show ?case
    by (auto simp: tbind_eq_Inr_iff Let_def split: prod.splits if_splits
        dest!: Cons.IH elim!: keeps_trans [rotated] intro!: keeps_intros)
qed (simp add: keeps_refl)

lemma keeps_generate_faults: "keeps d (snd (generate_faults d))"
proof -
  have "keeps a d \<Longrightarrow> keeps a (snd (fault_region d r))" for a d r
    by (auto simp: fault_region_def Let_def vu_call_emit intro!: keeps_intros)
  then have one: "fault_region d r = (ok, d1) \<Longrightarrow> keeps a d \<Longrightarrow> keeps a d1" for a d r ok d1
    by (metis snd_conv)
  have "keeps a d \<Longrightarrow> keeps a (snd (fault_regions rs d))" for a d rs
    by (induction rs arbitrary: d) (auto split: prod.split dest: one)
  then show ?thesis by (simp add: generate_faults_def keeps_refl)
qed


lemma evolves_keeps: "evolves a b \<Longrightarrow> keeps b c \<Longrightarrow> evolves a c"
  by (rule evolves_trans [OF _ keeps_evolves])

text \<open>Setting the number of regions is sound where the new number fits.\<close>

lemma evolves_nregions:
  assumes "keeps d d'" and "device_ok d \<Longrightarrow> unat n \<le> VHOST_USER_MAX_RAM_SLOTS"
  shows "evolves d (d'\<lparr>dv_nregions := n\<rparr>)"
  using assms by (auto simp: keeps_def evolves_def device_ok_def)

lemma unat_inc_slots: "unat n < VHOST_USER_MAX_RAM_SLOTS \<Longrightarrow> unat (n + 1 :: u32) \<le> VHOST_USER_MAX_RAM_SLOTS"
  using unat_inc32 [of n 32] by (simp add: VHOST_USER_MAX_RAM_SLOTS_def)

lemma add_mem_reg_evolves: "handler_evolves d (vu_add_mem_reg d m)"
proof -
  let ?n = "unat (dv_nregions d)" and ?d1 = "map_region d (unat (dv_nregions d)) (memreg_region m) (fd_at m 0)"
  have fits: "device_ok d \<Longrightarrow> ?n < length (dv_regions d) \<Longrightarrow> ?n < VHOST_USER_MAX_RAM_SLOTS"
    by (simp add: device_ok_def)
  have grow: "evolves d (d'\<lparr>dv_nregions := dv_nregions d' + 1\<rparr>)"
    if "keeps d d'" "?n < length (dv_regions d)" for d'
    using that fits by (intro evolves_nregions) (auto simp: keeps_def intro: unat_inc_slots)
  have remap: "keeps d d2" if "remap_rings msg is ?d1 = Inr d2" for msg "is" d2
    using keeps_map_region keeps_remap_rings [OF that] by (rule keeps_trans)
  show ?thesis
    by (auto simp: vu_add_mem_reg_def handler_evolves_def Let_def tbind_eq_Inr_iff
        split: if_splits dest: remap
        intro!: grow keeps_map_region keeps_evolves [OF keeps_generate_faults]
          keeps_evolves [OF keeps_panic] keeps_intros)
qed

lemma rem_regions_evolves: "rem_regions mr i found d = (f, d') \<Longrightarrow> evolves d d'"
proof (induction mr i found d rule: rem_regions.induct)
  case (1 mr i found dev)
  let ?n = "unat (dv_nregions dev)" and ?rs = "dv_regions dev"
  let ?rs1 = "take i ?rs @ drop (i + 1) (take ?n ?rs) @ [zero_region] @ drop ?n ?rs"
  show ?case
  proof (cases "i < ?n \<and> reg_equal (?rs ! i) mr")
    case True
    let ?d1 = "if r_mmap_addr (?rs ! i) \<noteq> 0
      then vu_emit dev (EvMunmap (r_mmap_addr (?rs ! i)) (r_size (?rs ! i) + r_mmap_offset (?rs ! i))) else dev"
    let ?d2 = "?d1\<lparr>dv_regions := ?rs1, dv_nregions := dv_nregions ?d1 - 1\<rparr>"
    have k: "keeps dev ?d1" by (intro keeps_intros)
    have n: "unat (dv_nregions dev - 1) \<le> ?n" using True
      by (subst unat_minus_one) (auto simp: unat_eq_zero)
    have "evolves dev ?d2"
      using k True n by (auto simp: keeps_def evolves_def device_ok_def)
    moreover have "evolves ?d2 d'"
      using "1.IH"(1) [OF refl refl _ refl _ refl refl] True "1.prems"
      by (simp add: rem_regions.simps [of mr i found dev] Let_def)
    ultimately show ?thesis by (rule evolves_trans)
  next
    case False
    then show ?thesis
      using "1.IH"(2) [OF refl refl _ refl] "1.prems"
      by (auto simp: rem_regions.simps [of mr i found dev] Let_def evolves_refl split: if_splits)
  qed
qed

lemma rem_mem_reg_evolves: "handler_evolves d (vu_rem_mem_reg d m)"
proof -
  have "evolves d (vmsg_close_fds (if f then d1 else vu_panic d1 msg) m)"
    if "rem_regions (memreg_region m) 0 False d = (f, d1)" for f d1 msg
    using rem_regions_evolves [OF that] by (rule evolves_keeps) (intro keeps_intros)
  moreover have "evolves d (vu_panic (vmsg_close_fds d m) msg)" for msg
    by (intro keeps_evolves keeps_intros)
  ultimately show ?thesis
    by (simp add: vu_rem_mem_reg_def handler_evolves_def Let_def split: prod.split)
qed

lemma keeps_message_read:
  "vu_message_read_default d fd m = Inr (ok, d', m') \<Longrightarrow> keeps a d \<Longrightarrow> keeps a d'"
  by (auto simp: vu_message_read_default_def Let_def split: recv_result.splits if_splits
      intro!: keeps_intros)

lemma keeps_message_write: "vu_message_write d fd m = Inr (ok, d') \<Longrightarrow> keeps a d \<Longrightarrow> keeps a d'"
  by (auto simp: vu_message_write_def Let_def vu_call_emit split: if_splits intro!: keeps_intros)

lemma keeps_send_reply: "vu_send_reply d fd m = Inr (ok, d') \<Longrightarrow> keeps a d \<Longrightarrow> keeps a d'"
  unfolding vu_send_reply_def by (rule keeps_message_write)

lemma keeps_unmap: "keeps d (unmap_regions d)"
proof -
  have "keeps a d \<Longrightarrow> keeps a (fold (\<lambda>r d. if r_mmap_addr r \<noteq> 0
      then vu_emit d (EvMunmap (r_mmap_addr r) (r_size r + r_mmap_offset r)) else d) rs d)"
    for a and rs :: "VuDevRegion list" and d
    by (induction rs arbitrary: d) (auto intro: keeps_intros)
  then show ?thesis by (simp add: unmap_regions_def keeps_refl)
qed

text \<open>Loading a table that fits leaves a device that is well formed.\<close>

lemma map_table_evolves:
  assumes "keeps d d0"
    and "map_table (unat n) 0 m (d0\<lparr>dv_nregions := n\<rparr>) = Inr d'"
  shows "evolves d d'"
proof (rule evolves_keeps)
  from keeps_map_table [OF assms(2)]
  have "unat n \<le> VHOST_USER_MAX_RAM_SLOTS"
    by (cases "unat n = 0") (auto simp: VHOST_MEMORY_BASELINE_NREGIONS_def VHOST_USER_MAX_RAM_SLOTS_def)
  with assms(1) show "evolves d (d0\<lparr>dv_nregions := n\<rparr>)" by (intro evolves_nregions)
  from keeps_map_table [OF assms(2)] show "keeps (d0\<lparr>dv_nregions := n\<rparr>) d'" by simp
qed

lemma mem_table_postcopy_evolves:
  assumes "keeps d d0" and "vu_set_mem_table_exec_postcopy d0 m = Inr (b, d', m')"
  shows "evolves d d'"
proof -
  from assms(2) obtain d1 ok d2 where
    d1: "map_table (unat (memory_nregions m)) 0 m (d0\<lparr>dv_nregions := memory_nregions m\<rparr>) = Inr d1"
    and d2: "vu_send_reply d1 (dv_sock d1) (m\<lparr>m_fds := []\<rparr>) = Inr (ok, d2)"
    by (auto simp: vu_set_mem_table_exec_postcopy_def Let_def tbind_eq_Inr_iff)
  have rest: "keeps d2 d'"
    using assms(2) d1 d2
    by (auto simp: vu_set_mem_table_exec_postcopy_def Let_def tbind_eq_Inr_iff split: if_splits
        intro!: keeps_intros keeps_trans [OF _ keeps_generate_faults]
        dest!: keeps_message_read [OF _ keeps_refl])
  from map_table_evolves [OF assms(1) d1] keeps_send_reply [OF d2 keeps_refl] rest show ?thesis
    by (blast intro: evolves_keeps)
qed

lemma mem_table_evolves: "handler_evolves d (vu_set_mem_table_exec d m)"
  unfolding handler_evolves_def
proof (intro allI impI)
  fix b d' m'
  assume r: "vu_set_mem_table_exec d m = Inr (b, d', m')"
  let ?d1 = "(unmap_regions d)\<lparr>dv_nregions := memory_nregions m\<rparr>"
  show "evolves d d'"
  proof (cases "dv_postcopy_listening ?d1")
    case True
    have "vu_set_mem_table_exec_postcopy (unmap_regions d) m = Inr (b, d', m')"
      using r True by (simp add: vu_set_mem_table_exec_def vu_set_mem_table_exec_postcopy_def Let_def)
    with keeps_unmap show ?thesis by (rule mem_table_postcopy_evolves)
  next
    case False
    with r obtain d2 where "map_table (unat (memory_nregions m)) 0 m ?d1 = Inr d2" "keeps d2 d'"
      by (auto simp: vu_set_mem_table_exec_def Let_def tbind_eq_Inr_iff dest: keeps_remap_rings)
    with map_table_evolves [OF keeps_unmap] show ?thesis by (blast intro: evolves_keeps)
  qed
qed


section \<open>One message, any number of messages\<close>

lemma handler_evolves_if:
  "handler_evolves d r \<Longrightarrow> handler_evolves d s \<Longrightarrow> handler_evolves d (if c then r else s)"
  by simp

lemma process_message_evolves:
  assumes "iface_keeps iface"
  shows "handler_evolves d (vu_process_message iface d m)"
proof -
  obtain skip reply d1 m1 where p: "(case if_process_msg iface of
      None \<Rightarrow> (False, False, d, m) | Some f \<Rightarrow> f d m) = (skip, reply, d1, m1)"
    by (metis prod_cases4)
  then have k: "keeps d d1"
    by (auto split: option.splits intro: keeps_refl iface_after(3) [OF assms keeps_refl])
  have skip: "handler_evolves d1 (Inr (reply, d1, m1))"
    by (simp add: handler_evolves_def evolves_refl)
  have exit: "handler_evolves d1 (Inl ExitCalled)" by (simp add: handler_evolves_def)
  have unknown: "handler_evolves d1 (Inr (False, vu_panic (vmsg_close_fds d1 m1) e, m1))" for e
    by (intro handler_keeps_evolves handler_keepsI keeps_intros)
  have "handler_evolves d1 (vu_process_message iface d m)"
    unfolding vu_process_message_def p Let_def prod.case
    by (intro handler_evolves_if skip exit unknown mem_table_evolves add_mem_reg_evolves
        rem_mem_reg_evolves handler_keeps_evolves [OF simple_handlers_keep(1) [OF assms]]
        handler_keeps_evolves [OF simple_handlers_keep(2) [OF assms]]
        handler_keeps_evolves [OF simple_handlers_keep(3) [OF assms]]
        simple_handlers_keep(4-) [OF assms, THEN handler_keeps_evolves]
        system_handlers_keep [THEN handler_keeps_evolves]
        call_and_err_handlers_keep [THEN handler_keeps_evolves]
        kick_fd_handler_keeps [OF assms, THEN handler_keeps_evolves]
        queue_handlers_keep(1) [OF assms, THEN handler_keeps_evolves]
        queue_handlers_keep(2) [THEN handler_keeps_evolves]
        kick_handler_keeps [OF assms, THEN handler_keeps_evolves]
        set_inflight_fd_keeps [THEN handler_keeps_evolves])
  then show ?thesis
    unfolding handler_evolves_def by (blast intro: evolves_trans keeps_evolves k)
qed

lemma dispatch_evolves:
  assumes "iface_keeps iface" and "vu_dispatch iface d = Inr (ok, d')"
  shows "evolves d d'"
proof -
  obtain ok1 d1 m where rd: "vu_message_read_default d (dv_sock d) zero_msg = Inr (ok1, d1, m)"
    using assms(2) by (auto simp: vu_dispatch_def tbind_eq_Inr_iff)
  then have k: "evolves d d1" by (intro keeps_evolves keeps_message_read [OF _ keeps_refl])
  show ?thesis
  proof (cases ok1)
    case True
    then obtain r d2 m2 where pm: "vu_process_message iface d1 m = Inr (r, d2, m2)" and "keeps d2 d'"
      using assms(2) rd
      by (auto simp: vu_dispatch_def tbind_eq_Inr_iff Let_def split: if_splits
          intro: keeps_refl dest: keeps_send_reply [OF _ keeps_refl])
    with process_message_evolves [OF assms(1), of d1 m] k show ?thesis
      unfolding handler_evolves_def by (blast intro: evolves_trans evolves_keeps)
  next
    case False
    with assms(2) rd k show ?thesis by (simp add: vu_dispatch_def)
  qed
qed

lemma kick_cb_evolves:
  assumes "iface_keeps iface" and "vu_kick_cb iface d i = Inr d'"
  shows "evolves d d'"
  using assms(2)
  by (auto simp: vu_kick_cb_def tbind_eq_Inr_iff Let_def vu_call_emit split: if_splits
      intro!: keeps_evolves intro: keeps_intros elim!: iface_after(6) [OF assms(1), rotated])

lemma init_device_ok: "vu_init d0 mq s args = Inr (True, d) \<Longrightarrow> device_ok d"
  by (auto simp: vu_init_def Let_def vu_call_emit vu_emit_def device_ok_def VHOST_USER_MAX_RAM_SLOTS_def
      split: if_splits)

text \<open>
  The life of a device: set up, then messages, kicks and changes of queue handlers in any order.
\<close>

inductive serves :: "VuDevIface \<Rightarrow> VuDev \<Rightarrow> bool" for iface :: VuDevIface where
  init: "vu_init d0 mq s args = Inr (True, d) \<Longrightarrow> serves iface d"
| message: "serves iface d \<Longrightarrow> vu_dispatch iface d = Inr (ok, d') \<Longrightarrow> serves iface d'"
| kick: "serves iface d \<Longrightarrow> vu_kick_cb iface d i = Inr d' \<Longrightarrow> serves iface d'"
| handler: "serves iface d \<Longrightarrow> serves iface (vu_set_queue_handler d i on)"

lemma served_device_ok:
  assumes "iface_keeps iface" and "serves iface dev"
  shows "device_ok dev"
  using assms(2)
proof induction
  case (init d0 mq s args d)
  then show ?case by (rule init_device_ok)
next
  case (message d ok d')
  with dispatch_evolves [OF assms(1)] show ?case by (auto simp: evolves_def)
next
  case (kick d i d')
  with kick_cb_evolves [OF assms(1)] show ?case by (auto simp: evolves_def)
next
  case (handler d i on)
  have "keeps d (vu_set_queue_handler d i on)"
    by (simp add: vu_set_queue_handler_def Let_def keeps_intros)
  with handler show ?case by (auto dest: keeps_evolves simp: evolves_def)
qed

text \<open>A front end that sets a memory table of two regions, and what the kernel gives it.\<close>

definition no_callbacks :: VuDevIface where
  "no_callbacks =
     \<lparr>if_get_features = None, if_set_features = None, if_get_protocol_features = None,
      if_set_protocol_features = None, if_process_msg = None, if_queue_set_started = None,
      if_queue_is_processed_in_order = None, if_get_config = None, if_set_config = None,
      if_get_shared_object = None, if_queue_handler = (\<lambda>d _. Inr d)\<rparr>"

lemma no_callbacks_keep: "iface_keeps no_callbacks"
  by (simp add: iface_keeps_def no_callbacks_def keeps_refl)

definition demo_table :: mem where
  "demo_table =
     bytes_at 0 [1,0,0,0] (bytes_at 9 [0x10] (bytes_at 17 [0x20] (bytes_at 25 [0x90] (\<lambda>_. 0))))"

definition demo_session :: VuDev where
  "demo_session =
     demo_dev\<lparr>dv_sys := (\<lambda>_. 0x5000),
              dv_recv := (\<lambda>i. if i = 1 then RecvHeader 5 1 72 [7] 72 demo_table
                            else RecvHeader 8 9 8 [] 8 (bytes_at 0 [1,0,0,0,8] (\<lambda>_. 0)))\<rparr>"

text \<open>The first request is a memory table, the others set the size of queue 1 and want an answer.\<close>

definition demo_initial :: VuDev where
  "demo_initial = snd (projr (vu_init demo_session 2 5 True))"

definition demo_served :: VuDev where
  "demo_served =
     snd (projr (vu_dispatch no_callbacks (snd (projr (vu_dispatch no_callbacks demo_initial)))))"

lemma result_pair: "\<not> isl r \<Longrightarrow> fst (projr r) = b \<Longrightarrow> r = Inr (b, snd (projr r))"
  by (cases r) auto

lemma demo_init: "vu_init demo_session 2 5 True = Inr (True, demo_initial)"
  unfolding demo_initial_def by (rule result_pair) code_simp+

lemma demo_first:
  "vu_dispatch no_callbacks demo_initial = Inr (True, snd (projr (vu_dispatch no_callbacks demo_initial)))"
  by (rule result_pair) code_simp+

lemma demo_second:
  "vu_dispatch no_callbacks (snd (projr (vu_dispatch no_callbacks demo_initial))) = Inr (True, demo_served)"
  unfolding demo_served_def by (rule result_pair) code_simp+

lemma demo_serves: "serves no_callbacks demo_served"
  by (rule serves.message [OF serves.message [OF serves.init [OF demo_init] demo_first] demo_second])

end
