(* ===== verification/VuMsgFacts.thy ===== *)
theory VuMsgFacts
  imports VuServe "HOL-Library.Multiset"
begin

section \<open>Which messages can leave the queue array\<close>

definition no_trap :: "'a trapping \<Rightarrow> bool" where
  "no_trap r \<longleftrightarrow> (\<exists>x. r = Inr x)"

lemma no_trap_simps [simp]: "no_trap (Inr x)" "\<not> no_trap (Inl t)"
  by (simp_all add: no_trap_def)

lemma no_trap_tbind: "no_trap r \<Longrightarrow> (\<And>x. r = Inr x \<Longrightarrow> no_trap (f x)) \<Longrightarrow> no_trap (tbind r f)"
  by (auto simp: no_trap_def)

lemma no_trap_tbind_iff: "no_trap (tbind r f) \<longleftrightarrow> (\<exists>x. r = Inr x \<and> no_trap (f x))"
  by (cases r) (auto simp: no_trap_def)

lemma no_trap_get_vq [simp]: "no_trap (get_vq d i) \<longleftrightarrow> i < length (dv_vq d)"
  by (simp add: get_vq_def)

lemma get_vq_Inr: "get_vq d i = Inr q \<longleftrightarrow> i < length (dv_vq d) \<and> q = dv_vq d ! i"
  by (auto simp: get_vq_def)

lemma remap_rings_no_trap: "\<forall>i \<in> set is. i < length (dv_vq d) \<Longrightarrow> no_trap (remap_rings msg is d)"
proof (induction "is" arbitrary: d)
  case (Cons i "is")
  have "length (dv_vq (vu_panic (put_vq d i q) msg)) = length (dv_vq d)"
    "length (dv_vq (put_vq d i q)) = length (dv_vq d)" for q
    by (simp_all add: put_vq_def vu_panic_def vu_emit_def)
  with Cons show ?case
    by (auto intro!: no_trap_tbind simp: Let_def split: prod.split)
qed simp

lemma map_table_no_trap:
  "i + k \<le> VHOST_MEMORY_BASELINE_NREGIONS \<Longrightarrow> length (dv_regions d) = VHOST_USER_MAX_RAM_SLOTS \<Longrightarrow>
     no_trap (map_table k i m d)"
proof (induction k arbitrary: i d)
  case (Suc k)
  have "length (dv_regions (map_region d i r fd)) = length (dv_regions d)" for r fd
    using keeps_map_region by (simp add: keeps_def)
  with Suc show ?case
    by (simp add: VHOST_MEMORY_BASELINE_NREGIONS_def VHOST_USER_MAX_RAM_SLOTS_def)
qed simp

lemma map_table_trap:
  "i + k > VHOST_MEMORY_BASELINE_NREGIONS \<Longrightarrow> 0 < k \<Longrightarrow> \<not> no_trap (map_table k i m d)"
  using keeps_map_table by (fastforce simp: no_trap_def)

text \<open>
  C38: \<^bold>\<open>A ring message traps exactly on a bad index\<close>. The four messages that size, address, set and
  stop a ring use the index of the message as it comes: on a well-formed device they end normally
  if and only if the index is a queue of the device. (The messages that carry descriptors do check it.)
\<close>

theorem ring_message_traps_on_bad_index:
  assumes "device_ok dev" and "if_process_msg iface = None" and "m_request m \<in> {8, 9, 10, 11}"
  shows "(\<exists>r. vu_process_message iface dev m = Inr r) \<longleftrightarrow> unat (state_index m) < unat (dv_max_queues dev)"
proof -
  have i: "va_index (payload_addr m) = state_index m"
    by (simp add: payload_addr_def state_index_def Let_def)
  have "no_trap (vu_process_message iface dev m) \<longleftrightarrow> unat (state_index m) < unat (dv_max_queues dev)"
    using assms
    by (auto simp: vu_process_message_def vu_set_vring_num_exec_def vu_set_vring_base_exec_def
        vu_get_vring_base_exec_def vu_set_vring_addr_exec_def no_trap_tbind_iff get_vq_Inr Let_def
        device_ok_def i split: prod.splits)
  then show ?thesis by (simp add: no_trap_def)
qed


lemma demo_initial_facts:
  "device_ok demo_initial" "dv_max_queues demo_initial = 2" "\<not> dv_postcopy_listening demo_initial"
  using init_device_ok [OF demo_init] by (simp, code_simp, code_simp)

definition demo_msg :: "u32 \<Rightarrow> u32 \<Rightarrow> u8 list \<Rightarrow> VhostUserMsg" where
  "demo_msg req n bytes =
     \<lparr>m_request = req, m_flags = 1, m_size = n, m_payload = bytes_at 0 bytes (\<lambda>_. 0), m_fds = [],
      m_data = None\<rparr>"

theorem ring_message_traps_on_bad_index_witness:
  "\<not> (\<exists>r. vu_process_message no_callbacks demo_initial (demo_msg 8 8 [2, 0, 0, 0, 64]) = Inr r)"
proof -
  let ?m = "demo_msg 8 8 [2, 0, 0, 0, 64]"
  have "state_index ?m = 2" by code_simp
  moreover have "if_process_msg no_callbacks = None" "m_request ?m \<in> {8, 9, 10, 11}"
    by (simp_all add: no_callbacks_def demo_msg_def)
  ultimately show ?thesis
    using ring_message_traps_on_bad_index [OF demo_initial_facts(1), of no_callbacks ?m]
    by (simp add: demo_initial_facts)
qed

text \<open>
  A memory table traps exactly beyond eight regions. The number of regions in the message is
  used as it comes: outside postcopy, on a well-formed device, the message ends normally if and only
  if it announces at most the eight regions a message has room for.
\<close>

lemma memory_table_traps_beyond_eight:
  assumes "device_ok dev" and "\<not> dv_postcopy_listening dev"
  shows "(\<exists>r. vu_set_mem_table_exec dev m = Inr r) \<longleftrightarrow> unat (memory_nregions m) \<le> 8"
proof -
  let ?d = "(unmap_regions dev)\<lparr>dv_nregions := memory_nregions m\<rparr>"
  have k: "keeps dev (unmap_regions dev)" by (rule keeps_unmap)
  then have regs: "length (dv_regions ?d) = VHOST_USER_MAX_RAM_SLOTS"
    and qs: "length (dv_vq ?d) = unat (dv_max_queues ?d)"
    using assms(1) by (simp_all add: keeps_def device_ok_def)
  have listen: "dv_postcopy_listening (unmap_regions dev) = dv_postcopy_listening dev"
    unfolding unmap_regions_def
    by (rule fold_invariant [where P = "\<lambda>d. dv_postcopy_listening d = dv_postcopy_listening dev" and Q = "\<lambda>_. True"])
       (auto simp: vu_emit_def)
  have remap: "no_trap (remap_rings msg [0..<unat (dv_max_queues d)] d)" if "keeps ?d d" for d msg
    using that qs by (intro remap_rings_no_trap) (simp add: keeps_def)
  have "no_trap (vu_set_mem_table_exec dev m) \<longleftrightarrow> no_trap (map_table (unat (memory_nregions m)) 0 m ?d)"
  proof (cases "map_table (unat (memory_nregions m)) 0 m ?d")
    case (Inr d2)
    then have "keeps ?d d2" using keeps_map_table by blast
    with remap Inr listen assms(2) show ?thesis
      by (auto simp: vu_set_mem_table_exec_def Let_def intro!: no_trap_tbind)
  qed (use listen assms(2) in \<open>simp add: vu_set_mem_table_exec_def Let_def\<close>)
  also have "\<dots> \<longleftrightarrow> unat (memory_nregions m) \<le> 8"
    using map_table_no_trap [of 0 "unat (memory_nregions m)" ?d m] regs
      map_table_trap [of 0 "unat (memory_nregions m)" m ?d]
    by (cases "unat (memory_nregions m) \<le> 8") (auto simp: VHOST_MEMORY_BASELINE_NREGIONS_def)
  finally show ?thesis by (simp add: no_trap_def)
qed

lemma handlers_without_trap:
  "no_trap (vu_get_features_exec iface d m)" "no_trap (vu_set_features_exec iface d m)"
  "no_trap (vu_get_protocol_features_exec iface d m)" "no_trap (vu_set_protocol_features_exec iface d m)"
  "no_trap (vu_set_owner_exec d m)" "no_trap (vu_reset_device_exec d m)"
  "no_trap (vu_set_log_base_exec d m)" "no_trap (vu_set_log_fd_exec d m)"
  "no_trap (vu_get_queue_num_exec d m)" "no_trap (vu_set_backend_req_fd d m)"
  "no_trap (vu_get_config iface d m)" "no_trap (vu_set_config iface d m)"
  "no_trap (vu_set_postcopy_advise d m)" "no_trap (vu_set_postcopy_listen d m)"
  "no_trap (vu_set_postcopy_end d m)" "no_trap (vu_get_inflight_fd d m)"
  "no_trap (vu_handle_get_max_memslots d m)" "no_trap (vu_rem_mem_reg d m)"
  "no_trap (vu_get_shared_object iface d m)"
  by (simp_all add: handler_defs vu_get_protocol_features_exec_def vu_set_log_base_exec_def
      vu_set_postcopy_advise_def vu_get_inflight_fd_def vu_rem_mem_reg_def Let_def
      split: option.split prod.split)

lemma no_trap_if: "(c \<Longrightarrow> no_trap r) \<Longrightarrow> (\<not> c \<Longrightarrow> no_trap s) \<Longrightarrow> no_trap (if c then r else s)"
  by simp

lemma other_messages_no_trap:
  assumes "device_ok dev" and "if_process_msg iface = None"
    and "m_request m \<notin> {0, 5, 8, 9, 10, 11, 12, 32, 35}"
  shows "no_trap (vu_process_message iface dev m)"
proof -
  have len: "length (dv_vq dev) = unat (dv_max_queues dev)" using assms(1) by (simp add: device_ok_def)
  have file_ok: "file_index m < length (dv_vq d1)" if "vu_check_queue_msg_file dev m = (True, d1)" for d1
  proof -
    have "keeps dev d1" using keeps_check_fileD [OF that keeps_refl] .
    with that len show ?thesis
      by (auto simp: vu_check_queue_msg_file_def keeps_def split: if_splits)
  qed
  have "no_trap (vu_set_vring_call_exec dev m)" "no_trap (vu_set_vring_err_exec dev m)"
    using file_ok by (auto simp: vu_set_vring_call_exec_def vu_set_vring_err_exec_def Let_def
        intro!: no_trap_tbind split: prod.splits if_splits)
  moreover have "no_trap (vu_set_vring_enable_exec dev m)"
    using len by (auto simp: vu_set_vring_enable_exec_def Let_def no_trap_tbind_iff get_vq_Inr)
  moreover have "no_trap (vu_add_mem_reg dev m)"
  proof -
    have "no_trap (remap_rings msg [0..<unat (dv_max_queues d)] d)" if "keeps dev d" for d msg
      using that len by (intro remap_rings_no_trap) (simp add: keeps_def)
    with keeps_map_region assms(1) show ?thesis
      by (auto simp: vu_add_mem_reg_def Let_def device_ok_def intro!: no_trap_tbind)
  qed
  ultimately show ?thesis
    using assms(2,3) unfolding vu_process_message_def
    by (simp only: option.case prod.case Let_def if_False) (intro no_trap_if; simp add: handlers_without_trap)
qed

text \<open>
  C37: \<^bold>\<open>The other messages never leave an array\<close>. On a well-formed device every other request than
  the memory table, the four ring messages above, the kick descriptor and the in-flight region
  (which walk records in shared memory), an in-band kick (which runs the device's own handler)
  and request 0 (on which the library exits) is carried out without a trap, whatever it contains.
\<close>

theorem other_messages_never_trap:
  assumes "device_ok dev" and "if_process_msg iface = None"
    and "m_request m \<notin> {0, 5, 8, 9, 10, 11, 12, 32, 35}"
  shows "\<exists>r. vu_process_message iface dev m = Inr r"
  using other_messages_no_trap [OF assms] by (simp add: no_trap_def)

theorem other_messages_never_trap_witness:
  "\<exists>r. vu_process_message no_callbacks demo_initial (demo_msg 18 8 [9, 0, 0, 0, 1]) = Inr r"
  by (rule other_messages_never_trap [OF demo_initial_facts(1)]) (simp_all add: no_callbacks_def demo_msg_def)

text \<open>
  C29: \<^bold>\<open>A served device stays well formed\<close>. After \<open>vu_init\<close> and any sequence of messages,
  kicks and handler changes, whatever the front end sends and the kernel answers (with callbacks that keep the arrays of the
  device), the region array has its 32 slots of which at most 32 are in use, and there are exactly \<open>max_queues\<close> queues.
  So no message that the library guards can take such a device out of its arrays: with no \<open>process_msg\<close> callback, every request other than those that
  \<open>other_messages_never_trap\<close> leaves out is carried out without a trap. In particular a 33rd memory region is refused: when all slots
  are in use, \<open>VHOST_USER_ADD_MEM_REG\<close> with one descriptor and a full payload closes the descriptor, marks the device broken and leaves the table as it was.
\<close>

theorem served_device_stays_well_formed:
  assumes "iface_keeps iface" and "serves iface dev" and "if_process_msg iface = None"
  shows "length (dv_regions dev) = 32 \<and> unat (dv_nregions dev) \<le> 32 \<and>
    length (dv_vq dev) = unat (dv_max_queues dev) \<and>
    (m_request m \<notin> {0, 5, 8, 9, 10, 11, 12, 32, 35} \<longrightarrow> (\<exists>r. vu_process_message iface dev m = Inr r)) \<and>
    (m_request m = 37 \<and> dv_nregions dev = 32 \<and> m_fds m = [fd] \<and> VHOST_USER_MEM_REG_SIZE \<le> m_size m \<longrightarrow>
       (\<exists>dev'. vu_process_message iface dev m = Inr (False, dev', m) \<and> dv_broken dev' \<and>
          dv_nregions dev' = dv_nregions dev \<and> dv_regions dev' = dv_regions dev \<and>
          EvClose fd \<in> set (drop (length (dv_trace dev)) (dv_trace dev'))))"
proof -
  note ok = served_device_ok [OF assms(1,2)]
  have full: "vu_process_message iface dev m =
      Inr (False, vu_panic (vu_emit dev (EvClose fd)) ''no free ram slots available'', m)"
    if "m_request m = 37" "dv_nregions dev = 32" "m_fds m = [fd]" "VHOST_USER_MEM_REG_SIZE \<le> m_size m"
    using that assms(3)
    by (simp add: vu_process_message_def vu_add_mem_reg_def fd_at_def VHOST_USER_MAX_RAM_SLOTS_def Let_def leD)
  have shape: "length (dv_regions dev) = 32" "unat (dv_nregions dev) \<le> 32" "length (dv_vq dev) = unat (dv_max_queues dev)"
    using ok by (simp_all add: device_ok_def VHOST_USER_MAX_RAM_SLOTS_def)
  have calm: "\<exists>r. vu_process_message iface dev m = Inr r" if "m_request m \<notin> {0, 5, 8, 9, 10, 11, 12, 32, 35}"
    using other_messages_no_trap [OF ok assms(3) that] by (simp add: no_trap_def)
  show ?thesis using shape calm by (auto simp: full vu_emit_def)
qed

text \<open>
  The witness: a front end that adds one memory region after the other and does not stop at 32.
\<close>

definition greedy_message :: recv_result where
  "greedy_message = RecvHeader 37 1 40 [7] 40 (bytes_at 17 [0x20] (\<lambda>_. 0))"

definition greedy :: "nat \<Rightarrow> VuDev \<Rightarrow> bool" where
  "greedy n dev \<longleftrightarrow> serves no_callbacks dev \<and> dv_recv dev = (\<lambda>_. greedy_message) \<and>
     \<not> dv_postcopy_listening dev \<and> dv_nregions dev = of_nat n"

lemma remap_rings_env:
  "remap_rings msg is d = Inr d' \<Longrightarrow>
     dv_recv d' = dv_recv d \<and> dv_postcopy_listening d' = dv_postcopy_listening d"
proof (induction "is" arbitrary: d)
  case (Cons i "is")
  then show ?case
    by (auto simp: tbind_eq_Inr_iff Let_def put_vq_def vu_panic_def vu_emit_def split: prod.splits if_splits
        dest!: Cons.IH)
qed simp

lemma greedy_step:
  assumes "greedy n dev" and "n < 32"
  shows "\<exists>dev'. greedy (Suc n) dev'"
proof -
  let ?m = "zero_msg\<lparr>m_request := 37, m_flags := 1, m_size := 40, m_fds := [7],
    m_payload := read_over (m_payload zero_msg) 40 (bytes_at 17 [0x20] (\<lambda>_. 0))\<rparr>"
  let ?d1 = "vu_emit dev (EvRecv (dv_sock dev))"
  let ?d2 = "map_region ?d1 n (memreg_region ?m) 7"
  have ok: "device_ok dev" using served_device_ok [OF no_callbacks_keep] assms(1) by (simp add: greedy_def)
  have n: "unat (dv_nregions dev) = n" using assms by (simp add: greedy_def unat_of_nat take_bit_nat_eq_self)
  have regs: "n < length (dv_regions dev)" using ok assms(2) by (simp add: device_ok_def VHOST_USER_MAX_RAM_SLOTS_def)
  have read: "vu_message_read_default dev (dv_sock dev) zero_msg = Inr (True, ?d1, ?m)"
    using assms(1)
    by (simp add: vu_message_read_default_def greedy_def greedy_message_def Let_def payload_size_def
        VHOST_MEMORY_BASELINE_NREGIONS_def)
  have "no_trap (remap_rings msg [0..<unat (dv_max_queues ?d2)] ?d2)" for msg
    using keeps_map_region [of ?d1 n "memreg_region ?m" 7] ok
    by (intro remap_rings_no_trap) (simp add: keeps_def device_ok_def vu_emit_def)
  then obtain d3 where d3: "remap_rings ''remapping queue for new memory region'' [0..<unat (dv_max_queues ?d2)] ?d2 = Inr d3"
    by (auto simp: no_trap_def)
  have env: "dv_recv ?d2 = dv_recv dev" "dv_postcopy_listening ?d2 = dv_postcopy_listening dev"
    by (simp_all add: map_region_def vu_call_def vu_emit_def vu_panic_def Let_def)
  have "dv_nregions d3 = dv_nregions dev"
    using keeps_remap_rings [OF d3] keeps_map_region [of ?d1 n "memreg_region ?m" 7] by (simp add: keeps_def vu_emit_def)
  moreover have "vu_process_message no_callbacks ?d1 ?m = Inr (False, d3\<lparr>dv_nregions := dv_nregions d3 + 1\<rparr>, ?m)"
    using d3 n regs assms
    by (simp add: vu_process_message_def no_callbacks_def vu_add_mem_reg_def vu_emit_def greedy_def Let_def
        VHOST_USER_MEM_REG_SIZE_def VHOST_USER_MAX_RAM_SLOTS_def fd_at_def)
  then have d: "vu_dispatch no_callbacks dev = Inr (True, d3\<lparr>dv_nregions := dv_nregions d3 + 1\<rparr>)"
    by (simp add: vu_dispatch_def read VHOST_USER_NEED_REPLY_MASK_def)
  ultimately have "greedy (Suc n) (d3\<lparr>dv_nregions := dv_nregions d3 + 1\<rparr>)"
    using assms(1) remap_rings_env [OF d3] env serves.message [OF _ d] by (simp add: greedy_def)
  then show ?thesis ..
qed

lemma greedy_reaches: "n \<le> 32 \<Longrightarrow> \<exists>dev. greedy n dev"
proof (induction n)
  case 0
  have "vu_init (demo_dev\<lparr>dv_recv := (\<lambda>_. greedy_message)\<rparr>) 1 5 True =
      Inr (True, snd (projr (vu_init (demo_dev\<lparr>dv_recv := (\<lambda>_. greedy_message)\<rparr>) 1 5 True)))" (is "_ = Inr (True, ?d)")
    by (simp add: vu_init_def vu_call_def demo_dev_def Let_def)
  from serves.init [OF this] have "greedy 0 ?d"
    by (simp add: greedy_def vu_init_def vu_call_def demo_dev_def Let_def)
  then show ?case ..
next
  case (Suc n)
  then show ?case using greedy_step by auto
qed

theorem served_device_stays_well_formed_witness:
  "\<exists>dev dev'. serves no_callbacks dev \<and> dv_nregions dev = 32 \<and> length (dv_regions dev) = 32 \<and>
     vu_process_message no_callbacks dev ((demo_msg 37 40 [])\<lparr>m_fds := [7]\<rparr>) =
       Inr (False, dev', (demo_msg 37 40 [])\<lparr>m_fds := [7]\<rparr>) \<and> dv_broken dev' \<and> dv_nregions dev' = 32"
proof -
  obtain dev where "greedy 32 dev" using greedy_reaches [of 32] by auto
  then have s: "serves no_callbacks dev" and n: "dv_nregions dev = 32" by (simp_all add: greedy_def)
  have none: "if_process_msg no_callbacks = None" by (simp add: no_callbacks_def)
  from served_device_stays_well_formed [OF no_callbacks_keep s none, of "(demo_msg 37 40 [])\<lparr>m_fds := [7]\<rparr>" 7] n s
  show ?thesis by (auto simp: demo_msg_def VHOST_USER_MEM_REG_SIZE_def)
qed

end
