(* ===== verification/VuRegions.thy ===== *)
theory VuRegions
  imports VuMsgFacts
begin

text \<open>
  The messages that add and remove memory regions: what the table is afterwards.
\<close>

definition regions :: "VuDev \<Rightarrow> VuDevRegion list" where
  "regions dev = take (unat (dv_nregions dev)) (dv_regions dev)"

lemma length_regions: "device_ok dev \<Longrightarrow> length (regions dev) = unat (dv_nregions dev)"
  by (simp add: regions_def device_ok_def)

lemma take_hole:
  assumes "i < n" and "n \<le> length xs"
  shows "take (n - 1) (take i xs @ drop (i + 1) (take n xs) @ zs) = take i (take n xs) @ drop (i + 1) (take n xs)"
proof -
  let ?ys = "take i xs @ drop (i + 1) (take n xs)"
  have len: "length ?ys = n - 1" using assms by simp
  have "take (length ?ys) (?ys @ zs) = ?ys" by (metis append_eq_conv_conj)
  moreover have "take i (take n xs) = take i xs" using assms by (simp add: min_absorb1)
  ultimately show ?thesis using len by (simp only: append_assoc)
qed

text \<open>
  The loop keeps the regions before \<open>i\<close> and filters the others; slots that become free are zeroed.
\<close>

definition unmaps :: "VuDevRegion list \<Rightarrow> vu_event list" where
  "unmaps rs = map (\<lambda>r. EvMunmap (r_mmap_addr r) (r_size r + r_mmap_offset r)) (filter (\<lambda>r. r_mmap_addr r \<noteq> 0) rs)"

text \<open>One removal: the hole at \<open>i\<close> is closed, the freed slot cleared and the count lowered.\<close>

definition drop_region :: "VuDev \<Rightarrow> nat \<Rightarrow> VuDev" where
  "drop_region dev i =
     (let n = unat (dv_nregions dev); rs = dv_regions dev; r = rs ! i;
          dev1 = (if r_mmap_addr r \<noteq> 0
                  then vu_emit dev (EvMunmap (r_mmap_addr r) (r_size r + r_mmap_offset r)) else dev)
      in dev1\<lparr>dv_regions := take i rs @ drop (i + 1) (take n rs) @ [zero_region] @ drop n rs,
              dv_nregions := dv_nregions dev1 - 1\<rparr>)"

lemma rem_regions_step:
  "rem_regions mr i found dev =
     (if \<not> i < unat (dv_nregions dev) then (found, dev)
      else if reg_equal (dv_regions dev ! i) mr then rem_regions mr i True (drop_region dev i)
      else rem_regions mr (i + 1) found dev)"
  by (subst rem_regions.simps) (simp add: drop_region_def Let_def)

lemma drop_region_facts:
  assumes "device_ok dev" and "i < unat (dv_nregions dev)"
  shows "device_ok (drop_region dev i)"
    and "unat (dv_nregions (drop_region dev i)) = unat (dv_nregions dev) - 1"
    and "regions (drop_region dev i) = take i (regions dev) @ drop (i + 1) (regions dev)"
    and "dv_trace (drop_region dev i) = dv_trace dev @ unmaps [regions dev ! i]"
    and "dv_broken (drop_region dev i) = dv_broken dev"
proof -
  let ?n = "unat (dv_nregions dev)" and ?rs = "dv_regions dev"
  show n1: "unat (dv_nregions (drop_region dev i)) = ?n - 1"
    using assms(2) unat_minus_one [of "dv_nregions dev"]
    by (cases "dv_nregions dev = 0") (simp_all add: drop_region_def vu_emit_def Let_def)
  show "device_ok (drop_region dev i)"
    using assms n1 by (auto simp: device_ok_def drop_region_def vu_emit_def Let_def)
  have "regions (drop_region dev i)
      = take (?n - 1) (take i ?rs @ drop (i + 1) (take ?n ?rs) @ [zero_region] @ drop ?n ?rs)"
    using n1 by (simp add: regions_def drop_region_def Let_def)
  also have "\<dots> = take i (take ?n ?rs) @ drop (i + 1) (take ?n ?rs)"
    using assms by (intro take_hole) (simp_all add: device_ok_def)
  finally show "regions (drop_region dev i) = take i (regions dev) @ drop (i + 1) (regions dev)"
    by (simp only: regions_def)
  show "dv_trace (drop_region dev i) = dv_trace dev @ unmaps [regions dev ! i]"
    using assms(2) by (simp add: drop_region_def unmaps_def vu_emit_def regions_def Let_def)
  show "dv_broken (drop_region dev i) = dv_broken dev"
    by (simp add: drop_region_def vu_emit_def Let_def)
qed

lemma rem_regions_spec:
  assumes "device_ok dev" and "i \<le> unat (dv_nregions dev)" and "rem_regions mr i found dev = (f, dev')"
  shows "regions dev' = take i (regions dev) @ filter (\<lambda>r. \<not> reg_equal r mr) (drop i (regions dev)) \<and>
    f = (found \<or> (\<exists>r \<in> set (drop i (regions dev)). reg_equal r mr)) \<and> device_ok dev' \<and>
    dv_trace dev' = dv_trace dev @ unmaps (filter (\<lambda>r. reg_equal r mr) (drop i (regions dev))) \<and>
    dv_broken dev' = dv_broken dev"
  using assms
proof (induction "unat (dv_nregions dev) - i" arbitrary: i found dev rule: less_induct)
  case less
  let ?n = "unat (dv_nregions dev)" and ?r = "regions dev ! i"
  have len: "length (regions dev) = ?n" using less.prems(1) by (rule length_regions)
  consider (past) "\<not> i < ?n" | (eq) "i < ?n" "reg_equal ?r mr" | (neq) "i < ?n" "\<not> reg_equal ?r mr"
    by blast
  then show ?case
  proof cases
    case past
    then show ?thesis using less.prems len by (simp add: rem_regions_step unmaps_def)
  next
    case eq
    let ?d = "drop_region dev i"
    note facts = drop_region_facts [OF less.prems(1) eq(1)]
    have rec: "rem_regions mr i True ?d = (f, dev')"
      using less.prems(3) eq by (simp add: rem_regions_step [of mr i found dev] regions_def)
    from facts(3) eq(1) len have rest: "take i (regions ?d) = take i (regions dev)"
        "drop i (regions ?d) = drop (i + 1) (regions dev)" by simp_all
    from less.hyps [OF _ facts(1) _ rec] eq(1) facts(2) rest
    show ?thesis using eq facts(4,5) len Cons_nth_drop_Suc [of i "regions dev"]
      by (simp add: unmaps_def flip: Cons_nth_drop_Suc)
  next
    case neq
    have "rem_regions mr (i + 1) found dev = (f, dev')"
      using less.prems(3) neq by (simp add: rem_regions_step [of mr i found dev] regions_def)
    from less.hyps [OF _ less.prems(1) _ this] neq len
    show ?thesis by (simp add: take_Suc_conv_app_nth flip: Cons_nth_drop_Suc)
  qed
qed

lemma regions_simps [simp]:
  "regions (vu_panic d msg) = regions d" "regions (vu_emit d e) = regions d"
  by (simp_all add: regions_def vu_emit_def)

lemma close_fds_simps:
  "regions (vmsg_close_fds d m) = regions d"
  "dv_broken (vmsg_close_fds d m) = dv_broken d"
  "dv_trace (vmsg_close_fds d m) = dv_trace d @ map EvClose (m_fds m)"
proof -
  have "regions (fold (\<lambda>fd d. vu_emit d (EvClose fd)) fds d) = regions d \<and>
      dv_broken (fold (\<lambda>fd d. vu_emit d (EvClose fd)) fds d) = dv_broken d \<and>
      dv_trace (fold (\<lambda>fd d. vu_emit d (EvClose fd)) fds d) = dv_trace d @ map EvClose fds" for fds d
    by (induction fds arbitrary: d) (simp_all add: regions_def vu_emit_def)
  then show "regions (vmsg_close_fds d m) = regions d"
    "dv_broken (vmsg_close_fds d m) = dv_broken d"
    "dv_trace (vmsg_close_fds d m) = dv_trace d @ map EvClose (m_fds m)"
    by (simp_all add: vmsg_close_fds_def)
qed

text \<open>
  C36: \<^bold>\<open>Removing a region removes every copy of it\<close>. On a well-formed device a removal
  message of sufficient size with at most one descriptor leaves the regions that differ from the one
  named, in their order; it unmaps the removed ones that were mapped and closes the
  descriptor; and it reports an error exactly if there was nothing to remove.
\<close>

theorem remove_region_removes_every_copy:
  assumes "device_ok dev" and "length (m_fds m) \<le> 1" and "32 \<le> m_size m"
    and "vu_rem_mem_reg dev m = Inr (reply, dev', m')"
  defines "same \<equiv> \<lambda>r. reg_equal r (memreg_region m)"
  shows "regions dev' = filter (\<lambda>r. \<not> same r) (regions dev) \<and>
    dv_trace dev' = dv_trace dev @ unmaps (filter same (regions dev)) @
      (if \<exists>r \<in> set (regions dev). same r then [] else [EvPanic ''Specified region not found'']) @
      map EvClose (m_fds m) \<and>
    dv_broken dev' = (dv_broken dev \<or> (\<forall>r \<in> set (regions dev). \<not> same r)) \<and> \<not> reply \<and> m' = m"
proof -
  obtain f d1 where rr: "rem_regions (memreg_region m) 0 False dev = (f, d1)" by fastforce
  from rem_regions_spec [OF assms(1) _ rr]
  have spec: "regions d1 = filter (\<lambda>r. \<not> same r) (regions dev)" "f = (\<exists>r \<in> set (regions dev). same r)"
    "dv_trace d1 = dv_trace dev @ unmaps (filter same (regions dev))" "dv_broken d1 = dv_broken dev"
    by (simp_all add: same_def)
  have "\<not> m_size m < 32" "\<not> length (m_fds m) > 1" using assms(2,3) by (simp_all add: linorder_not_less)
  then have "\<not> reply" "m' = m"
    "dev' = vmsg_close_fds (if f then d1 else vu_panic d1 ''Specified region not found'') m"
    using assms(4) rr by (auto simp: vu_rem_mem_reg_def VHOST_USER_MEM_REG_SIZE_def)
  with spec show ?thesis by (auto simp: close_fds_simps)
qed


definition demo_two :: VuDev where
  "demo_two = demo_initial\<lparr>dv_nregions := 3,
     dv_regions := \<lparr>r_gpa = 1, r_size = 2, r_qva = 3, r_mmap_offset = 0, r_mmap_addr = 0x5000\<rparr> #
       \<lparr>r_gpa = 9, r_size = 2, r_qva = 3, r_mmap_offset = 0, r_mmap_addr = 0x6000\<rparr> #
       \<lparr>r_gpa = 1, r_size = 2, r_qva = 3, r_mmap_offset = 4, r_mmap_addr = 0\<rparr> #
       replicate 29 zero_region\<rparr>"

definition demo_removal :: VhostUserMsg where
  "demo_removal = (demo_msg 38 40 [0,0,0,0,0,0,0,0, 1,0,0,0,0,0,0,0, 2,0,0,0,0,0,0,0, 3])\<lparr>m_fds := [7]\<rparr>"

lemma demo_two_ok: "device_ok demo_two"
  using demo_initial_facts(1) by (simp add: demo_two_def device_ok_def VHOST_USER_MAX_RAM_SLOTS_def)

lemma demo_removal_result:
  "vu_rem_mem_reg demo_two demo_removal =
     Inr (False, fst (snd (projr (vu_rem_mem_reg demo_two demo_removal))), demo_removal)"
  by (simp add: vu_rem_mem_reg_def demo_removal_def demo_msg_def VHOST_USER_MEM_REG_SIZE_def Let_def
      split: prod.split)

theorem remove_region_removes_every_copy_witness:
  "map r_gpa (regions (fst (snd (projr (vu_rem_mem_reg demo_two demo_removal))))) = [9]"
proof -
  have "length (m_fds demo_removal) \<le> 1" "32 \<le> m_size demo_removal"
    by (simp_all add: demo_removal_def demo_msg_def)
  from remove_region_removes_every_copy [OF demo_two_ok this demo_removal_result]
  have "regions (fst (snd (projr (vu_rem_mem_reg demo_two demo_removal)))) =
      filter (\<lambda>r. \<not> reg_equal r (memreg_region demo_removal)) (regions demo_two)" by blast
  moreover have "map r_gpa (filter (\<lambda>r. \<not> reg_equal r (memreg_region demo_removal)) (regions demo_two)) = [9]"
    by code_simp
  ultimately show ?thesis by simp
qed

section \<open>Adding a region\<close>

lemma remap_rings_regions:
  "remap_rings msg is d = Inr d' \<Longrightarrow> dv_regions d' = dv_regions d \<and> dv_nregions d' = dv_nregions d"
  by (induction "is" arbitrary: d)
     (auto simp: tbind_eq_Inr_iff Let_def put_vq_def split: prod.splits if_splits)

definition mapped_region :: "VhostUserMemoryRegion \<Rightarrow> int \<Rightarrow> VuDevRegion" where
  "mapped_region mr p =
     \<lparr>r_gpa = mr_guest_phys_addr mr, r_size = mr_memory_size mr, r_qva = mr_userspace_addr mr,
      r_mmap_offset = mr_mmap_offset mr, r_mmap_addr = word_of_int p\<rparr>"

lemma map_region_regions:
  assumes "dv_sys d (length (dv_trace d)) \<noteq> -1"
  shows "dv_regions (map_region d i mr fd) =
    (dv_regions d)[i := mapped_region mr (dv_sys d (length (dv_trace d)))]"
    "dv_nregions (map_region d i mr fd) = dv_nregions d"
    "dv_max_queues (map_region d i mr fd) = dv_max_queues d"
    "length (dv_vq (map_region d i mr fd)) = length (dv_vq d)"
  using assms
  by (cases "dv_regions d ! i", simp_all add: map_region_def vu_call_emit vu_emit_def mapped_region_def Let_def)

lemma add_region_appends:
  assumes "device_ok dev" and "\<not> dv_postcopy_listening dev" and "unat (dv_nregions dev) < 32"
    and "length (m_fds m) = 1" and "32 \<le> m_size m"
    and "dv_sys dev (length (dv_trace dev)) \<noteq> -1"
  obtains dev' where "vu_add_mem_reg dev m = Inr (False, dev', m)" "device_ok dev'"
    "regions dev' = regions dev @ [mapped_region (memreg_region m) (dv_sys dev (length (dv_trace dev)))]"
proof -
  let ?n = "unat (dv_nregions dev)" and ?d1 = "map_region dev (unat (dv_nregions dev)) (memreg_region m) (fd_at m 0)"
  note f = map_region_regions [OF assms(6)]
  have n: "?n < length (dv_regions dev)" "\<not> m_size m < 32"
    using assms by (simp_all add: device_ok_def VHOST_USER_MAX_RAM_SLOTS_def linorder_not_less)
  have "no_trap (remap_rings ''remapping queue for new memory region'' [0..<unat (dv_max_queues ?d1)] ?d1)"
    using assms(1) f by (intro remap_rings_no_trap) (simp add: device_ok_def)
  then obtain d2 where d2: "remap_rings ''remapping queue for new memory region''
      [0..<unat (dv_max_queues ?d1)] ?d1 = Inr d2" by (auto simp: no_trap_def)
  let ?d3 = "d2\<lparr>dv_nregions := dv_nregions d2 + 1\<rparr>"
  have r: "vu_add_mem_reg dev m = Inr (False, ?d3, m)"
    using assms n d2
    by (simp add: vu_add_mem_reg_def Let_def VHOST_USER_MEM_REG_SIZE_def VHOST_USER_MAX_RAM_SLOTS_def)
  have rs: "dv_regions d2 = (dv_regions dev)[?n := mapped_region (memreg_region m) (dv_sys dev (length (dv_trace dev)))]"
    "dv_nregions d2 = dv_nregions dev"
    using remap_rings_regions [OF d2] f by simp_all
  have "unat (dv_nregions dev + 1) = ?n + 1"
    using unat_inc32 [of "dv_nregions dev" 32] assms(3) by simp
  then have "regions ?d3 = regions dev @ [mapped_region (memreg_region m) (dv_sys dev (length (dv_trace dev)))]"
    using rs n(1) by (simp add: regions_def take_Suc_conv_app_nth)
  moreover have "device_ok ?d3"
    using add_mem_reg_evolves [of dev m] r assms(1) unfolding handler_evolves_def evolves_def by blast
  ultimately show ?thesis using r that by blast
qed

text \<open>
  C32: \<^bold>\<open>Removing undoes adding\<close>. Outside postcopy, adding a region that is not in the table yet
  (with its one descriptor, a free slot and a mapping that succeeds) appends it to the table, and the
  removal message that names the same region gives the old table back.
\<close>

theorem removing_undoes_adding:
  assumes "device_ok dev" and "\<not> dv_postcopy_listening dev" and "unat (dv_nregions dev) < 32"
    and "length (m_fds m) = 1" and "32 \<le> m_size m"
    and "dv_sys dev (length (dv_trace dev)) \<noteq> -1"
    and "\<forall>r \<in> set (regions dev). \<not> reg_equal r (memreg_region m)"
    and "length (m_fds m2) \<le> 1" and "32 \<le> m_size m2" and "memreg_region m2 = memreg_region m"
  shows "\<exists>dev1 dev2. vu_add_mem_reg dev m = Inr (False, dev1, m) \<and>
    regions dev1 = regions dev @ [mapped_region (memreg_region m) (dv_sys dev (length (dv_trace dev)))] \<and>
    vu_rem_mem_reg dev1 m2 = Inr (False, dev2, m2) \<and> regions dev2 = regions dev \<and>
    dv_broken dev2 = dv_broken dev1"
proof -
  obtain dev1 where d1: "vu_add_mem_reg dev m = Inr (False, dev1, m)" "device_ok dev1"
    "regions dev1 = regions dev @ [mapped_region (memreg_region m) (dv_sys dev (length (dv_trace dev)))]"
    using add_region_appends [OF assms(1-6)] .
  obtain f d where rr: "rem_regions (memreg_region m2) 0 False dev1 = (f, d)" by fastforce
  let ?dev2 = "vmsg_close_fds (if f then d else vu_panic d ''Specified region not found'') m2"
  have rem: "vu_rem_mem_reg dev1 m2 = Inr (False, ?dev2, m2)"
    using assms(8,9) rr
    by (simp add: vu_rem_mem_reg_def VHOST_USER_MEM_REG_SIZE_def linorder_not_less [symmetric])
  have self: "reg_equal (mapped_region mr p) mr" for mr p
    by (simp add: reg_equal_def mapped_region_def)
  have "regions d = regions dev \<and> f \<and> dv_broken d = dv_broken dev1"
    using rem_regions_spec [OF d1(2) _ rr] d1(3) assms(7,10) self by (auto simp: filter_id_conv)
  then show ?thesis using d1 rem by (auto simp: close_fds_simps)
qed

definition demo_addition :: VhostUserMsg where
  "demo_addition = (demo_msg 37 40 [0,0,0,0,0,0,0,0, 0,0,4])\<lparr>m_fds := [7]\<rparr>"

theorem removing_undoes_adding_witness:
  "\<exists>dev1 dev2. vu_add_mem_reg demo_two demo_addition = Inr (False, dev1, demo_addition) \<and>
    vu_rem_mem_reg dev1 demo_addition = Inr (False, dev2, demo_addition) \<and> regions dev2 = regions demo_two"
proof -
  have "\<not> dv_postcopy_listening demo_two" "unat (dv_nregions demo_two) < 32"
    "length (m_fds demo_addition) = 1" "32 \<le> m_size demo_addition"
    "dv_sys demo_two (length (dv_trace demo_two)) \<noteq> -1"
    "\<forall>r \<in> set (regions demo_two). \<not> reg_equal r (memreg_region demo_addition)"
    "length (m_fds demo_addition) \<le> 1"
    by code_simp+
  from removing_undoes_adding [OF demo_two_ok this(1-6) this(7,4) refl] show ?thesis by blast
qed

end
