(* ===== verification/VuProtocol.thy ===== *)
theory VuProtocol
  imports VuMsgFacts
begin

text \<open>
  Properties of single messages and of the dispatcher: who is answered, what the feature words do,
  which messages abort, the base index of a ring, and what tearing a device down closes.
\<close>

section \<open>Feature words\<close>

text \<open>
  The test whether the front end took \<open>VHOST_USER_F_PROTOCOL_FEATURES\<close> uses the number of the bit, 30, as a mask, so
  it looks at the bits 1 to 4 of the word.
\<close>

lemma protocol_features_mask:
  "w AND VHOST_USER_F_PROTOCOL_FEATURES = 0 \<longleftrightarrow> (\<forall>i \<in> {1, 2, 3, 4}. \<not> bit w i)" for w :: u64
proof
  have bits: "bit (30 :: u64) n \<longleftrightarrow> n \<in> {1, 2, 3, 4}" for n
  proof -
    have "(30 :: u64) = push_bit 1 1 OR push_bit 2 1 OR push_bit 3 1 OR push_bit 4 1" by simp
    then show ?thesis by (simp only: bit_simps) auto
  qed
  show "w AND VHOST_USER_F_PROTOCOL_FEATURES = 0" if clear: "\<forall>i \<in> {1, 2, 3, 4}. \<not> bit w i"
  proof (rule bit_word_eqI)
    fix n
    have "\<not> (bit w n \<and> bit (30 :: u64) n)" using clear bits [of n] by blast
    then show "bit (w AND VHOST_USER_F_PROTOCOL_FEATURES) n = bit 0 n"
      by (simp only: bit_and_iff VHOST_USER_F_PROTOCOL_FEATURES_def bit_0_eq bot_apply) simp
  qed
  assume 0: "w AND VHOST_USER_F_PROTOCOL_FEATURES = 0"
  show "\<forall>i \<in> {1, 2, 3, 4}. \<not> bit w i"
  proof
    fix i :: nat assume i: "i \<in> {1, 2, 3, 4}"
    have "\<not> bit (w AND VHOST_USER_F_PROTOCOL_FEATURES) i" using 0 by simp
    with i bits [of i] show "\<not> bit w i" by (simp only: bit_and_iff VHOST_USER_F_PROTOCOL_FEATURES_def simp_thms)
  qed
qed

text \<open>
  What setting the features does to the rings, exactly, for a device implementation that has no \<open>set_features\<close> or one
  that leaves the queues and the features alone: they are all enabled if bits 1 to 4 are clear and stay as they
  are otherwise. Bit 30 itself makes no difference.
\<close>

definition quiet_set_features :: "VuDevIface \<Rightarrow> bool" where
  "quiet_set_features iface \<longleftrightarrow>
     (case if_set_features iface of
        None \<Rightarrow> True
      | Some s \<Rightarrow> \<forall>d f. dv_vq (s d f) = dv_vq d \<and> dv_features (s d f) = dv_features d)"

lemma set_features_rings:
  assumes "bit (payload_u64 m) 32" and "quiet_set_features iface"
  shows "\<exists>dev'. vu_set_features_exec iface dev m = Inr (False, dev', m) \<and> dv_features dev' = payload_u64 m \<and>
    dv_vq dev' = (if \<forall>i \<in> {1, 2, 3, 4}. \<not> bit (payload_u64 m) i
                  then map (\<lambda>q. q\<lparr>vq_enable := 1\<rparr>) (dv_vq dev) else dv_vq dev)"
  using assms
  by (cases "if_set_features iface")
     (simp_all add: vu_set_features_exec_def vu_has_feature_def has_feature_bit VIRTIO_F_VERSION_1_def
        vu_set_enable_all_rings_def protocol_features_mask vu_emit_def quiet_set_features_def Let_def)

section \<open>Messages with several descriptors\<close>

text \<open>
  C39: \<^bold>\<open>Reading a message aborts on two descriptors or a short payload\<close>. The assertion after
  \<open>recvmsg\<close> compares the bytes of the descriptors, four each, with the number of regions, 8: a header
  that brings two descriptors or more ends the process (a memory table can have one region
  only), and so does a payload of which only a part arrived at once. Nothing else traps.
\<close>

theorem reading_aborts_on_two_descriptors:
  assumes "dv_recv dev (length (dv_trace dev)) = RecvHeader req flags n fds rc bytes"
  shows "vu_message_read_default dev fd vmsg = Inl t \<longleftrightarrow>
    t = AssertFailed \<and> (2 \<le> length fds \<or> 0 < n \<and> n \<le> payload_size \<and> 0 < rc \<and> word_of_int rc \<noteq> n)"
proof -
  have "fds \<noteq> [] \<and> \<not> 4 * length fds < VHOST_MEMORY_BASELINE_NREGIONS \<longleftrightarrow> 2 \<le> length fds"
    by (cases fds; cases "tl fds") (auto simp: VHOST_MEMORY_BASELINE_NREGIONS_def)
  with assms show ?thesis
    unfolding vu_message_read_default_def
    by (auto simp: Let_def linorder_not_le linorder_not_less word_gt_0)
qed

definition demo_two_fds :: VuDev where
  "demo_two_fds = demo_dev\<lparr>dv_recv := (\<lambda>_. RecvHeader 5 1 72 [7, 8] 72 demo_table)\<rparr>"

theorem reading_aborts_on_two_descriptors_witness:
  "vu_message_read_default demo_two_fds 5 zero_msg = Inl AssertFailed"
proof -
  have "dv_recv demo_two_fds (length (dv_trace demo_two_fds)) = RecvHeader 5 1 72 [7, 8] 72 demo_table"
    by (simp add: demo_two_fds_def)
  from reading_aborts_on_two_descriptors [OF this, of 5 zero_msg AssertFailed] show ?thesis by simp
qed

section \<open>Answers\<close>

lemma load16_store32_lo: "load16 (store32 m a v) a = ucast v"
  by (simp add: store32_def load16_def store16_def add.assoc)
     (rule bit_word_eqI, auto simp: bit_simps)

lemma send_reply_trace:
  assumes "vu_send_reply d s m = Inr (ok, d')"
  shows "\<exists>w. dv_trace d' = dv_trace d @ EvSend s (m\<lparr>m_flags := reply_flags (m_flags m)\<rparr>) # w \<and>
    (ok \<longrightarrow> w = (if m_size m = 0 then [] else [EvWrite s (m_size m)]))"
  using assms
  by (auto simp: vu_send_reply_def vu_message_write_def vu_call_emit vu_emit_def Let_def
      vu_panic_def split: if_splits)

text \<open>
  C34: \<^bold>\<open>A request that asks for a reply gets one\<close>. When the dispatcher succeeds on a message
  with the need-reply flag, the last thing it did was to send a message with the reply flag and
  version 1 on the device's socket; where the handler itself had no answer it is the
  acknowledgement, a zero of eight bytes.
\<close>

theorem need_reply_is_answered:
  assumes "vu_message_read_default dev (dv_sock dev) zero_msg = Inr (True, dev1, m)"
    and "m_flags m AND VHOST_USER_NEED_REPLY_MASK \<noteq> 0"
    and "vu_process_message iface dev1 m = Inr (reply, dev2, m2)"
    and "vu_dispatch iface dev = Inr (True, dev')"
  shows "\<exists>a. dv_trace dev' = dv_trace dev2 @ EvSend (dv_sock dev2) a #
      (if m_size a = 0 then [] else [EvWrite (dv_sock dev2) (m_size a)]) \<and>
    m_flags a AND VHOST_USER_REPLY_MASK \<noteq> 0 \<and> m_flags a AND VHOST_USER_VERSION_MASK = VHOST_USER_VERSION \<and>
    m_request a = m_request m2 \<and>
    (\<not> reply \<longrightarrow> m_size a = 8 \<and> payload_u64 a = 0 \<and> m_fds a = [])"
proof -
  let ?m3 = "if reply then m2 else vmsg_set_reply_u64 m2 0"
  let ?a = "?m3\<lparr>m_flags := reply_flags (m_flags ?m3)\<rparr>"
  have "vu_send_reply dev2 (dv_sock dev2) ?m3 = Inr (True, dev')"
    using assms by (auto simp: vu_dispatch_def tbind_eq_Inr_iff split: if_splits)
  from send_reply_trace [OF this]
  have "dv_trace dev' = dv_trace dev2 @ EvSend (dv_sock dev2) ?a #
      (if m_size ?a = 0 then [] else [EvWrite (dv_sock dev2) (m_size ?a)])" by simp
  moreover have "bit (reply_flags f) 2" for f
    by (simp add: reply_flags_def bit_simps VHOST_USER_VERSION_def VHOST_USER_VERSION_MASK_def
          VHOST_USER_REPLY_MASK_def)
  moreover have "reply_flags f AND VHOST_USER_VERSION_MASK = VHOST_USER_VERSION" for f
  proof -
    have "((x AND NOT y) OR v OR r) AND y = (v AND y) OR (r AND y)" for x y v r :: u32
      by (rule bit_word_eqI) (auto simp: bit_simps)
    then show ?thesis
      by (simp add: reply_flags_def or.assoc) (simp add: VHOST_USER_VERSION_def
        VHOST_USER_VERSION_MASK_def VHOST_USER_REPLY_MASK_def)
  qed
  moreover have "f AND VHOST_USER_REPLY_MASK \<noteq> 0" if "bit f 2" for f :: u32
  proof
    assume "f AND VHOST_USER_REPLY_MASK = 0"
    then have "bit (f AND VHOST_USER_REPLY_MASK) 2 = False" by simp
    with that show False by (simp add: bit_simps VHOST_USER_REPLY_MASK_def)
  qed
  ultimately show ?thesis
    by (intro exI [of _ ?a]) (auto simp: vmsg_set_reply_u64_def payload_u64_def mem_simps)
qed


definition demo_ask :: VuDev where
  "demo_ask = demo_initial\<lparr>dv_recv :=
     (\<lambda>_. RecvHeader 18 9 8 [] 8 (bytes_at 0 [1,0,0,0,1] (\<lambda>_. 0)))\<rparr>"

abbreviation demo_ask_read where
  "demo_ask_read \<equiv> vu_message_read_default demo_ask (dv_sock demo_ask) zero_msg"
abbreviation demo_ask_done where
  "demo_ask_done \<equiv> vu_process_message no_callbacks (fst (snd (projr demo_ask_read))) (snd (snd (projr demo_ask_read)))"

lemma result_triple: "\<not> isl r \<Longrightarrow> fst (projr r) = b \<Longrightarrow> r = Inr (b, fst (snd (projr r)), snd (snd (projr r)))"
  by (cases r) auto

theorem need_reply_is_answered_witness:
  "\<exists>a. EvSend 5 a \<in> set (dv_trace (snd (projr (vu_dispatch no_callbacks demo_ask)))) \<and> payload_u64 a = 0"
proof -
  have rd: "demo_ask_read = Inr (True, fst (snd (projr demo_ask_read)), snd (snd (projr demo_ask_read)))"
    by (rule result_triple) code_simp+
  have fl: "m_flags (snd (snd (projr demo_ask_read))) AND VHOST_USER_NEED_REPLY_MASK \<noteq> 0" by code_simp
  have pm: "demo_ask_done = Inr (False, fst (snd (projr demo_ask_done)), snd (snd (projr demo_ask_done)))"
    by (rule result_triple) code_simp+
  have di: "vu_dispatch no_callbacks demo_ask = Inr (True, snd (projr (vu_dispatch no_callbacks demo_ask)))"
    by (rule result_pair) code_simp+
  have "dv_sock (fst (snd (projr demo_ask_done))) = 5" by code_simp
  with need_reply_is_answered [OF rd fl pm di] show ?thesis by auto
qed


section \<open>The base index of a ring\<close>

lemma load32_store32_plus4: "load32 (store32 m a v) a = v" "load32 (store32 m (a + 4) v) a = load32 m a"
  by (simp add: mem_simps)
     (rule load32_store32_apart, auto simp: span_4 add.assoc)

text \<open>
  The base index of a ring is kept: stopping a ring after setting its base reports the base that
  was set, to 16 bits, with the index of the ring; the ring is stopped and its call and
  kick descriptors are closed and forgotten.
\<close>

lemma vring_base_is_kept:
  assumes "unat (state_index m) < length (dv_vq dev)" and "state_index m2 = state_index m"
    and "if_queue_set_started iface = None"
  shows "\<exists>dev1 dev2 m3. vu_set_vring_base_exec dev m = Inr (False, dev1, m) \<and>
    vu_get_vring_base_exec iface dev1 m2 = Inr (True, dev2, m3) \<and>
    state_index m3 = state_index m \<and> state_num m3 = ucast (ucast (state_num m) :: u16) \<and> m_size m3 = 8 \<and>
    (let q = dv_vq dev ! unat (state_index m); q2 = dv_vq dev2 ! unat (state_index m) in
       \<not> vu_queue_started q2 \<and> vq_call_fd q2 = -1 \<and> vq_kick_fd q2 = -1 \<and>
       dv_trace dev2 = dv_trace dev @ (if vq_call_fd q \<noteq> -1 then [EvClose (vq_call_fd q)] else []) @
         (if vq_kick_fd q \<noteq> -1 then [EvRemoveWatch (vq_kick_fd q), EvClose (vq_kick_fd q)] else []))"
  using assms
  by (simp add: vu_set_vring_base_exec_def vu_get_vring_base_exec_def get_vq_def put_vq_def Let_def
      vu_queue_set_started_def close_call_fd_def close_kick_fd_def vu_emit_def vu_queue_started_def
      state_index_def state_num_def load32_store32 load32_store32_plus4 [where a = 0, simplified])

section \<open>Tearing down\<close>

definition closed_fds :: "vu_event list \<Rightarrow> int list" where
  "closed_fds t = concat (map (\<lambda>e. case e of EvClose fd \<Rightarrow> [fd] | _ \<Rightarrow> []) t)"

definition open_fd :: "int \<Rightarrow> int list" where
  "open_fd fd = (if fd = -1 then [] else [fd])"

definition queue_fds :: "VuVirtq \<Rightarrow> int list" where
  "queue_fds q = open_fd (vq_call_fd q) @ open_fd (vq_kick_fd q) @ open_fd (vq_err_fd q)"

lemma closed_fds_simps [simp]:
  "closed_fds [] = []" "closed_fds (EvClose fd # t) = fd # closed_fds t"
  "closed_fds (a @ b) = closed_fds a @ closed_fds b"
  "closed_fds (EvMunmap p n # t) = closed_fds t" "closed_fds (EvRemoveWatch k # t) = closed_fds t"
  by (simp_all add: closed_fds_def)


definition same_fds :: "VuDev \<Rightarrow> VuDev \<Rightarrow> bool" where
  "same_fds d d' \<longleftrightarrow>
     dv_sock d' = dv_sock d \<and> dv_inflight_info d' = dv_inflight_info d \<and>
     dv_log_table d' = dv_log_table d \<and> dv_log_call_fd d' = dv_log_call_fd d \<and>
     dv_backend_fd d' = dv_backend_fd d \<and> length (dv_vq d') = length (dv_vq d)"

lemma deinit_queue_spec:
  assumes "i < length (dv_vq d)"
  shows "same_fds d (deinit_queue d i) \<and>
    closed_fds (dv_trace (deinit_queue d i)) = closed_fds (dv_trace d) @ queue_fds (dv_vq d ! i) \<and>
    (\<forall>j. j \<noteq> i \<longrightarrow> dv_vq (deinit_queue d i) ! j = dv_vq d ! j)"
  using assms
  by (simp add: deinit_queue_def close_call_fd_def close_kick_fd_def close_err_fd_def put_vq_def Let_def
      vu_emit_def same_fds_def queue_fds_def open_fd_def)

lemma deinit_queues_spec:
  "k \<le> length (dv_vq d) \<Longrightarrow>
     let d' = fold (\<lambda>i d. deinit_queue d i) [0..<k] d
     in same_fds d d' \<and> closed_fds (dv_trace d') = closed_fds (dv_trace d) @ concat (map queue_fds (take k (dv_vq d))) \<and>
        (\<forall>j \<ge> k. dv_vq d' ! j = dv_vq d ! j)"
proof (induction k)
  case (Suc k)
  let ?d = "fold (\<lambda>i d. deinit_queue d i) [0..<k] d"
  from Suc have ih: "same_fds d ?d" "closed_fds (dv_trace ?d) = closed_fds (dv_trace d) @ concat (map queue_fds (take k (dv_vq d)))"
    "\<forall>j \<ge> k. dv_vq ?d ! j = dv_vq d ! j" by (simp_all add: Let_def)
  with Suc.prems have "k < length (dv_vq ?d)" by (simp add: same_fds_def)
  from deinit_queue_spec [OF this] ih Suc.prems show ?case
    by (auto simp: Let_def same_fds_def take_Suc_conv_app_nth)
qed (simp add: same_fds_def)

lemma deinit_unmaps:
  fixes rs :: "VuDevRegion list"
  defines "unmap \<equiv> fold (\<lambda>r d. if r_mmap_addr r \<noteq> - 1
      then vu_emit d (EvMunmap (r_mmap_addr r) (r_size r + r_mmap_offset r)) else d)"
  shows "same_fds d (unmap rs d) \<and> dv_vq (unmap rs d) = dv_vq d \<and>
    closed_fds (dv_trace (unmap rs d)) = closed_fds (dv_trace d)"
  unfolding unmap_def
  by (induction rs arbitrary: d) (simp_all add: same_fds_def vu_emit_def)

text \<open>What \<open>vu_deinit\<close> closes, in this order and nothing else.\<close>

definition deinit_closes :: "VuDev \<Rightarrow> int list" where
  "deinit_closes dev =
     concat (map queue_fds (dv_vq dev)) @
     (if ifi_fd (dv_inflight_info dev) > 0 then [ifi_fd (dv_inflight_info dev)] else []) @
     open_fd (dv_log_call_fd dev) @ open_fd (dv_backend_fd dev) @ open_fd (dv_sock dev)"

lemma deinit_closed_fds:
  assumes "length (dv_vq dev) = unat (dv_max_queues dev)"
  shows "closed_fds (dv_trace (vu_deinit dev)) = closed_fds (dv_trace dev) @ deinit_closes dev"
proof -
  let ?rs = "take (unat (dv_nregions dev)) (dv_regions dev)"
  define d1 where "d1 = fold (\<lambda>r d. if r_mmap_addr r \<noteq> - 1
      then vu_emit d (EvMunmap (r_mmap_addr r) (r_size r + r_mmap_offset r)) else d) ?rs dev"
  define d2 where "d2 = fold (\<lambda>i d. deinit_queue d i) [0..<unat (dv_max_queues dev)] (d1\<lparr>dv_nregions := 0\<rparr>)"
  have 1: "same_fds dev d1" "dv_vq d1 = dv_vq dev" "closed_fds (dv_trace d1) = closed_fds (dv_trace dev)"
    using deinit_unmaps [of dev ?rs] by (simp_all add: d1_def)
  have 2: "same_fds (d1\<lparr>dv_nregions := 0\<rparr>) d2"
    "closed_fds (dv_trace d2) = closed_fds (dv_trace dev) @ concat (map queue_fds (dv_vq dev))"
    using deinit_queues_spec [of "unat (dv_max_queues dev)" "d1\<lparr>dv_nregions := 0\<rparr>"] 1 assms
    by (simp_all add: d2_def Let_def)
  have fds: "dv_inflight_info d2 = dv_inflight_info dev" "dv_log_call_fd d2 = dv_log_call_fd dev"
    "dv_backend_fd d2 = dv_backend_fd dev" "dv_sock d2 = dv_sock dev"
    using 1(1) 2(1) by (simp_all add: same_fds_def)
  let ?info = "dv_inflight_info d2"
  define d3 where "d3 = (if ifi_addr ?info \<noteq> 0
    then (vu_emit d2 (EvMunmap (ifi_addr ?info) (ifi_size ?info)))\<lparr>dv_inflight_info := ?info\<lparr>ifi_addr := 0\<rparr>\<rparr>
    else d2)"
  define d4 where "d4 = (if ifi_fd ?info > 0
    then (vu_emit d3 (EvClose (ifi_fd ?info)))\<lparr>dv_inflight_info := (dv_inflight_info d3)\<lparr>ifi_fd := -1\<rparr>\<rparr>
    else d3)"
  have 3: "closed_fds (dv_trace d3) = closed_fds (dv_trace d2)" "dv_log_call_fd d3 = dv_log_call_fd d2"
    "dv_backend_fd d3 = dv_backend_fd d2" "dv_sock d3 = dv_sock d2"
    by (simp_all add: d3_def vu_emit_def)
  have 4: "closed_fds (dv_trace d4) = closed_fds (dv_trace d3) @ (if ifi_fd ?info > 0 then [ifi_fd ?info] else [])"
    "dv_log_call_fd d4 = dv_log_call_fd d3" "dv_backend_fd d4 = dv_backend_fd d3" "dv_sock d4 = dv_sock d3"
    by (simp_all add: d4_def vu_emit_def)
  have 5: "closed_fds (dv_trace (vu_close_log d4)) = closed_fds (dv_trace d4) @ open_fd (dv_log_call_fd d4)"
    "dv_backend_fd (vu_close_log d4) = dv_backend_fd d4" "dv_sock (vu_close_log d4) = dv_sock d4"
    by (simp_all add: vu_close_log_def vu_emit_def Let_def open_fd_def)
  have "closed_fds (dv_trace (vu_deinit dev)) =
      closed_fds (dv_trace (vu_close_log d4)) @ open_fd (dv_backend_fd d4) @ open_fd (dv_sock d4)"
    unfolding vu_deinit_def d1_def [symmetric] d2_def [symmetric] Let_def d3_def [symmetric] d4_def [symmetric]
    by (simp add: 5(2,3) vu_emit_def open_fd_def)
  with 2(2) 3 4 5 fds show ?thesis by (simp add: deinit_closes_def)
qed

text \<open>
  The descriptors a device holds: the call, kick and error descriptors of its queues, the in-flight region's (0, the
  value after \<open>vu_init\<close>, is none), the log's, the back-end channel's, the socket, and the userfault descriptor
  (0 and -1 are none).
\<close>

definition ufd_held :: "VuDev \<Rightarrow> int multiset" where
  "ufd_held dev = (if dv_postcopy_ufd dev > 0 then {#dv_postcopy_ufd dev#} else {#})"

definition held_fds :: "VuDev \<Rightarrow> int multiset" where
  "held_fds dev =
     (\<Sum>q \<in># mset (dv_vq dev). mset (open_fd (vq_call_fd q)) + mset (open_fd (vq_kick_fd q)) + mset (open_fd (vq_err_fd q))) +
     (if ifi_fd (dv_inflight_info dev) > 0 then {#ifi_fd (dv_inflight_info dev)#} else {#}) +
     mset (open_fd (dv_log_call_fd dev)) + mset (open_fd (dv_backend_fd dev)) + mset (open_fd (dv_sock dev)) +
     ufd_held dev"

lemma held_fds_closes: "held_fds dev = mset (deinit_closes dev) + ufd_held dev"
proof -
  have "mset (concat (map queue_fds qs)) =
      (\<Sum>q \<in># mset qs. mset (open_fd (vq_call_fd q)) + mset (open_fd (vq_kick_fd q)) + mset (open_fd (vq_err_fd q)))" for qs
    by (induction qs) (simp_all add: queue_fds_def)
  then show ?thesis by (simp add: held_fds_def deinit_closes_def)
qed

text \<open>
  C35: \<^bold>\<open>Tearing a device down closes each open descriptor once, but for one it leaks.\<close> Of all the descriptors a device
  holds (with as many queues as it says), \<open>vu_deinit\<close> closes each exactly once and closes nothing else, in the order queues
  (call, kick, error), in-flight region, log, back-end channel, socket; the one exception is the userfault
  descriptor of a device in postcopy mode, which it never closes: exactly that one is left over.
\<close>

theorem deinit_leaks_the_userfault_descriptor:
  assumes "length (dv_vq dev) = unat (dv_max_queues dev)"
  shows "\<exists>closes. closed_fds (dv_trace (vu_deinit dev)) = closed_fds (dv_trace dev) @ closes \<and>
    closes = deinit_closes dev \<and>
    held_fds dev = mset closes + (if dv_postcopy_ufd dev > 0 then {#dv_postcopy_ufd dev#} else {#})"
  using deinit_closed_fds [OF assms] held_fds_closes [of dev] by (simp add: ufd_held_def)

definition demo_open :: VuDev where
  "demo_open = demo_initial\<lparr>dv_vq := [fresh_vq\<lparr>vq_call_fd := 9, vq_kick_fd := 10\<rparr>, fresh_vq\<lparr>vq_err_fd := 11\<rparr>],
     dv_log_call_fd := 12, dv_postcopy_ufd := 13\<rparr>"

theorem deinit_leaks_the_userfault_descriptor_witness:
  "closed_fds (dv_trace (vu_deinit demo_open)) = [9, 10, 11, 12, 5] \<and>
   held_fds demo_open = {#9, 10, 11, 12, 5, 13#}"
proof -
  have l: "length (dv_vq demo_open) = unat (dv_max_queues demo_open)" by code_simp
  have c: "closed_fds (dv_trace demo_open) = []" "deinit_closes demo_open = [9, 10, 11, 12, 5]" by code_simp+
  have "dv_postcopy_ufd demo_open = 13" by code_simp
  with deinit_leaks_the_userfault_descriptor [OF l] c show ?thesis by simp
qed

end
