(* ===== verification/VuInflight.thy ===== *)
theory VuInflight
  imports VuProtocol
begin

text \<open>
  The records of elements in flight that survive the back end: the size of a queue's record, and the
  list of elements to submit again after a restart.
\<close>

section \<open>The size of a record\<close>

text \<open>
  The in-flight record of a queue is large enough. The size of a queue's record counts
  2 bytes for a header of 16, but rounding up to 64 always makes room for the header and all the
  descriptor states, with less than 64 bytes to spare.
\<close>

lemma inflight_record_fits:
  "16 + 16 * unat n \<le> unat (vu_inflight_queue_size n) \<and>
   unat (vu_inflight_queue_size n) < 16 + 16 * unat n + 64 \<and> 64 dvd unat (vu_inflight_queue_size n)"
proof -
  have n: "unat n < 65536" using unat_bounds(2) [of n] by simp
  have u: "unat (ucast n :: u64) = unat n" using n by (simp add: unsigned_ucast_eq take_bit_nat_eq_self)
  have "unat (vu_inflight_queue_size n) = (16 * unat n + 2 + 63) div 64 * 64"
    using n by (simp add: vu_inflight_queue_size_def align_up_def INFLIGHT_ALIGNMENT_def unat_word_ariths
        unat_div u take_bit_nat_eq_self)
  moreover obtain q r where x: "unat n = 4 * q + r" "r < 4"
    by (metis mult_div_mod_eq mod_less_divisor zero_less_numeral)
  then have "16 * unat n + 2 + 63 = (16 * r + 1) + (q + 1) * 64" by simp
  moreover have "(16 * r + 1 + (q + 1) * 64) div 64 = q + 1 + (16 * r + 1) div 64" by (rule div_mult_self1) simp
  ultimately have "unat (vu_inflight_queue_size n) = (q + 1) * 64" using x(2) by simp
  with x show ?thesis by simp
qed

section \<open>Sorting with the library's comparison\<close>

lemma mset_qs_insert: "mset (qs_insert cmp x ys) = add_mset x (mset ys)"
  by (induction ys) auto

lemma mset_qsort: "mset (qsort cmp xs) = mset xs"
  by (induction xs) (simp_all add: mset_qs_insert)

lemma set_qsort: "set (qsort cmp xs) = set xs"
  by (metis mset_qsort set_mset_mset)

text \<open>Counters that lie in one window of 2048 are compared by their order.\<close>

definition window :: "VuVirtqInflightDesc set \<Rightarrow> bool" where
  "window X \<longleftrightarrow> (\<forall>x \<in> X. \<forall>y \<in> X. unat (ifd_counter y) < unat (ifd_counter x) + 2048)"

lemma compare_in_window:
  assumes "unat (ifd_counter y) < unat (ifd_counter x) + 2048"
  shows "inflight_desc_compare x y > 0 \<longleftrightarrow> ifd_counter x < ifd_counter y"
proof -
  have "unat (ifd_counter y - ifd_counter x) < 2048" if "ifd_counter x < ifd_counter y"
    using that assms by (subst unat_sub) (auto simp: word_le_nat_alt word_less_nat_alt)
  then show ?thesis by (auto simp: inflight_desc_compare_def word_less_nat_alt)
qed

abbreviation falling :: "VuVirtqInflightDesc list \<Rightarrow> bool" where
  "falling \<equiv> sorted_wrt (\<lambda>x y. ifd_counter y \<le> ifd_counter x)"

lemma falling_insert:
  assumes "falling ys" and "window (insert x (set ys))"
  shows "falling (qs_insert inflight_desc_compare x ys)"
  using assms
proof (induction ys)
  case (Cons y ys)
  have c: "inflight_desc_compare x y > 0 \<longleftrightarrow> ifd_counter x < ifd_counter y"
    using Cons.prems(2) by (intro compare_in_window) (simp add: window_def)
  have s: "set (qs_insert inflight_desc_compare x ys) = insert x (set ys)"
    by (metis mset_qs_insert set_mset_add_mset_insert set_mset_mset)
  have "falling (qs_insert inflight_desc_compare x ys)"
    using Cons by (simp add: window_def)
  with Cons.prems c s show ?case by (auto intro: order.trans)
qed simp

lemma falling_qsort: "window (set xs) \<Longrightarrow> falling (qsort inflight_desc_compare xs)"
  by (induction xs) (auto simp: window_def set_qsort intro: falling_insert)

section \<open>The list of elements to submit again\<close>

definition in_flight :: "mem \<Rightarrow> u64 \<Rightarrow> VuVirtqInflightDesc list" where
  "in_flight m p = map (\<lambda>i. \<lparr>ifd_index = of_nat i, ifd_counter = inflight_counter m p i\<rparr>)
     (filter (\<lambda>i. inflight_flag m p i \<noteq> 0) [0..<unat (load16 m (p + 10))])"

lemma length_in_flight: "length (in_flight m p) < 65536"
proof -
  have "length (in_flight m p) \<le> length [0..<unat (load16 m (p + 10))]"
    by (simp only: in_flight_def length_map length_filter_le)
  with unat_bounds(2) [of "load16 m (p + 10)"] show ?thesis by simp
qed

lemma falling_last:
  assumes "falling xs" and "x \<in> set xs"
  shows "ifd_counter (xs ! (length xs - 1)) \<le> ifd_counter x"
proof -
  from assms(2) obtain i where i: "i < length xs" "x = xs ! i" by (auto simp: in_set_conv_nth)
  show ?thesis
  proof (cases "i = length xs - 1")
    case False
    with i assms(1) show ?thesis by (auto simp: sorted_wrt_iff_nth_less)
  qed (use i in simp)
qed

lemma build_resubmit_exact:
  "build_resubmit m p (unat (load16 m (p + 10))) (length (in_flight m p)) = Inr es \<longleftrightarrow> es = in_flight m p"
  by (auto simp: build_resubmit_def in_flight_def Let_def)

lemma list_inflights_spec:
  assumes "list_inflights dev vq = Inr (Some vq', dev')"
    and "unat (vq_inuse vq) = length (in_flight (dv_mem dev) (vq_inflight vq))" and "vq_inuse vq \<noteq> 0"
  shows "vq_resubmit_list vq' = Some (qsort inflight_desc_compare (in_flight (dv_mem dev) (vq_inflight vq))) \<and>
    vq_resubmit_num vq' = of_nat (length (in_flight (dv_mem dev) (vq_inflight vq))) \<and> vq_inuse vq' = vq_inuse vq \<and>
    vq_counter vq' = ifd_counter (the (vq_resubmit_list vq') ! 0) + 1 \<and> dv_mem dev' = dv_mem dev"
proof -
  let ?p = "vq_inflight vq" and ?m = "dv_mem dev"
  let ?fl = "in_flight ?m ?p" and ?n = "unat (load16 (dv_mem dev) (vq_inflight vq + 10))"
  have n: "length (filter (\<lambda>i. inflight_flag ?m ?p i \<noteq> 0) [0..<?n]) = length ?fl" by (simp add: in_flight_def)
  have q: "(if length ?fl > 1 then qsort inflight_desc_compare (take (length ?fl) ?fl) @ drop (length ?fl) ?fl else ?fl) =
      qsort inflight_desc_compare ?fl"
    by (cases ?fl; cases "tl ?fl") auto
  show ?thesis
    using assms(1,3) q
    by (auto simp: list_inflights_def Let_def vu_call_emit tbind_eq_Inr_iff assms(2) build_resubmit_exact n
        vu_emit_def simp del: qsort.simps split: if_splits)
qed

text \<open>
  C33: \<^bold>\<open>After a restart the oldest element is submitted first\<close>. When the records of a queue are
  checked and hold elements in flight, marked by 0 and 1 as the library writes them and with counters in one
  window of 2048, the list to submit again has exactly these elements with falling counters: the pops, which take
  it from its end, meet the oldest first; and the counter of the queue follows the newest.
\<close>

theorem resubmission_is_oldest_first:
  assumes "vu_check_queue_inflights dev vq = Inr (True, dev', vq')"
    and "vq_resubmit_list vq = None" and "vq_inuse vq = 0" and "vq_resubmit_list vq' = Some es"
    and "\<forall>i < unat (load16 (dv_mem dev') (vq_inflight vq + 10)). inflight_flag (dv_mem dev') (vq_inflight vq) i \<in> {0, 1}"
    and "window (set (in_flight (dv_mem dev') (vq_inflight vq)))"
  shows "mset es = mset (in_flight (dv_mem dev') (vq_inflight vq)) \<and> falling es \<and>
    unat (vq_resubmit_num vq') = length es \<and> unat (vq_inuse vq') = length es \<and>
    vq_counter vq' = ifd_counter (es ! 0) + 1 \<and> (\<forall>e \<in> set es. ifd_counter (es ! (length es - 1)) \<le> ifd_counter e)"
proof -
  let ?p = "vq_inflight vq" and ?m = "dv_mem dev'"
  let ?n = "unat (load16 (dv_mem dev') (vq_inflight vq + 10))" and ?fl = "in_flight ?m ?p"
  obtain dev1 vq1 where c: "count_inflights dev vq = (dev1, vq1)" by fastforce
  then obtain vq2 d2 where l: "list_inflights dev1 vq1 = Inr (Some vq2, d2)" and r: "vq' = vq2" "dv_mem dev' = dv_mem d2"
    using assms(1,2,4)
    by (auto simp: vu_check_queue_inflights_def Let_def tbind_eq_Inr_iff vu_call_emit vu_emit_def
        split: if_splits option.splits)
  have vq1: "vq_inflight vq1 = ?p" "vq_resubmit_list vq1 = None"
    using c by (auto simp: count_inflights_def Let_def)
  have ne: "vq_inuse vq1 \<noteq> 0"
    using l r vq1(2) assms(4) by (auto simp: list_inflights_def)
  have mem: "dv_mem d2 = dv_mem dev1"
    using l by (auto simp: list_inflights_def Let_def vu_call_emit vu_emit_def tbind_eq_Inr_iff split: if_splits)
  have "filter (\<lambda>i. inflight_flag ?m ?p i = 1) [0..<?n] = filter (\<lambda>i. inflight_flag ?m ?p i \<noteq> 0) [0..<?n]"
    by (rule filter_cong) (use assms(5) in auto)
  then have "vq_inuse vq1 = of_nat (length ?fl)"
    using c assms(3) r(2) mem by (auto simp: count_inflights_def Let_def in_flight_def)
  then have n: "unat (vq_inuse vq1) = length ?fl"
    using length_in_flight [of ?m ?p] by (simp add: unat_of_nat take_bit_nat_eq_self)
  have "unat (of_nat (length ?fl) :: u16) = length ?fl"
    using length_in_flight [of ?m ?p] by (simp add: unat_of_nat take_bit_nat_eq_self)
  moreover have "falling (qsort inflight_desc_compare ?fl)" using assms(6) by (rule falling_qsort)
  moreover have "length (qsort inflight_desc_compare ?fl) = length ?fl" by (metis mset_qsort size_mset)
  moreover note list_inflights_spec [OF l _ ne] n vq1(1) mem r assms(4) falling_last [of es]
  ultimately show ?thesis by (auto simp: mset_qsort)
qed

text \<open>Descriptors 0 and 2 of a queue of four are in flight, number 2 was taken first.\<close>

definition demo_inflight :: VuDev where
  "demo_inflight = demo_dev\<lparr>dv_protocol_features := 4096, dv_sys := (\<lambda>i. if i = 0 then 1 else 0),
     dv_mem := (\<lambda>_. 0)(0x6008 := 1, 0x600A := 4, 0x6010 := 1, 0x6018 := 9, 0x6030 := 1, 0x6038 := 8)\<rparr>"

definition demo_inflight_vq :: VuVirtq where
  "demo_inflight_vq = fresh_vq\<lparr>vq_inflight := 0x6000, vq_vring := (vq_vring fresh_vq)\<lparr>ring_used := 0x7000\<rparr>\<rparr>"

abbreviation demo_checked where
  "demo_checked \<equiv> vu_check_queue_inflights demo_inflight demo_inflight_vq"

theorem resubmission_is_oldest_first_witness:
  "map ifd_index (the (vq_resubmit_list (snd (snd (projr demo_checked))))) = [0, 2] \<and>
   vq_counter (snd (snd (projr demo_checked))) = ifd_counter (the (vq_resubmit_list (snd (snd (projr demo_checked)))) ! 0) + 1"
proof -
  let ?d = "fst (snd (projr demo_checked))" and ?q = "snd (snd (projr demo_checked))"
  have r: "demo_checked = Inr (True, ?d, ?q)" by (rule result_triple) code_simp+
  have a: "vq_resubmit_list demo_inflight_vq = None" "vq_inuse demo_inflight_vq = 0" by code_simp+
  have l: "vq_resubmit_list ?q = Some [\<lparr>ifd_index = 0, ifd_counter = 9\<rparr>, \<lparr>ifd_index = 2, ifd_counter = 8\<rparr>]"
    by code_simp
  have f: "\<forall>i < unat (load16 (dv_mem ?d) (vq_inflight demo_inflight_vq + 10)).
      inflight_flag (dv_mem ?d) (vq_inflight demo_inflight_vq) i \<in> {0, 1}"
  proof -
    have "unat (load16 (dv_mem ?d) (vq_inflight demo_inflight_vq + 10)) = 4" by code_simp
    moreover have "list_all (\<lambda>i. inflight_flag (dv_mem ?d) (vq_inflight demo_inflight_vq) i \<in> {0, 1}) [0..<4]"
      by code_simp
    ultimately show ?thesis by (simp add: list_all_iff)
  qed
  have "in_flight (dv_mem ?d) (vq_inflight demo_inflight_vq) =
      [\<lparr>ifd_index = 0, ifd_counter = 9\<rparr>, \<lparr>ifd_index = 2, ifd_counter = 8\<rparr>]" by code_simp
  then have w: "window (set (in_flight (dv_mem ?d) (vq_inflight demo_inflight_vq)))"
    by (simp add: window_def)
  from resubmission_is_oldest_first [OF r a l f w] l show ?thesis by simp
qed

end
