(* ===== verification/VuRequests.thy ===== *)
theory VuRequests
  imports VuMsgFacts
begin

text \<open>
  The requests of the protocol by name (\<open>enum VhostUserRequest\<close> of \<^verbatim>\<open>libvhost-user.h\<close>): the dispatcher as
  the switch it is in the source, and what becomes of requests it does not know.
\<close>

section \<open>The requests\<close>

datatype VhostUserRequest =
    VHOST_USER_NONE
  | VHOST_USER_GET_FEATURES
  | VHOST_USER_SET_FEATURES
  | VHOST_USER_SET_OWNER
  | VHOST_USER_RESET_OWNER
  | VHOST_USER_SET_MEM_TABLE
  | VHOST_USER_SET_LOG_BASE
  | VHOST_USER_SET_LOG_FD
  | VHOST_USER_SET_VRING_NUM
  | VHOST_USER_SET_VRING_ADDR
  | VHOST_USER_SET_VRING_BASE
  | VHOST_USER_GET_VRING_BASE
  | VHOST_USER_SET_VRING_KICK
  | VHOST_USER_SET_VRING_CALL
  | VHOST_USER_SET_VRING_ERR
  | VHOST_USER_GET_PROTOCOL_FEATURES
  | VHOST_USER_SET_PROTOCOL_FEATURES
  | VHOST_USER_GET_QUEUE_NUM
  | VHOST_USER_SET_VRING_ENABLE
  | VHOST_USER_SEND_RARP
  | VHOST_USER_NET_SET_MTU
  | VHOST_USER_SET_BACKEND_REQ_FD
  | VHOST_USER_IOTLB_MSG
  | VHOST_USER_SET_VRING_ENDIAN
  | VHOST_USER_GET_CONFIG
  | VHOST_USER_SET_CONFIG
  | VHOST_USER_CREATE_CRYPTO_SESSION
  | VHOST_USER_CLOSE_CRYPTO_SESSION
  | VHOST_USER_POSTCOPY_ADVISE
  | VHOST_USER_POSTCOPY_LISTEN
  | VHOST_USER_POSTCOPY_END
  | VHOST_USER_GET_INFLIGHT_FD
  | VHOST_USER_SET_INFLIGHT_FD
  | VHOST_USER_GPU_SET_SOCKET
  | VHOST_USER_VRING_KICK
  | VHOST_USER_GET_MAX_MEM_SLOTS
  | VHOST_USER_ADD_MEM_REG
  | VHOST_USER_REM_MEM_REG
  | VHOST_USER_GET_SHARED_OBJECT

fun request_code :: "VhostUserRequest \<Rightarrow> u32" where
  "request_code VHOST_USER_NONE = 0"
| "request_code VHOST_USER_GET_FEATURES = 1"
| "request_code VHOST_USER_SET_FEATURES = 2"
| "request_code VHOST_USER_SET_OWNER = 3"
| "request_code VHOST_USER_RESET_OWNER = 4"
| "request_code VHOST_USER_SET_MEM_TABLE = 5"
| "request_code VHOST_USER_SET_LOG_BASE = 6"
| "request_code VHOST_USER_SET_LOG_FD = 7"
| "request_code VHOST_USER_SET_VRING_NUM = 8"
| "request_code VHOST_USER_SET_VRING_ADDR = 9"
| "request_code VHOST_USER_SET_VRING_BASE = 10"
| "request_code VHOST_USER_GET_VRING_BASE = 11"
| "request_code VHOST_USER_SET_VRING_KICK = 12"
| "request_code VHOST_USER_SET_VRING_CALL = 13"
| "request_code VHOST_USER_SET_VRING_ERR = 14"
| "request_code VHOST_USER_GET_PROTOCOL_FEATURES = 15"
| "request_code VHOST_USER_SET_PROTOCOL_FEATURES = 16"
| "request_code VHOST_USER_GET_QUEUE_NUM = 17"
| "request_code VHOST_USER_SET_VRING_ENABLE = 18"
| "request_code VHOST_USER_SEND_RARP = 19"
| "request_code VHOST_USER_NET_SET_MTU = 20"
| "request_code VHOST_USER_SET_BACKEND_REQ_FD = 21"
| "request_code VHOST_USER_IOTLB_MSG = 22"
| "request_code VHOST_USER_SET_VRING_ENDIAN = 23"
| "request_code VHOST_USER_GET_CONFIG = 24"
| "request_code VHOST_USER_SET_CONFIG = 25"
| "request_code VHOST_USER_CREATE_CRYPTO_SESSION = 26"
| "request_code VHOST_USER_CLOSE_CRYPTO_SESSION = 27"
| "request_code VHOST_USER_POSTCOPY_ADVISE = 28"
| "request_code VHOST_USER_POSTCOPY_LISTEN = 29"
| "request_code VHOST_USER_POSTCOPY_END = 30"
| "request_code VHOST_USER_GET_INFLIGHT_FD = 31"
| "request_code VHOST_USER_SET_INFLIGHT_FD = 32"
| "request_code VHOST_USER_GPU_SET_SOCKET = 33"
| "request_code VHOST_USER_VRING_KICK = 35"
| "request_code VHOST_USER_GET_MAX_MEM_SLOTS = 36"
| "request_code VHOST_USER_ADD_MEM_REG = 37"
| "request_code VHOST_USER_REM_MEM_REG = 38"
| "request_code VHOST_USER_GET_SHARED_OBJECT = 41"

text \<open>All of them, in the order of the header, and the one with a given number.\<close>

definition all_requests :: "VhostUserRequest list" where
  "all_requests =
     [VHOST_USER_NONE,
      VHOST_USER_GET_FEATURES,
      VHOST_USER_SET_FEATURES,
      VHOST_USER_SET_OWNER,
      VHOST_USER_RESET_OWNER,
      VHOST_USER_SET_MEM_TABLE,
      VHOST_USER_SET_LOG_BASE,
      VHOST_USER_SET_LOG_FD,
      VHOST_USER_SET_VRING_NUM,
      VHOST_USER_SET_VRING_ADDR,
      VHOST_USER_SET_VRING_BASE,
      VHOST_USER_GET_VRING_BASE,
      VHOST_USER_SET_VRING_KICK,
      VHOST_USER_SET_VRING_CALL,
      VHOST_USER_SET_VRING_ERR,
      VHOST_USER_GET_PROTOCOL_FEATURES,
      VHOST_USER_SET_PROTOCOL_FEATURES,
      VHOST_USER_GET_QUEUE_NUM,
      VHOST_USER_SET_VRING_ENABLE,
      VHOST_USER_SEND_RARP,
      VHOST_USER_NET_SET_MTU,
      VHOST_USER_SET_BACKEND_REQ_FD,
      VHOST_USER_IOTLB_MSG,
      VHOST_USER_SET_VRING_ENDIAN,
      VHOST_USER_GET_CONFIG,
      VHOST_USER_SET_CONFIG,
      VHOST_USER_CREATE_CRYPTO_SESSION,
      VHOST_USER_CLOSE_CRYPTO_SESSION,
      VHOST_USER_POSTCOPY_ADVISE,
      VHOST_USER_POSTCOPY_LISTEN,
      VHOST_USER_POSTCOPY_END,
      VHOST_USER_GET_INFLIGHT_FD,
      VHOST_USER_SET_INFLIGHT_FD,
      VHOST_USER_GPU_SET_SOCKET,
      VHOST_USER_VRING_KICK,
      VHOST_USER_GET_MAX_MEM_SLOTS,
      VHOST_USER_ADD_MEM_REG,
      VHOST_USER_REM_MEM_REG,
      VHOST_USER_GET_SHARED_OBJECT]"

definition request_of :: "u32 \<Rightarrow> VhostUserRequest option" where
  "request_of n = find (\<lambda>r. request_code r = n) all_requests"

definition VHOST_USER_MAX :: u32 where "VHOST_USER_MAX = 42"

text \<open>The requests without a case in the switch.\<close>

definition unhandled :: "VhostUserRequest list" where
  "unhandled = [VHOST_USER_SEND_RARP,
     VHOST_USER_NET_SET_MTU,
     VHOST_USER_IOTLB_MSG,
     VHOST_USER_SET_VRING_ENDIAN,
     VHOST_USER_CREATE_CRYPTO_SESSION,
     VHOST_USER_CLOSE_CRYPTO_SESSION,
     VHOST_USER_GPU_SET_SOCKET]"

section \<open>The switch\<close>

text \<open>\<open>vu_process_message\<close> from its switch on, by name.\<close>

definition vu_switch :: "VuDevIface \<Rightarrow> VuDev \<Rightarrow> VhostUserMsg \<Rightarrow> vu_reply" where
  "vu_switch iface dev m =
     (case request_of (m_request m) of
        Some VHOST_USER_GET_FEATURES \<Rightarrow> vu_get_features_exec iface dev m
      | Some VHOST_USER_SET_FEATURES \<Rightarrow> vu_set_features_exec iface dev m
      | Some VHOST_USER_GET_PROTOCOL_FEATURES \<Rightarrow> vu_get_protocol_features_exec iface dev m
      | Some VHOST_USER_SET_PROTOCOL_FEATURES \<Rightarrow> vu_set_protocol_features_exec iface dev m
      | Some VHOST_USER_SET_OWNER \<Rightarrow> vu_set_owner_exec dev m
      | Some VHOST_USER_RESET_OWNER \<Rightarrow> vu_reset_device_exec dev m
      | Some VHOST_USER_SET_MEM_TABLE \<Rightarrow> vu_set_mem_table_exec dev m
      | Some VHOST_USER_SET_LOG_BASE \<Rightarrow> vu_set_log_base_exec dev m
      | Some VHOST_USER_SET_LOG_FD \<Rightarrow> vu_set_log_fd_exec dev m
      | Some VHOST_USER_SET_VRING_NUM \<Rightarrow> vu_set_vring_num_exec dev m
      | Some VHOST_USER_SET_VRING_ADDR \<Rightarrow> vu_set_vring_addr_exec iface dev m
      | Some VHOST_USER_SET_VRING_BASE \<Rightarrow> vu_set_vring_base_exec dev m
      | Some VHOST_USER_GET_VRING_BASE \<Rightarrow> vu_get_vring_base_exec iface dev m
      | Some VHOST_USER_SET_VRING_KICK \<Rightarrow> vu_set_vring_kick_exec iface dev m
      | Some VHOST_USER_SET_VRING_CALL \<Rightarrow> vu_set_vring_call_exec dev m
      | Some VHOST_USER_SET_VRING_ERR \<Rightarrow> vu_set_vring_err_exec dev m
      | Some VHOST_USER_GET_QUEUE_NUM \<Rightarrow> vu_get_queue_num_exec dev m
      | Some VHOST_USER_SET_VRING_ENABLE \<Rightarrow> vu_set_vring_enable_exec dev m
      | Some VHOST_USER_SET_BACKEND_REQ_FD \<Rightarrow> vu_set_backend_req_fd dev m
      | Some VHOST_USER_GET_CONFIG \<Rightarrow> vu_get_config iface dev m
      | Some VHOST_USER_SET_CONFIG \<Rightarrow> vu_set_config iface dev m
      | Some VHOST_USER_NONE \<Rightarrow> Inl ExitCalled
      | Some VHOST_USER_POSTCOPY_ADVISE \<Rightarrow> vu_set_postcopy_advise dev m
      | Some VHOST_USER_POSTCOPY_LISTEN \<Rightarrow> vu_set_postcopy_listen dev m
      | Some VHOST_USER_POSTCOPY_END \<Rightarrow> vu_set_postcopy_end dev m
      | Some VHOST_USER_GET_INFLIGHT_FD \<Rightarrow> vu_get_inflight_fd dev m
      | Some VHOST_USER_SET_INFLIGHT_FD \<Rightarrow> vu_set_inflight_fd dev m
      | Some VHOST_USER_VRING_KICK \<Rightarrow> vu_handle_vring_kick iface dev m
      | Some VHOST_USER_GET_MAX_MEM_SLOTS \<Rightarrow> vu_handle_get_max_memslots dev m
      | Some VHOST_USER_ADD_MEM_REG \<Rightarrow> vu_add_mem_reg dev m
      | Some VHOST_USER_REM_MEM_REG \<Rightarrow> vu_rem_mem_reg dev m
      | Some VHOST_USER_GET_SHARED_OBJECT \<Rightarrow> vu_get_shared_object iface dev m
      | _ \<Rightarrow> Inr (False, vu_panic (vmsg_close_fds dev m) ''Unhandled request'', m))"

lemma set_all_requests: "set all_requests = UNIV"
proof -
  have "r \<in> set all_requests" for r by (cases r) (simp_all add: all_requests_def)
  then show ?thesis by blast
qed

lemma distinct_codes: "distinct (map request_code all_requests)"
  by (simp add: all_requests_def)

lemma find_distinct:
  "distinct (map f xs) \<Longrightarrow> x \<in> set xs \<Longrightarrow> find (\<lambda>y. f y = f x) xs = Some x"
  by (induction xs) auto

text \<open>Number and name determine each other.\<close>

lemma request_of_code [simp]: "request_of (request_code r) = Some r"
  by (simp add: request_of_def find_distinct distinct_codes set_all_requests)

lemma request_of_SomeD: "request_of n = Some r \<Longrightarrow> n = request_code r"
  by (auto simp: request_of_def find_Some_iff)

lemma request_of_None: "request_of n = None \<longleftrightarrow> n \<notin> range request_code"
  by (auto simp: request_of_def find_None_iff set_all_requests)

lemma codes_below_max: "request_code r < VHOST_USER_MAX"
  by (cases r) (simp_all add: VHOST_USER_MAX_def)

text \<open>The chain of comparisons in the model of the dispatcher is the switch.\<close>

lemma process_message_is_switch:
  assumes "if_process_msg iface = None"
  shows "vu_process_message iface dev m = vu_switch iface dev m"
proof (cases "request_of (m_request m)")
  case None
  then have "list_all (\<lambda>r. m_request m \<noteq> request_code r) all_requests"
    by (auto simp: request_of_None list_all_iff)
  then show ?thesis by (simp add: vu_switch_def None vu_process_message_def assms all_requests_def)
next
  case (Some r)
  note n = request_of_SomeD [OF Some]
  show ?thesis unfolding vu_switch_def Some by (cases r) (simp_all add: vu_process_message_def assms n)
qed

section \<open>Requests nobody handles\<close>

abbreviation no_case :: "VhostUserMsg \<Rightarrow> bool" where
  "no_case m \<equiv> (case request_of (m_request m) of None \<Rightarrow> True | Some r \<Rightarrow> r \<in> set unhandled)"

lemma close_fds_trace: "vmsg_close_fds dev m = dev\<lparr>dv_trace := dv_trace dev @ map EvClose (m_fds m)\<rparr>"
proof -
  have "fold (\<lambda>fd d. vu_emit d (EvClose fd)) fds d = d\<lparr>dv_trace := dv_trace d @ map EvClose fds\<rparr>" for fds d
    by (induction fds arbitrary: d) (simp_all add: vu_emit_def)
  then show ?thesis by (simp add: vmsg_close_fds_def)
qed

lemma tbind_Inr [simp]: "tbind r Inr = r"
  by (cases r) simp_all

lemma unhandled_panics:
  assumes "if_process_msg iface = None" and "no_case m"
  shows "vu_process_message iface dev m =
    Inr (False, dev\<lparr>dv_broken := True,
      dv_trace := dv_trace dev @ map EvClose (m_fds m) @ [EvPanic ''Unhandled request'']\<rparr>, m)"
proof -
  have "vu_switch iface dev m = Inr (False, vu_panic (vmsg_close_fds dev m) ''Unhandled request'', m)"
    using assms(2) by (auto simp: vu_switch_def unhandled_def split: option.splits)
  then show ?thesis
    by (simp add: process_message_is_switch [OF assms(1)] close_fds_trace vu_panic_def vu_emit_def)
qed

text \<open>The table of names has gaps: for the numbers that are not requests, and for the two crypto requests.\<close>

lemma requests_without_a_name:
  "vu_request_to_string (request_code r) = None \<longleftrightarrow>
     r \<in> {VHOST_USER_CREATE_CRYPTO_SESSION, VHOST_USER_CLOSE_CRYPTO_SESSION}"
  by (cases r) (simp_all add: vu_request_to_string_def request_names_def)

text \<open>
  C18: \<^bold>\<open>An unhandled request is acknowledged as a success.\<close> A request that has no case in the switch (a
  number that is no request, or one of the seven the library only names) has its descriptors closed and
  breaks the device. Where the panic callback returns, the dispatcher goes on: without the need-reply flag it
  reports success, and with the flag it sends the front end an acknowledgement of zero, which means that the
  request was carried out.
\<close>
theorem unhandled_request_is_acknowledged:
  assumes "vu_message_read_default dev (dv_sock dev) zero_msg = Inr (True, dev1, m)"
    and "if_process_msg iface = None" and "no_case m"
  shows "\<exists>ok dev' sent. vu_dispatch iface dev = Inr (ok, dev') \<and> dv_broken dev' \<and>
    dv_trace dev' = dv_trace dev1 @ map EvClose (m_fds m) @ EvPanic ''Unhandled request'' # sent \<and>
    (if m_flags m AND VHOST_USER_NEED_REPLY_MASK = 0 then ok \<and> sent = []
     else \<exists>a rest. sent = EvSend (dv_sock dev1) a # rest \<and> m_request a = m_request m \<and>
            m_size a = 8 \<and> payload_u64 a = 0 \<and> m_fds a = [])"
proof -
  note pm = unhandled_panics [OF assms(2,3), of dev1]
  let ?dev2 = "dev1\<lparr>dv_broken := True,
    dv_trace := dv_trace dev1 @ map EvClose (m_fds m) @ [EvPanic ''Unhandled request'']\<rparr>"
  show ?thesis
  proof (cases "m_flags m AND VHOST_USER_NEED_REPLY_MASK = 0")
    case True
    with assms(1) pm have "vu_dispatch iface dev = Inr (True, ?dev2)" by (simp add: vu_dispatch_def)
    with True show ?thesis by (intro exI [of _ True]) simp
  next
    case False
    let ?a = "(vmsg_set_reply_u64 m 0)\<lparr>m_flags := reply_flags 0\<rparr>"
    have a: "m_size ?a = 8" "m_fds ?a = []" "m_request ?a = m_request m" "payload_u64 ?a = 0"
      by (simp_all add: vmsg_set_reply_u64_def payload_u64_def mem_simps)
    have "vu_dispatch iface dev = vu_message_write ?dev2 (dv_sock dev1) ?a"
      using assms(1) pm False by (simp add: vu_dispatch_def vu_send_reply_def vmsg_set_reply_u64_def)
    moreover obtain ok dev' rest where "vu_message_write ?dev2 (dv_sock dev1) ?a = Inr (ok, dev')" "dv_broken dev'"
        "dv_trace dev' = dv_trace ?dev2 @ EvSend (dv_sock dev1) ?a # rest"
      by (cases "dv_sys ?dev2 (Suc (length (dv_trace ?dev2))) \<le> 0")
         (auto simp: vu_message_write_def a vu_call_def vu_panic_def vu_emit_def Let_def)
    ultimately show ?thesis using False a by auto
  qed
qed

text \<open>The witness: \<open>VHOST_USER_SEND_RARP\<close> with a descriptor, from a front end that wants a reply.\<close>

definition demo_rarp :: VuDev where
  "demo_rarp = demo_initial\<lparr>dv_recv := (\<lambda>_. RecvHeader 19 9 8 [7] 8 (bytes_at 0 [1, 2, 3, 4, 5, 6] (\<lambda>_. 0)))\<rparr>"

abbreviation demo_rarp_read where
  "demo_rarp_read \<equiv> vu_message_read_default demo_rarp (dv_sock demo_rarp) zero_msg"

theorem unhandled_request_is_acknowledged_witness:
  "\<exists>ok dev' before a rest. vu_dispatch no_callbacks demo_rarp = Inr (ok, dev') \<and> dv_broken dev' \<and>
    dv_trace dev' = before @ EvClose 7 # EvPanic ''Unhandled request'' # EvSend 5 a # rest \<and> payload_u64 a = 0"
proof -
  let ?m = "snd (snd (projr demo_rarp_read))" and ?dev = "fst (snd (projr demo_rarp_read))"
  have "\<not> isl demo_rarp_read" "fst (projr demo_rarp_read) = True" by code_simp+
  then have rd: "demo_rarp_read = Inr (True, ?dev, ?m)" by (cases demo_rarp_read) auto
  have "if_process_msg no_callbacks = None" by (simp add: no_callbacks_def)
  moreover have "no_case ?m" by code_simp
  moreover have "m_flags ?m AND VHOST_USER_NEED_REPLY_MASK \<noteq> 0" "m_fds ?m = [7]" "dv_sock ?dev = 5" by code_simp+
  ultimately show ?thesis using unhandled_request_is_acknowledged [OF rd, of no_callbacks] by force
qed

end
