(* ===== verification/VuQueueSafe.thy ===== *)
theory VuQueueSafe
  imports VuQueueFacts VuMsgFacts
begin

text \<open>
  What a hostile guest cannot do: whatever its rings, its chains and its indirect tables hold, popping
  from a queue returns, as long as no two regions of its memory are adjacent.
\<close>

section \<open>Translations that end at a region\<close>

text \<open>No region starts, or is in progress, where another one ends.\<close>

definition regions_apart :: "VuDev \<Rightarrow> bool" where
  "regions_apart dev \<longleftrightarrow>
     list_all (\<lambda>r. list_all (\<lambda>s. \<not> (r_gpa s \<le> r_gpa r + r_size r \<and> r_gpa r + r_size r < r_gpa s + r_size s))
       (regions_of dev)) (regions_of dev)"

lemma gpa_search_short:
  "gpa_search rs len a = (p, n) \<Longrightarrow> n \<noteq> len \<Longrightarrow> \<exists>r \<in> set rs. a + n = r_gpa r + r_size r"
  by (induction rs) (auto split: if_splits)

lemma gpa_search_miss:
  "list_all (\<lambda>s. \<not> (r_gpa s \<le> e \<and> e < r_gpa s + r_size s)) rs \<Longrightarrow> gpa_search rs k e = (0, k)"
  by (induction rs) auto

lemma nothing_after_a_short_piece:
  assumes "regions_apart dev" and "vu_gpa_to_va dev len a = (p, n)" and "n \<noteq> len"
  shows "vu_gpa_to_va dev k (a + n) = (0, k)"
proof -
  have "gpa_search (regions_of dev) len a = (p, n)"
    using assms(2,3) by (auto simp: vu_gpa_to_va_def regions_of_def split: if_splits)
  from gpa_search_short [OF this assms(3)] assms(1) show ?thesis
    by (auto simp: vu_gpa_to_va_def regions_apart_def regions_of_def list_all_iff intro!: gpa_search_miss)
qed

section \<open>Walking a table\<close>

text \<open>A table that can be read at \<open>i\<close>, and at every index below \<open>mx\<close>.\<close>

definition table_ok :: "desc_table \<Rightarrow> u32 \<Rightarrow> u32 \<Rightarrow> bool" where
  "table_ok tbl i mx \<longleftrightarrow>
     (case tbl of
        DescAt p n \<Rightarrow> p \<noteq> 0 \<and> i < n \<and> mx \<le> n
      | DescBuf b \<Rightarrow> unat i < VIRTQUEUE_MAX_SIZE \<and> unat mx \<le> VIRTQUEUE_MAX_SIZE)"

lemma read_indirect_no_trap:
  assumes "regions_apart dev"
  shows "no_trap (virtqueue_read_indirect_desc dev a len)"
proof (cases "len > DESC_BUF_BYTES \<or> len = 0")
  case True
  then show ?thesis by (auto simp: virtqueue_read_indirect_desc_def)
next
  case False
  obtain p n where t: "vu_gpa_to_va dev len a = (p, n)" by (cases "vu_gpa_to_va dev len a")
  show ?thesis
  proof (cases "p = 0")
    case True
    with False t show ?thesis
      by (simp add: virtqueue_read_indirect_desc_def read_indirect_loop.simps [of _ _ 0])
  next
    case p: False
    from vu_gpa_to_va_progress(2) [OF t p] False have "\<not> unat n > unat DESC_BUF_BYTES"
      by (auto simp: word_le_nat_alt not_less)
    moreover have "no_trap (read_indirect_loop dev buf off (a + n) (len - n))" for buf off
      using nothing_after_a_short_piece [OF assms t, of "len - n"]
      by (cases "n = len") (simp_all add: read_indirect_loop.simps)
    ultimately show ?thesis using False p t
      by (simp add: virtqueue_read_indirect_desc_def read_indirect_loop.simps [of _ _ 0])
  qed
qed

lemma open_indirect_no_trap:
  assumes "regions_apart dev" and "d_len d mod 16 = 0"
  shows "\<exists>r dev'. open_indirect dev d = Inr (r, dev') \<and> (case r of None \<Rightarrow> True | Some (t, mx) \<Rightarrow> table_ok t 0 mx)"
proof -
  obtain p n where t: "vu_gpa_to_va dev (ucast (d_len d)) (d_addr d) = (p, n)"
    by (cases "vu_gpa_to_va dev (ucast (d_len d)) (d_addr d)")
  show ?thesis
  proof (cases "p \<noteq> 0 \<and> n \<noteq> ucast (d_len d)")
    case False
    have "0 < d_len d div 16" if "p \<noteq> 0"
    proof -
      have "unat (d_len d) \<noteq> 0" using t that by (intro notI) (simp add: unat_eq_zero vu_gpa_to_va_def)
      moreover have "unat (d_len d) mod 16 = 0" using arg_cong [OF assms(2), of unat] by (simp add: unat_mod)
      ultimately have "0 < unat (d_len d) div 16" by presburger
      then show ?thesis by (simp add: word_less_nat_alt unat_div)
    qed
    with False t show ?thesis by (auto simp: open_indirect_def table_ok_def Let_def)
  next
    case True
    obtain r where r: "virtqueue_read_indirect_desc dev (d_addr d) (ucast (d_len d)) = Inr r"
      using read_indirect_no_trap [OF assms(1)] by (auto simp: no_trap_def)
    have "unat (d_len d div 16) \<le> 1024" if "r \<noteq> None"
    proof -
      have "\<not> (ucast (d_len d) :: u64) > DESC_BUF_BYTES"
        using r that by (auto simp: virtqueue_read_indirect_desc_def)
      then have "unat (d_len d) \<le> 16384"
        by (simp add: DESC_BUF_BYTES_def word_less_nat_alt unat_ucast_u32)
      then show ?thesis by (simp add: unat_div)
    qed
    with True t r show ?thesis
      by (cases r) (auto simp: open_indirect_def table_ok_def Let_def VIRTQUEUE_MAX_SIZE_def)
  qed
qed

lemma map_one_no_trap:
  "length outs + length ins \<le> VIRTQUEUE_MAX_SIZE \<Longrightarrow> no_trap (map_one dev outs ins d)"
  by (auto simp: map_one_def virtqueue_map_desc_def no_trap_tbind_iff no_trap_def split: prod.splits)

lemma map_chain_no_trap:
  "table_ok tbl i mx \<Longrightarrow> length outs + length ins \<le> VIRTQUEUE_MAX_SIZE \<Longrightarrow>
     no_trap (map_chain dev tbl i mx outs ins)"
proof (induction dev tbl i mx outs ins rule: map_chain.induct)
  case (1 dev tbl i mx outs ins)
  obtain d where d: "read_desc dev tbl i = Inr d"
    using "1.prems"(1) by (cases tbl) (auto simp: read_desc_def table_ok_def)
  obtain r dev1 where m: "map_one dev outs ins d = Inr (r, dev1)"
    using map_one_no_trap [OF "1.prems"(2), of dev d] by (auto simp: no_trap_def)
  show ?case
  proof (cases r)
    case None
    with d m show ?thesis by (simp add: map_chain.simps [of dev])
  next
    case (Some oi)
    obtain outs1 ins1 where oi: "oi = (outs1, ins1)" by (cases oi)
    from map_one_length [OF m [unfolded Some oi]] have len: "length outs1 + length ins1 \<le> VIRTQUEUE_MAX_SIZE" "dev1 = dev"
      by simp_all
    show ?thesis
    proof (cases "length ins1 + length outs1 > unat mx \<or> d_flags d AND VRING_DESC_F_NEXT = 0 \<or> mx \<le> ucast (d_next d)")
      case True
      with d m Some oi len(2) show ?thesis
        by (auto simp: map_chain.simps [of dev] virtqueue_read_next_desc_def Let_def)
    next
      case False
      then have nx: "virtqueue_read_next_desc dev tbl i mx = Inr (MoreDesc (ucast (d_next d)), dev)"
        using d by (simp add: virtqueue_read_next_desc_def Let_def)
      have "table_ok tbl (ucast (d_next d)) mx"
        using "1.prems"(1) False by (cases tbl) (auto simp: table_ok_def not_le word_less_nat_alt word_le_nat_alt)
      from "1.IH" [OF d m refl Some [unfolded oi] refl _ nx [folded len(2)] refl refl this len(1)] False
      show ?thesis using d m Some oi nx len(2) by (simp add: map_chain.simps [of dev])
    qed
  qed
qed

section \<open>Popping\<close>

lemma map_desc_no_trap:
  assumes "regions_apart dev" and "ring_desc (vq_vring vq) \<noteq> 0" and "i < ring_num (vq_vring vq)" and "32 \<le> sz"
  shows "no_trap (vu_queue_map_desc dev vq i sz)"
proof -
  let ?tbl = "DescAt (ring_desc (vq_vring vq)) (ring_num (vq_vring vq))"
  obtain d where d: "read_desc dev ?tbl i = Inr d" using assms(2,3) by (simp add: read_desc_def)
  have walk: "no_trap (map_chain dev' t j mx [] [])" if "table_ok t j mx" for dev' t j mx
    using map_chain_no_trap [OF that] by simp
  have alloc: "no_trap (virtqueue_alloc_element dev' sz a b)" for dev' a b
    using assms(4) by (simp add: virtqueue_alloc_element_def no_trap_def split: prod.split)
  have tbl: "table_ok ?tbl i (ring_num (vq_vring vq))" using assms(2,3) by (simp add: table_ok_def)
  show ?thesis
  proof (cases "d_len d mod 16 = 0")
    case True
    from open_indirect_no_trap [OF assms(1) this] obtain r dev' where
      "open_indirect dev d = Inr (r, dev')" "case r of None \<Rightarrow> True | Some (t, mx) \<Rightarrow> table_ok t 0 mx" by blast
    with tbl show ?thesis
      unfolding vu_queue_map_desc_def Let_def d tbind_simps
      by (auto intro!: no_trap_tbind walk alloc split: option.splits if_splits)
  next
    case False
    with tbl show ?thesis
      unfolding vu_queue_map_desc_def Let_def d tbind_simps
      by (auto intro!: no_trap_tbind walk alloc split: option.splits if_splits)
  qed
qed

text \<open>
  What the front end and the library keep of a queue in use: its rings are mapped, its resubmit list is as long
  as it says and names entries of the ring.
\<close>

definition queue_mapped :: "VuVirtq \<Rightarrow> bool" where
  "queue_mapped vq \<longleftrightarrow> ring_desc (vq_vring vq) \<noteq> 0 \<and> ring_used (vq_vring vq) \<noteq> 0 \<and>
     (case vq_resubmit_list vq of
        None \<Rightarrow> True
      | Some rs \<Rightarrow> unat (vq_resubmit_num vq) \<le> length rs \<and>
          list_all (\<lambda>r. ucast (ifd_index r) < ring_num (vq_vring vq)) rs)"

lemma queue_empty_keeps:
  "vu_queue_empty dev vq = (e, vq1) \<Longrightarrow> vq_vring vq1 = vq_vring vq \<and> vq_inuse vq1 = vq_inuse vq"
  by (auto simp: vu_queue_empty_def vring_avail_idx_def Let_def split: if_splits)

lemma pop_avail_no_trap:
  assumes "regions_apart dev" and "queue_mapped vq" and "32 \<le> sz"
  shows "no_trap (pop_avail dev vq sz)"
proof -
  obtain e vq1 where e: "vu_queue_empty dev vq = (e, vq1)" by (cases "vu_queue_empty dev vq")
  note k = queue_empty_keeps [OF e]
  let ?vq2 = "vq1\<lparr>vq_last_avail_idx := vq_last_avail_idx vq1 + 1\<rparr>"
  have ring: "ring_desc (vq_vring vq1) \<noteq> 0" "ring_used (vq_vring vq1) \<noteq> 0"
    using assms(2) k by (simp_all add: queue_mapped_def)
  have head: "no_trap (virtqueue_get_head dev ?vq2 i)" if "vq_inuse vq1 < ring_num (vq_vring vq1)" for i
    using that by (auto simp: virtqueue_get_head_def Let_def)
  have ev: "no_trap (vring_set_avail_event dev' ?vq2 v)" for dev' v
    using ring by (simp add: vring_set_avail_event_def)
  have got: "regions_apart dev1" if "virtqueue_get_head dev ?vq2 i = Inr (h, dev1)" for i h dev1
    using that assms(1)
    by (auto simp: virtqueue_get_head_def regions_apart_def regions_of_def Let_def vu_panic_def vu_emit_def split: if_splits)
  have set: "regions_apart dev2" if "vring_set_avail_event dev1 ?vq2 v = Inr dev2" "regions_apart dev1" for dev1 dev2 v
    using that by (auto simp: vring_set_avail_event_def regions_apart_def regions_of_def split: if_splits)
  have bound: "h < ring_num (vq_vring vq1)" if "virtqueue_get_head dev ?vq2 i = Inr (Some h, dev1)" for i h dev1
    using virtqueue_get_head_Some(2) [OF that] by simp
  have desc: "no_trap (vu_queue_map_desc dev' ?vq2 h sz)" if "regions_apart dev'" "h < ring_num (vq_vring vq1)" for dev' h
    using map_desc_no_trap [OF that(1) _ _ assms(3), of ?vq2] ring that(2) by simp
  have inflight: "no_trap (case x of (b, dev4, vq4) \<Rightarrow> Inr (Some el, dev4, vq4))" for x :: "bool \<times> VuDev \<times> VuVirtq" and el
    by (cases x) simp
  show ?thesis
    unfolding pop_avail_def e Let_def prod.case
    by (auto intro!: no_trap_tbind head ev desc inflight split: option.split simp: not_le)
       (metis got set bound)+
qed

text \<open>
  C4: \<^bold>\<open>A guest cannot crash the pop.\<close> Whatever the memory of the guest holds (heads and links out of range,
  chains that loop or never end, tables in no region or across the end of one, buffers of any size), \<open>vu_queue_pop\<close>
  returns: every descriptor it reads is an entry of its table (below the size of the ring in the queue's own table, within the
  translated length of an indirect one, within the array of 1024 otherwise), it overruns no local array, follows no null
  pointer, fails no assertion and divides by no zero. This needs what the front end and the library set up, not the guest: the queue's rings
  are mapped, a resubmit list is as long as it says and names entries of the ring, the caller's element type
  is at least a \<open>VuVirtqElement\<close> (32 bytes), and no region of the guest is followed directly by
  another: over two adjacent ones \<open>split_indirect_table_is_misplaced\<close> shows the overrun.
\<close>
theorem guest_cannot_crash_the_pop:
  assumes "regions_apart dev" and "queue_mapped vq" and "32 \<le> sz"
  shows "\<exists>elem dev' vq'. vu_queue_pop dev vq sz = Inr (elem, dev', vq')"
proof -
  have "no_trap (vu_queue_pop dev vq sz)"
  proof (cases "\<exists>rs. vq_resubmit_list vq = Some rs \<and> vq_resubmit_num vq > 0")
    case False
    then show ?thesis using pop_avail_no_trap [OF assms]
      by (auto simp: vu_queue_pop_def split: option.split)
  next
    case True
    then obtain rs where rs: "vq_resubmit_list vq = Some rs" "vq_resubmit_num vq > 0" by blast
    then have "0 < unat (vq_resubmit_num vq)" by (simp add: unat_gt_0 word_gt_0)
    with rs assms(2) have i: "unat (vq_resubmit_num vq - 1) < length rs"
      by (auto simp: queue_mapped_def unat_minus_one word_gt_0)
    with rs(1) assms(2) have "ucast (ifd_index (rs ! unat (vq_resubmit_num vq - 1))) < ring_num (vq_vring vq)"
      by (simp add: queue_mapped_def list_all_length)
    from map_desc_no_trap [OF assms(1) _ this assms(3)] i assms(2) rs show ?thesis
      by (auto simp: vu_queue_pop_def Let_def queue_mapped_def intro!: no_trap_tbind)
  qed
  then show ?thesis by (auto simp: no_trap_def)
qed

text \<open>
  The witness: the memory of the guest is all ones but for the available ring, which offers head 0 over and
  over; its descriptor is an indirect table of no valid size. The device is broken, nothing else happens.
\<close>

definition hostile_dev :: VuDev where
  "hostile_dev = demo_dev\<lparr>dv_mem := bytes_at 0x5040 [0, 0, 1, 0, 0, 0] (\<lambda>_. 0xff)\<rparr>"

theorem guest_cannot_crash_the_pop_witness:
  "\<exists>elem dev' vq'. vu_queue_pop hostile_dev demo_vq 32 = Inr (elem, dev', vq') \<and> dv_broken dev'"
proof -
  have "regions_apart hostile_dev" "queue_mapped demo_vq" by code_simp+
  from guest_cannot_crash_the_pop [OF this, of 32]
  obtain elem dev' vq' where p: "vu_queue_pop hostile_dev demo_vq 32 = Inr (elem, dev', vq')" by auto
  have "(case vu_queue_pop hostile_dev demo_vq 32 of Inl t \<Rightarrow> False | Inr (elem, dev', vq') \<Rightarrow> dv_broken dev')" by code_simp
  with p show ?thesis by simp
qed

end
