(* ===== verification/Backend.thy ===== *)
theory Backend
  imports VuServe Sink "HOL-Library.Multiset"
begin

text \<open>
  The vhost-user backend, \<^verbatim>\<open>project_1/vhost/backend.c\<close>: its watch table, the kick handler of the
  transmit queue, and the main loop around \<open>vu_dispatch\<close>. The library's calls of the backend
  (\<open>set_watch\<close>, \<open>remove_watch\<close>, \<open>panic_cb\<close>, \<open>set_features\<close>) stand in the device's trace in their order;
  since the library never reads what they change, they are carried out from the trace.
\<close>

section \<open>The watch table\<close>

definition VQ_TX :: nat where "VQ_TX = 1"
definition MAXW :: nat where "MAXW = 32"

text \<open>
  \<open>W[0 .. nW)\<close>: a descriptor and the queue index that is the callback's data (the callback is always
  \<open>vu_kick_cb\<close>).
\<close>

type_synonym watches = "(int \<times> nat) list"

fun set_watch :: "watches \<Rightarrow> nat \<Rightarrow> int \<Rightarrow> nat \<Rightarrow> watches" where
  "set_watch [] n fd d = (if n < MAXW then [(fd, d)] else [])"
| "set_watch ((f, x) # ws) n fd d =
     (if f = fd then (fd, d) # ws else (f, x) # set_watch ws (Suc n) fd d)"

text \<open>The last entry takes the place of the one removed.\<close>

fun remove_watch :: "watches \<Rightarrow> int \<Rightarrow> watches" where
  "remove_watch [] fd = []"
| "remove_watch ((f, x) # ws) fd =
     (if f = fd then (if ws = [] then [] else last ws # butlast ws) else (f, x) # remove_watch ws fd)"

text \<open>
  What the library asked for, in order. \<open>panic_cb\<close> ends the process: the second component says that it
  was called, and what comes after does not happen.
\<close>

fun callbacks :: "vu_event list \<Rightarrow> watches \<Rightarrow> watches \<times> bool" where
  "callbacks [] w = (w, False)"
| "callbacks (EvSetWatch fd i # es) w = callbacks es (set_watch w 0 fd i)"
| "callbacks (EvRemoveWatch fd # es) w = callbacks es (remove_watch w fd)"
| "callbacks (EvPanic msg # es) w = (w, True)"
| "callbacks (e # es) w = callbacks es w"

section \<open>The transmit queue\<close>

record virtq_mem_region =
  vm_gpa :: u64
  vm_size :: u64
  vm_hva :: u64

definition build_mem :: "VuDev \<Rightarrow> virtq_mem_region list" where
  "build_mem dev =
     map (\<lambda>r. \<lparr>vm_gpa = r_gpa r, vm_size = r_size r, vm_hva = r_mmap_addr r + r_mmap_offset r\<rparr>)
       (take (min (unat (dv_nregions dev)) VHOST_USER_MAX_RAM_SLOTS) (dv_regions dev))"

record virtq =
  q_desc :: u64
  q_avail :: u64
  q_used :: u64
  q_num :: u16
  q_last_avail :: u16

text \<open>
  The queue handler is a parameter: it gives the number of chains completed, the queue, the
  memory and what it handed to \<open>vlog_sink_emit\<close>. The repository's own is a stub.
\<close>

type_synonym virtq_handler = "virtq \<Rightarrow> virtq_mem_region list \<Rightarrow> mem \<Rightarrow> int \<times> virtq \<times> mem \<times> string list"

definition vlog_virtq_handle :: virtq_handler where
  "vlog_virtq_handle vq regions m = (0, vq, m, [])"

text \<open>
  The guest runs at the same time: \<open>guest i\<close> is what it does to the memory in the window \<open>i\<close>, and
  whether it kicks. Round \<open>i\<close> of the loop has two windows: before \<open>avail_event\<close> is written and between
  that and the second look at \<open>avail->idx\<close>.
\<close>

type_synonym guest = "nat \<Rightarrow> mem \<Rightarrow> mem \<times> bool"

definition tx_avail_event :: "virtq \<Rightarrow> u64" where
  "tx_avail_event vq = used_ring_addr (q_used vq) (ucast (q_num vq))"

fun tx_loop ::
    "virtq_handler \<Rightarrow> guest \<Rightarrow> bool \<Rightarrow> virtq_mem_region list \<Rightarrow> nat \<Rightarrow> nat \<Rightarrow> nat \<Rightarrow> virtq \<Rightarrow> int \<Rightarrow> bool \<Rightarrow>
       VuDev \<Rightarrow> (int \<times> bool \<times> VuDev) trapping"
where
  "tx_loop handle guest event_idx regions qidx 0 i vq sum0 kicked dev = Inl Diverges"
| "tx_loop handle guest event_idx regions qidx (Suc k) i vq sum0 kicked dev =
     (let (n, vq1, m1, recs) = handle vq regions (dv_mem dev);
          dev1 = fold (\<lambda>s d. vu_emit d (EvSinkEmit s)) recs (dev\<lparr>dv_mem := m1\<rparr>);
          sum1 = sum0 + n;
          dev2 = put_vq dev1 qidx ((dv_vq dev1 ! qidx)\<lparr>vq_last_avail_idx := q_last_avail vq1\<rparr>)
      in if \<not> (- (2 ^ 31) \<le> sum1 \<and> sum1 < 2 ^ 31) then Inl SignedOverflow
         else if \<not> event_idx then Inr (sum1, kicked, dev2)
         else
           let (m2, kick1) = guest (2 * i) (dv_mem dev2);
               m3 = store16 m2 (tx_avail_event vq1) (q_last_avail vq1);
               (m4, kick2) = guest (2 * i + 1) m3;
               dev3 = dev2\<lparr>dv_mem := m4\<rparr>; kicked1 = (kicked \<or> kick1 \<or> kick2)
           in if avail_idx m4 (q_avail vq1) = q_last_avail vq1 then Inr (sum1, kicked1, dev3)
              else if n = 0 then Inr (sum1, kicked1, dev3)
              else tx_loop handle guest event_idx regions qidx k (Suc i) vq1 sum1 kicked1 dev3)"

text \<open>The second component of the result says whether the guest kicked meanwhile.\<close>

definition tx_kick :: "virtq_handler \<Rightarrow> guest \<Rightarrow> nat \<Rightarrow> u64 \<Rightarrow> VuDev \<Rightarrow> nat \<Rightarrow> (bool \<times> VuDev) trapping" where
  "tx_kick handle guest fuel g_features dev qidx =
     tbind (vu_get_queue dev (int qidx)) (\<lambda>vuq.
       let r = vq_vring vuq
       in if ring_desc r = 0 \<or> ring_avail r = 0 \<or> ring_used r = 0 \<or> ring_num r = 0 then Inr (False, dev)
          else
            let vq = \<lparr>q_desc = ring_desc r, q_avail = ring_avail r, q_used = ring_used r,
                      q_num = ucast (ring_num r), q_last_avail = vq_last_avail_idx vuq\<rparr>
            in tbind (tx_loop handle guest (bit g_features VIRTIO_RING_F_EVENT_IDX) (build_mem dev) qidx fuel 0
                        vq 0 False dev)
                 (\<lambda>(sum0, kicked, dev1).
                    Inr (kicked,
                         if sum0 > 0 \<and> vq_call_fd (dv_vq dev1 ! qidx) \<ge> 0
                         then vu_emit dev1 (EvEventfdWrite (vq_call_fd (dv_vq dev1 ! qidx)))
                         else dev1)))"

section \<open>The device implementation\<close>

definition queue_set_started :: "VuDev \<Rightarrow> nat \<Rightarrow> bool \<Rightarrow> VuDev" where
  "queue_set_started dev qidx started =
     (if qidx = VQ_TX then vu_set_queue_handler dev qidx started else dev)"

definition get_features :: "VuDev \<Rightarrow> u64" where
  "get_features dev = push_bit VIRTIO_F_VERSION_1 1"

text \<open>\<open>set_features\<close> only keeps its argument in \<open>g_features\<close>, which is the latest in the trace, 0 at first.\<close>

definition set_features :: "VuDev \<Rightarrow> u64 \<Rightarrow> VuDev" where
  "set_features dev f = dev"

fun g_features :: "vu_event list \<Rightarrow> u64 \<Rightarrow> u64" where
  "g_features [] v = v"
| "g_features (EvSetFeatures f # es) v = g_features es f"
| "g_features (e # es) v = g_features es v"

definition backend_iface :: "virtq_handler \<Rightarrow> (VuDev \<Rightarrow> guest) \<Rightarrow> nat \<Rightarrow> VuDevIface" where
  "backend_iface handle guest fuel =
     \<lparr>if_get_features = Some get_features, if_set_features = Some set_features,
      if_get_protocol_features = None, if_set_protocol_features = None, if_process_msg = None,
      if_queue_set_started = Some queue_set_started, if_queue_is_processed_in_order = None,
      if_get_config = None, if_set_config = None, if_get_shared_object = None,
      if_queue_handler = (\<lambda>dev i.
        tbind (tx_kick handle (guest dev) fuel (g_features (dv_trace dev) 0) dev i) (\<lambda>(_, dev1). Inr dev1))\<rparr>"

section \<open>The main loop\<close>

text \<open>\<open>g_sink\<close> is what the emitted buffers in the trace make of the sink opened at the start.\<close>

fun g_sink :: "vlog_sink \<Rightarrow> vu_event list \<Rightarrow> vlog_sink" where
  "g_sink s [] = s"
| "g_sink s (EvSinkEmit b # es) = g_sink (vlog_sink_emit s b (of_nat (length b))) es"
| "g_sink s (e # es) = g_sink s es"

record backend =
  be_dev :: VuDev
  be_watches :: watches

text \<open>
  \<open>Exited\<close> is a process that has called \<open>exit\<close>, with its status and the calls made until then: up to the
  panic when \<open>panic_cb\<close> ended it. \<open>Disconnected\<close> is the loop left by one of its \<open>break\<close>s.
\<close>

datatype be_step = Serving backend | Disconnected backend | Exited int "vu_event list"

fun until_panic :: "vu_event list \<Rightarrow> vu_event list" where
  "until_panic [] = []"
| "until_panic (EvPanic msg # es) = [EvPanic msg]"
| "until_panic (e # es) = e # until_panic es"

definition after_calls :: "backend \<Rightarrow> VuDev \<Rightarrow> be_step" where
  "after_calls b dev =
     (let new = drop (length (dv_trace (be_dev b))) (dv_trace dev);
          (w, panicked) = callbacks new (be_watches b)
      in if panicked then Exited 1 (dv_trace (be_dev b) @ until_panic new)
         else Serving \<lparr>be_dev = dev, be_watches = w\<rparr>)"

text \<open>
  A request \<open>VHOST_USER_NONE\<close> (a message of zeros, which is what a closed connection reads as) makes
  \<open>vu_process_message\<close> call \<open>exit (0)\<close>. Until then \<open>vu_dispatch\<close> has read the message and run \<open>process_msg\<close>,
  if there is one.
\<close>

definition exit_calls :: "VuDevIface \<Rightarrow> VuDev \<Rightarrow> vu_event list" where
  "exit_calls iface dev =
     (case vu_message_read_default dev (dv_sock dev) zero_msg of
        Inl t \<Rightarrow> dv_trace dev
      | Inr (ok, dev1, m) \<Rightarrow>
          (case if_process_msg iface of
             None \<Rightarrow> dv_trace dev1
           | Some f \<Rightarrow> dv_trace (fst (snd (snd (f dev1 m))))))"

definition at_exit :: "backend \<Rightarrow> vu_event list \<Rightarrow> be_step" where
  "at_exit b calls =
     (let new = drop (length (dv_trace (be_dev b))) calls
      in if snd (callbacks new (be_watches b)) then Exited 1 (dv_trace (be_dev b) @ until_panic new)
         else Exited 0 calls)"

text \<open>The polled descriptors after the first, with their \<open>revents\<close>: the callback is looked up afresh.\<close>

fun run_watches :: "VuDevIface \<Rightarrow> (int \<times> u16) list \<Rightarrow> backend \<Rightarrow> be_step trapping" where
  "run_watches iface [] b = Inr (Serving b)"
| "run_watches iface ((fd, re) # ps) b =
     (if re AND POLLIN = 0 then run_watches iface ps b
      else (case map_of (be_watches b) fd of
              None \<Rightarrow> run_watches iface ps b
            | Some i \<Rightarrow>
                tbind (vu_kick_cb iface (be_dev b) i) (\<lambda>dev.
                  case after_calls b dev of
                    Serving b1 \<Rightarrow> run_watches iface ps b1
                  | s \<Rightarrow> Inr s)))"

text \<open>
  One round: \<open>rev0\<close> are the \<open>revents\<close> of the connection, \<open>revs\<close> those of the watched descriptors in
  the order of the table; \<open>None\<close> is a failed \<open>poll\<close>.
\<close>

definition be_round :: "VuDevIface \<Rightarrow> (u16 \<times> u16 list) option \<Rightarrow> backend \<Rightarrow> be_step trapping" where
  "be_round iface polled b =
     (case polled of
        None \<Rightarrow> Inr (Disconnected b)
      | Some (rev0, revs) \<Rightarrow>
          (let ps = zip (map fst (be_watches b)) revs
           in if rev0 AND (POLLIN OR POLLHUP) \<noteq> 0
              then (case vu_dispatch iface (be_dev b) of
                      Inl ExitCalled \<Rightarrow> Inr (at_exit b (exit_calls iface (be_dev b)))
                    | Inl t \<Rightarrow> Inl t
                    | Inr (ok, dev) \<Rightarrow>
                        (case after_calls b dev of
                           Serving b1 \<Rightarrow> if \<not> ok then Inr (Disconnected b1) else run_watches iface ps b1
                         | s \<Rightarrow> Inr s))
              else run_watches iface ps b))"

fun be_loop :: "VuDevIface \<Rightarrow> (u16 \<times> u16 list) option list \<Rightarrow> backend \<Rightarrow> be_step trapping" where
  "be_loop iface [] b = Inr (Serving b)"
| "be_loop iface (p # ps) b =
     tbind (be_round iface p b) (\<lambda>s. case s of
       Serving b1 \<Rightarrow> be_loop iface ps b1
     | _ \<Rightarrow> Inr s)"

text \<open>
  \<open>main\<close>, over the results of \<open>poll\<close>. \<open>argc\<close> as in C; \<open>sink\<close> is the result of \<open>vlog_sink_open\<close>; \<open>listening\<close> says
  whether \<open>bind\<close> and \<open>listen\<close> succeeded, \<open>cfd\<close> is the result of \<open>accept\<close>, \<open>dev0\<close> the uninitialised device.
  The result is the exit status with the final log, when the process is not still serving: \<open>exit\<close> flushes
  and closes the open streams, so the log file then holds what \<open>fclose\<close> would leave.
\<close>

definition backend_main ::
    "VuDevIface \<Rightarrow> nat \<Rightarrow> vlog_sink option \<Rightarrow> bool \<Rightarrow> int \<Rightarrow> VuDev \<Rightarrow> (u16 \<times> u16 list) option list \<Rightarrow>
       (int \<times> string option) trapping"
where
  "backend_main iface argc sink listening cfd dev0 polls =
     (if argc < 3 then Inr (2, None)
      else (case sink of
        None \<Rightarrow> Inr (1, None)
      | Some snk \<Rightarrow>
          if \<not> listening \<or> cfd < 0 then Inr (1, None)
          else tbind (vu_init (dev0\<lparr>dv_trace := []\<rparr>) 2 cfd True) (\<lambda>(ok, dev).
            if \<not> ok then Inr (1, None)
            else tbind (be_loop iface polls \<lparr>be_dev = dev, be_watches = []\<rparr>) (\<lambda>s. case s of
              Serving b \<Rightarrow> Inl Diverges
            | Exited rc calls \<Rightarrow> Inr (rc, vlog_sink_close (Some (g_sink snk calls)))
            | Disconnected b \<Rightarrow>
                (let dev1 = vu_deinit (be_dev b)
                 in Inr (0, vlog_sink_close (Some (g_sink snk (dv_trace dev1)))))))))"

section \<open>The watch table is a map\<close>

definition watches_ok :: "watches \<Rightarrow> bool" where
  "watches_ok w \<longleftrightarrow> distinct (map fst w) \<and> length w \<le> MAXW"

lemma fst_set_watch:
  "fst ` set (set_watch w n fd d) \<subseteq> insert fd (fst ` set w)"
  by (induction w n fd d rule: set_watch.induct) auto

lemma set_watch_distinct: "distinct (map fst w) \<Longrightarrow> distinct (map fst (set_watch w n fd d))"
proof (induction w n fd d rule: set_watch.induct)
  case (2 f x ws n fd d)
  then show ?case using fst_set_watch [of ws "Suc n" fd d] by auto
qed simp

lemma set_watch_length:
  "n + length w \<le> MAXW \<Longrightarrow> n + length (set_watch w n fd d) \<le> MAXW"
proof (induction w n fd d rule: set_watch.induct)
  case (2 f x ws n fd d)
  then show ?case by (cases "f = fd") simp_all
qed simp

lemma set_watch_map:
  "map_of (set_watch w n fd d) =
     (if fd \<in> fst ` set w \<or> n + length w < MAXW then (map_of w)(fd \<mapsto> d) else map_of w)"
  by (induction w n fd d rule: set_watch.induct) (auto simp: fun_eq_iff)

lemma set_last_butlast: "ws \<noteq> [] \<Longrightarrow> mset (last ws # butlast ws) = mset ws"
  by (induction ws rule: rev_induct) simp_all

lemma remove_watch_mset:
  "mset (remove_watch w fd) =
     (case map_of w fd of None \<Rightarrow> mset w | Some d \<Rightarrow> mset w - {#(fd, d)#})"
proof (induction w)
  case (Cons p ws)
  obtain f x where p: "p = (f, x)" by fastforce
  show ?case
    using Cons set_last_butlast [of ws]
    by (auto simp: p add_mset_diff_bothsides split: option.splits dest: map_of_SomeD)
qed simp

lemma remove_watch_length: "length (remove_watch w fd) \<le> length w"
  by (induction w) (auto simp: Suc_le_eq)

lemma remove_watch_distinct:
  assumes "distinct (map fst w)"
  shows "distinct (map fst (remove_watch w fd))"
    and "set (remove_watch w fd) = {p \<in> set w. fst p \<noteq> fd}"
proof -
  have m: "mset (remove_watch w fd) = filter_mset (\<lambda>p. fst p \<noteq> fd) (mset w)"
    using assms
  proof (induction w)
    case (Cons p ws)
    obtain f x where p: "p = (f, x)" by fastforce
    from Cons.prems p have "f = fd \<Longrightarrow> filter_mset (\<lambda>p. fst p \<noteq> fd) (mset ws) = mset ws"
      by (force simp: filter_mset_eq_conv)
    with Cons show ?case using set_last_butlast [of ws] by (auto simp: p)
  qed simp
  show "set (remove_watch w fd) = {p \<in> set w. fst p \<noteq> fd}"
    using arg_cong [OF m, of set_mset] by simp
  have "mset (map fst (remove_watch w fd)) = mset (map fst (filter (\<lambda>p. fst p \<noteq> fd) w))"
    using m by (simp add: mset_filter)
  moreover have "distinct (map fst (filter (\<lambda>p. fst p \<noteq> fd) w))" using assms by (rule distinct_map_filter)
  ultimately show "distinct (map fst (remove_watch w fd))" by (metis mset_eq_imp_distinct_iff)
qed

lemma remove_watch_map:
  assumes "distinct (map fst w)"
  shows "map_of (remove_watch w fd) = (map_of w)(fd := None)"
proof
  fix g
  note r = remove_watch_distinct [OF assms, of fd]
  have eq: "map_of (remove_watch w fd) g = Some x \<longleftrightarrow> g \<noteq> fd \<and> map_of w g = Some x" for x
    by (simp add: map_of_eq_Some_iff [OF r(1)] map_of_eq_Some_iff [OF assms] r(2) conj_commute)
  show "map_of (remove_watch w fd) g = ((map_of w)(fd := None)) g"
  proof (cases "map_of (remove_watch w fd) g")
    case None
    then have "g = fd \<or> map_of w g \<noteq> Some x" for x using eq [of x] by simp
    then have "g = fd \<or> map_of w g = None" by (metis option.exhaust)
    with None show ?thesis by auto
  next
    case (Some x)
    with eq [of x] show ?thesis by simp
  qed
qed

text \<open>
  The library's view of the table: a map from descriptors to data of at most \<open>cap\<close> entries. Each call
  updates it; a new descriptor that no longer fits is dropped.
\<close>

definition table_step :: "('t \<Rightarrow> int \<Rightarrow> nat \<Rightarrow> 't) \<Rightarrow> ('t \<Rightarrow> int \<Rightarrow> 't) \<Rightarrow> vu_event \<Rightarrow> 't \<Rightarrow> 't" where
  "table_step upd rem e t =
     (case e of EvSetWatch fd i \<Rightarrow> upd t fd i | EvRemoveWatch fd \<Rightarrow> rem t fd | _ \<Rightarrow> t)"

definition bounded_upd :: "nat \<Rightarrow> (int \<rightharpoonup> nat) \<Rightarrow> int \<Rightarrow> nat \<Rightarrow> (int \<rightharpoonup> nat)" where
  "bounded_upd cap m fd i = (if fd \<in> dom m \<or> card (dom m) < cap then m(fd \<mapsto> i) else m)"

definition ask :: "nat \<Rightarrow> vu_event \<Rightarrow> (int \<rightharpoonup> nat) \<Rightarrow> (int \<rightharpoonup> nat)" where
  "ask cap = table_step (bounded_upd cap) (\<lambda>m fd. m(fd := None))"

definition asked :: "nat \<Rightarrow> vu_event list \<Rightarrow> (int \<rightharpoonup> nat) \<Rightarrow> (int \<rightharpoonup> nat)" where
  "asked cap = fold (ask cap)"

locale watch_table =
  fixes look :: "'t \<Rightarrow> int \<rightharpoonup> nat"
    and inv :: "'t \<Rightarrow> bool"
    and upd :: "'t \<Rightarrow> int \<Rightarrow> nat \<Rightarrow> 't"
    and rem :: "'t \<Rightarrow> int \<Rightarrow> 't"
    and cap :: nat
  assumes look_upd: "inv t \<Longrightarrow> look (upd t fd i) = bounded_upd cap (look t) fd i"
    and look_rem: "inv t \<Longrightarrow> look (rem t fd) = (look t)(fd := None)"
    and inv_upd: "inv t \<Longrightarrow> inv (upd t fd i)"
    and inv_rem: "inv t \<Longrightarrow> inv (rem t fd)"
begin

lemma inv_step: "inv t \<Longrightarrow> inv (table_step upd rem e t)"
  by (auto simp: table_step_def inv_upd inv_rem split: vu_event.splits)

lemma look_step: "inv t \<Longrightarrow> look (table_step upd rem e t) = ask cap e (look t)"
  by (auto simp: table_step_def ask_def look_upd look_rem split: vu_event.splits)

lemma follows_library: "inv t \<Longrightarrow> look (fold (table_step upd rem) es t) = asked cap es (look t)"
  by (induction es arbitrary: t) (simp_all add: asked_def look_step inv_step)

end

lemma card_map_of: "distinct (map fst w) \<Longrightarrow> card (dom (map_of w)) = length w"
  by (simp add: dom_map_of_conv_image_fst distinct_card flip: set_map)

interpretation watches: watch_table map_of watches_ok "\<lambda>w. set_watch w 0" remove_watch MAXW
proof unfold_locales
  fix w :: watches and fd :: int and i :: nat
  assume ok: "watches_ok w"
  show "map_of (set_watch w 0 fd i) = bounded_upd MAXW (map_of w) fd i"
    using ok card_map_of [of w] set_watch_map [of w 0 fd i]
    by (simp add: watches_ok_def bounded_upd_def dom_map_of_conv_image_fst del: set_watch.simps)
  show "map_of (remove_watch w fd) = (map_of w)(fd := None)"
    using ok by (simp add: watches_ok_def remove_watch_map)
  show "watches_ok (set_watch w 0 fd i)"
    using ok set_watch_distinct [of w 0 fd i] set_watch_length [of 0 w fd i] by (simp add: watches_ok_def)
  show "watches_ok (remove_watch w fd)"
    using ok remove_watch_distinct [of w fd] remove_watch_length [of w fd] by (simp add: watches_ok_def)
qed

lemma callbacks_ok: "watches_ok w \<Longrightarrow> watches_ok (fst (callbacks es w))"
  by (induction es w rule: callbacks.induct) (simp_all add: watches.inv_upd watches.inv_rem)

fun is_panic :: "vu_event \<Rightarrow> bool" where
  "is_panic (EvPanic msg) = True"
| "is_panic e = False"

lemma callbacks_fold:
  "callbacks es w =
     (fold (table_step (\<lambda>w. set_watch w 0) remove_watch) (takeWhile (\<lambda>e. \<not> is_panic e) es) w,
      list_ex is_panic es)"
  by (induction es w rule: callbacks.induct) (simp_all add: table_step_def)

text \<open>
  C11: \<^bold>\<open>The backend polls what the library asked for.\<close> Over any sequence of calls of the library, the
  watch table (distinct descriptors, at most 32 entries) behaves as a map with room for 32 descriptors: looking a
  descriptor up gives what the library last asked for it, nothing if it was removed; a new descriptor that comes when 32
  others are watched is dropped without a word. This holds up to the first panic; the callbacks report that the process
  ends exactly when there is one, and nothing after it is carried out.
\<close>

theorem watches_follow_the_library:
  assumes "watches_ok w"
  shows "snd (callbacks es w) = list_ex is_panic es \<and>
    map_of (fst (callbacks es w)) = asked 32 (takeWhile (\<lambda>e. \<not> is_panic e) es) (map_of w)"
  using watches.follows_library [OF assms] by (simp add: callbacks_fold MAXW_def)

theorem watches_follow_the_library_witness:
  "map_of (fst (callbacks [EvSetWatch 5 1, EvClose 3, EvRemoveWatch 3, EvSetWatch 6 0, EvPanic ''x'', EvSetWatch 7 0]
     [(3, 0), (5, 0)])) = [6 \<mapsto> 0, 5 \<mapsto> 1]"
proof -
  have w: "watches_ok [(3, 0), (5, 0)]" by (simp add: watches_ok_def MAXW_def)
  show ?thesis
    using watches_follow_the_library [OF w, of "[EvSetWatch 5 1, EvClose 3, EvRemoveWatch 3, EvSetWatch 6 0,
      EvPanic ''x'', EvSetWatch 7 0]"]
    by (auto simp: asked_def ask_def table_step_def bounded_upd_def fun_eq_iff)
qed

section \<open>The backend's callbacks keep the device\<close>

lemma keeps_emits: "keeps a d \<Longrightarrow> keeps a (fold (\<lambda>s d. vu_emit d (EvSinkEmit s)) recs d)"
  by (induction recs arbitrary: d) (simp_all add: keeps_intros)

lemma tx_loop_keeps:
  "tx_loop handle guest ev regions q k i vq sum0 kicked d = Inr (t, kk, d') \<Longrightarrow> keeps a d \<Longrightarrow> keeps a d'"
proof (induction k arbitrary: i vq sum0 kicked d)
  case (Suc k)
  obtain n vq1 m1 recs where h: "handle vq regions (dv_mem d) = (n, vq1, m1, recs)" by (metis prod_cases4)
  define d2 where "d2 = (let d1 = fold (\<lambda>s d. vu_emit d (EvSinkEmit s)) recs (d\<lparr>dv_mem := m1\<rparr>)
    in put_vq d1 q ((dv_vq d1 ! q)\<lparr>vq_last_avail_idx := q_last_avail vq1\<rparr>))"
  have "keeps a d2" unfolding d2_def Let_def by (intro keeps_intros keeps_emits Suc.prems)
  then have "keeps a (d2\<lparr>dv_mem := m\<rparr>)" for m by (rule keeps_intros)
  with \<open>keeps a d2\<close> Suc show ?case
    by (auto simp: h Let_def d2_def [unfolded Let_def, symmetric] split: prod.splits if_splits)
qed simp

lemma tx_kick_keeps: "tx_kick handle guest fuel f d i = Inr (k, d') \<Longrightarrow> keeps d d'"
  by (auto simp: tx_kick_def Let_def tbind_eq_Inr_iff split: if_splits
      intro!: keeps_intros elim!: tx_loop_keeps)

lemma backend_keeps: "iface_keeps (backend_iface handle guest fuel)"
  by (auto simp: iface_keeps_def backend_iface_def set_features_def queue_set_started_def
      vu_set_queue_handler_def Let_def tbind_eq_Inr_iff intro!: keeps_intros dest: tx_kick_keeps)

section \<open>The main loop keeps its state\<close>

definition be_ok :: "backend \<Rightarrow> bool" where
  "be_ok b \<longleftrightarrow> device_ok (be_dev b) \<and> watches_ok (be_watches b)"

fun step_ok :: "be_step \<Rightarrow> bool" where
  "step_ok (Serving b) \<longleftrightarrow> be_ok b"
| "step_ok (Disconnected b) \<longleftrightarrow> be_ok b"
| "step_ok (Exited rc calls) \<longleftrightarrow> True"

lemma after_calls_ok: "be_ok b \<Longrightarrow> device_ok d \<Longrightarrow> step_ok (after_calls b d)"
  using callbacks_ok [of "be_watches b" "drop (length (dv_trace (be_dev b))) (dv_trace d)"]
  by (auto simp: after_calls_def be_ok_def Let_def split: prod.splits)

text \<open>
  The library's contract with a device implementation as an interface: callbacks that keep the
  device's shape. A device served with such callbacks stays well-formed.
\<close>

locale device_callbacks =
  fixes iface :: VuDevIface
  assumes callbacks_keep: "iface_keeps iface"
begin

lemma dispatch_ok: "device_ok d \<Longrightarrow> vu_dispatch iface d = Inr (ok, d') \<Longrightarrow> device_ok d'"
  using dispatch_evolves [OF callbacks_keep] by (auto simp: evolves_def)

lemma kick_ok: "device_ok d \<Longrightarrow> vu_kick_cb iface d i = Inr d' \<Longrightarrow> device_ok d'"
  using kick_cb_evolves [OF callbacks_keep] by (auto simp: evolves_def)

lemma watches_step: "be_ok b \<Longrightarrow> run_watches iface ps b = Inr s \<Longrightarrow> step_ok s"
proof (induction ps arbitrary: b)
  case (Cons p ps)
  obtain fd re where p: "p = (fd, re)" by fastforce
  show ?case
  proof (cases "re AND POLLIN = 0 \<or> map_of (be_watches b) fd = None")
    case True
    then have "run_watches iface (p # ps) b = run_watches iface ps b" by (auto simp: p)
    with Cons show ?thesis by simp
  next
    case False
    with Cons.prems p obtain i d where k: "vu_kick_cb iface (be_dev b) i = Inr d"
      and s: "(case after_calls b d of Serving b1 \<Rightarrow> run_watches iface ps b1 | s \<Rightarrow> Inr s) = Inr s"
      by (auto simp: tbind_eq_Inr_iff split: option.splits)
    from Cons.prems(1) kick_ok [OF _ k] have "step_ok (after_calls b d)"
      by (intro after_calls_ok) (simp_all add: be_ok_def)
    with s Cons.IH show ?thesis by (cases "after_calls b d") auto
  qed
qed auto

lemma round_step:
  assumes "be_ok b" and "be_round iface polled b = Inr s"
  shows "step_ok s"
proof (cases "\<exists>rev0 revs. polled = Some (rev0, revs) \<and> rev0 AND (POLLIN OR POLLHUP) \<noteq> 0")
  case True
  show ?thesis
  proof (cases "\<exists>t. vu_dispatch iface (be_dev b) = Inl t")
    case False
    with True assms(2) obtain revs ok d where d: "vu_dispatch iface (be_dev b) = Inr (ok, d)"
      and s: "(case after_calls b d of
                 Serving b1 \<Rightarrow> if \<not> ok then Inr (Disconnected b1)
                   else run_watches iface (zip (map fst (be_watches b)) revs) b1
               | s \<Rightarrow> Inr s) = Inr s"
      by (auto simp: be_round_def Let_def split: sum.splits)
    from assms(1) dispatch_ok [OF _ d] have "step_ok (after_calls b d)"
      by (intro after_calls_ok) (simp_all add: be_ok_def)
    with s watches_step show ?thesis by (cases "after_calls b d") (auto split: if_splits)
  next
    case ended: True
    then obtain t where t: "vu_dispatch iface (be_dev b) = Inl t" by blast
    with True assms(2) have "s = at_exit b (exit_calls iface (be_dev b))"
      by (cases t) (auto simp: be_round_def Let_def)
    then show ?thesis by (simp add: at_exit_def Let_def)
  qed
next
  case False
  with assms watches_step show ?thesis by (auto simp: be_round_def Let_def split: option.splits if_splits)
qed

lemma loop_step: "be_ok b \<Longrightarrow> be_loop iface ps b = Inr s \<Longrightarrow> step_ok s"
proof (induction ps arbitrary: b)
  case (Cons p ps)
  then obtain s1 where r: "be_round iface p b = Inr s1"
    and s: "(case s1 of Serving b1 \<Rightarrow> be_loop iface ps b1 | _ \<Rightarrow> Inr s1) = Inr s"
    by (auto simp: tbind_eq_Inr_iff)
  from round_step [OF Cons.prems(1) r] s Cons.IH show ?case by (cases s1) auto
qed auto

end

interpretation served: device_callbacks "backend_iface handle guest fuel" for handle guest fuel
  by unfold_locales (rule backend_keeps)

text \<open>
  C9: \<^bold>\<open>The backend's state stays well-formed.\<close> Whatever QEMU sends and \<open>poll\<close> reports, after any number of
  rounds the region and queue arrays have their shape, and the watch table has at most 32 entries,
  no two for one descriptor.
\<close>

theorem backend_stays_well_formed:
  assumes "vu_init dev0 2 fd True = Inr (True, dev)"
    and "be_loop (backend_iface handle guest fuel) polls \<lparr>be_dev = dev, be_watches = []\<rparr> = Inr (Serving b)"
  shows "length (dv_regions (be_dev b)) = 32 \<and> unat (dv_nregions (be_dev b)) \<le> 32 \<and>
    length (dv_vq (be_dev b)) = unat (dv_max_queues (be_dev b)) \<and>
    distinct (map fst (be_watches b)) \<and> length (be_watches b) \<le> 32"
proof -
  have "be_ok \<lparr>be_dev = dev, be_watches = []\<rparr>"
    using init_device_ok [OF assms(1)] by (simp add: be_ok_def watches_ok_def)
  with assms(2) served.loop_step have "step_ok (Serving b)" by blast
  then show ?thesis by (simp add: be_ok_def device_ok_def watches_ok_def MAXW_def VHOST_USER_MAX_RAM_SLOTS_def)
qed

theorem backend_stays_well_formed_witness:
  "\<exists>b. be_loop (backend_iface vlog_virtq_handle (\<lambda>_ _ m. (m, False)) 5) [Some (POLLIN, []), Some (0, [])]
          \<lparr>be_dev = demo_initial, be_watches = []\<rparr> = Inr (Serving b) \<and>
        unat (dv_nregions (be_dev b)) \<le> 32 \<and> distinct (map fst (be_watches b))"
proof -
  let ?r = "be_loop (backend_iface vlog_virtq_handle (\<lambda>_ _ m. (m, False)) 5) [Some (POLLIN, []), Some (0, [])]
    \<lparr>be_dev = demo_initial, be_watches = []\<rparr>"
  have "(case ?r of Inr (Serving b) \<Rightarrow> True | _ \<Rightarrow> False)" by code_simp
  then obtain b where b: "?r = Inr (Serving b)" by (auto split: sum.splits be_step.splits)
  from backend_stays_well_formed [OF demo_init b] b show ?thesis by blast
qed

section \<open>No wakeup is lost\<close>

text \<open>
  What the kick handler relies on. The queue handler consumes all that is available when it is
  called and counts it, and leaves the available ring and the event index alone. The guest
  leaves the event index alone, and kicks when it has published past it.
\<close>

definition handler_ok :: "virtq_handler \<Rightarrow> u64 \<Rightarrow> u64 \<Rightarrow> bool" where
  "handler_ok handle av aev \<longleftrightarrow>
     (\<forall>vq rs m n vq' m' recs. handle vq rs m = (n, vq', m', recs) \<longrightarrow>
        q_avail vq' = q_avail vq \<and> q_used vq' = q_used vq \<and> q_num vq' = q_num vq \<and>
        (q_avail vq = av \<longrightarrow>
           q_last_avail vq' = avail_idx m av \<and> n = uint (avail_idx m av - q_last_avail vq) \<and>
           avail_idx m' av = avail_idx m av \<and> load16 m' aev = load16 m aev))"

definition guest_ok :: "guest \<Rightarrow> u64 \<Rightarrow> u64 \<Rightarrow> bool" where
  "guest_ok guest av aev \<longleftrightarrow>
     (\<forall>i m m' k. guest i m = (m', k) \<longrightarrow>
        load16 m' aev = load16 m aev \<and>
        (avail_idx m' av \<noteq> avail_idx m av \<and> vring_need_event (load16 m aev) (avail_idx m' av) (avail_idx m av) \<longrightarrow> k))"

definition quiet_from :: "guest \<Rightarrow> nat \<Rightarrow> u64 \<Rightarrow> bool" where
  "quiet_from guest n av \<longleftrightarrow> (\<forall>i m. n \<le> i \<longrightarrow> avail_idx (fst (guest i m)) av = avail_idx m av)"

text \<open>Publishing from the very index the event index names always asks for a kick.\<close>

lemma need_event_at: "new \<noteq> old \<Longrightarrow> vring_need_event old new old"
  unfolding vring_need_event_iff by (intro exI [of _ 0]) (simp add: unat_gt_0)

lemma emits_frame:
  "dv_mem (fold (\<lambda>s d. vu_emit d (EvSinkEmit s)) recs d) = dv_mem d"
  "dv_vq (fold (\<lambda>s d. vu_emit d (EvSinkEmit s)) recs d) = dv_vq d"
  by (induction recs arbitrary: d) (simp_all add: vu_emit_def)

text \<open>One round, from an armed queue: the second look finds nothing new, or there was a kick or progress.\<close>

lemma tx_round:
  assumes "handler_ok handle av aev" and "guest_ok guest av aev" and "q_avail vq = av"
    and "span (av + 2) 2 \<inter> span aev 2 = {}" and "load16 m aev = q_last_avail vq"
    and "handle vq rs m = (n, vq1, m1, recs)" and "guest (2 * i) m1 = (m2, k1)"
    and "guest (2 * i + 1) (store16 m2 aev (q_last_avail vq1)) = (m4, k2)"
  shows "load16 m4 aev = q_last_avail vq1"
    and "n = 0 \<Longrightarrow> avail_idx m4 av = q_last_avail vq1 \<or> k1 \<or> k2"
    and "0 \<le> n" and "n \<le> 65535"
    and "quiet_from guest (2 * i) av \<Longrightarrow> avail_idx m4 av = q_last_avail vq1"
proof -
  let ?m3 = "store16 m2 aev (q_last_avail vq1)"
  have h: "q_last_avail vq1 = avail_idx m av" "n = uint (avail_idx m av - q_last_avail vq)"
      "avail_idx m1 av = avail_idx m av" "load16 m1 aev = load16 m aev"
    using assms(1,3,6) unfolding handler_ok_def by metis+
  have st: "avail_idx ?m3 av = avail_idx m2 av" "load16 ?m3 aev = q_last_avail vq1"
    using assms(4) by (simp_all add: avail_idx_def mem_simps Int_commute)
  have g1: "load16 m2 aev = load16 m1 aev" "avail_idx m2 av \<noteq> avail_idx m1 av \<Longrightarrow>
      vring_need_event (load16 m1 aev) (avail_idx m2 av) (avail_idx m1 av) \<Longrightarrow> k1"
    using assms(2,7) unfolding guest_ok_def by metis+
  have g2: "load16 m4 aev = load16 ?m3 aev" "avail_idx m4 av \<noteq> avail_idx ?m3 av \<Longrightarrow>
      vring_need_event (load16 ?m3 aev) (avail_idx m4 av) (avail_idx ?m3 av) \<Longrightarrow> k2"
    using assms(2,8) unfolding guest_ok_def by metis+
  show "load16 m4 aev = q_last_avail vq1" using g2(1) st(2) by simp
  have "uint (x :: u16) \<le> 65535" for x using uint_lt2p [of x] by simp
  then show "0 \<le> n" "n \<le> 65535" by (simp_all add: h(2))
  show "avail_idx m4 av = q_last_avail vq1 \<or> k1 \<or> k2" if "n = 0"
  proof -
    have "avail_idx m av - q_last_avail vq = 0" using that h(2) by (simp only: uint_0_iff)
    then have last: "q_last_avail vq = avail_idx m av" by simp
    consider "avail_idx m2 av \<noteq> avail_idx m av" | "avail_idx m2 av = avail_idx m av" "avail_idx m4 av \<noteq> avail_idx m av"
      | "avail_idx m4 av = avail_idx m av" by blast
    then show ?thesis
    proof cases
      case 1
      then have "k1" using g1(2) h assms(5) last need_event_at by simp
      then show ?thesis by simp
    next
      case 2
      then have "k2" using g2(2) h st need_event_at by simp
      then show ?thesis by simp
    qed (simp add: h)
  qed
  show "avail_idx m4 av = q_last_avail vq1" if "quiet_from guest (2 * i) av"
  proof -
    have "avail_idx (fst (guest (2 * i) m1)) av = avail_idx m1 av"
      "avail_idx (fst (guest (2 * i + 1) ?m3)) av = avail_idx ?m3 av"
      using that unfolding quiet_from_def by auto
    then show ?thesis using assms(7,8) h st by simp
  qed
qed

lemma tx_loop_armed:
  assumes "handler_ok handle av aev" and "guest_ok guest av aev" and "quiet_from guest (2 * N) av"
    and "span (av + 2) 2 \<inter> span aev 2 = {}" and "N \<le> 32000"
  shows "q_avail vq = av \<Longrightarrow> tx_avail_event vq = aev \<Longrightarrow> i \<le> N \<Longrightarrow> N < i + k \<Longrightarrow>
    load16 (dv_mem dev) aev = q_last_avail vq \<Longrightarrow> q < length (dv_vq dev) \<Longrightarrow>
    0 \<le> sum0 \<Longrightarrow> sum0 \<le> 65535 * int i \<Longrightarrow>
    \<exists>t kk dev'. tx_loop handle guest True rs q k i vq sum0 kicked dev = Inr (t, kk, dev') \<and>
      load16 (dv_mem dev') aev = vq_last_avail_idx (dv_vq dev' ! q) \<and>
      (kk \<or> avail_idx (dv_mem dev') av = vq_last_avail_idx (dv_vq dev' ! q))"
proof (induction k arbitrary: i vq sum0 kicked dev)
  case (Suc k)
  obtain n vq1 m1 recs where h: "handle vq rs (dv_mem dev) = (n, vq1, m1, recs)" by (metis prod_cases4)
  obtain m2 k1 where g1: "guest (2 * i) m1 = (m2, k1)" by fastforce
  obtain m4 k2 where g2: "guest (2 * i + 1) (store16 m2 aev (q_last_avail vq1)) = (m4, k2)" by fastforce
  note r = tx_round [OF assms(1,2) Suc.prems(1) assms(4) Suc.prems(5) h g1 g2]
  define dev1 where "dev1 = fold (\<lambda>s d. vu_emit d (EvSinkEmit s)) recs (dev\<lparr>dv_mem := m1\<rparr>)"
  define dev2 where "dev2 = put_vq dev1 q ((dv_vq dev1 ! q)\<lparr>vq_last_avail_idx := q_last_avail vq1\<rparr>)"
  have d2: "dv_mem dev2 = m1" "vq_last_avail_idx (dv_vq dev2 ! q) = q_last_avail vq1" "q < length (dv_vq dev2)"
    using Suc.prems(6) by (simp_all add: dev2_def dev1_def emits_frame put_vq_def)
  have v: "q_avail vq1 = av" "tx_avail_event vq1 = aev"
    using assms(1) h Suc.prems(1,2) unfolding handler_ok_def tx_avail_event_def by metis+
  have bound: "0 \<le> sum0 + n" "sum0 + n \<le> 65535 * int (Suc i)" "sum0 + n < 2 ^ 31"
    using Suc.prems(3,7,8) r(3,4) assms(5) by simp_all
  have step: "tx_loop handle guest True rs q (Suc k) i vq sum0 kicked dev =
     (if avail_idx m4 av = q_last_avail vq1 \<or> n = 0
      then Inr (sum0 + n, kicked \<or> k1 \<or> k2, dev2\<lparr>dv_mem := m4\<rparr>)
      else tx_loop handle guest True rs q k (Suc i) vq1 (sum0 + n) (kicked \<or> k1 \<or> k2) (dev2\<lparr>dv_mem := m4\<rparr>))"
    using bound g1 g2 v by (simp add: h Let_def dev1_def [symmetric] dev2_def [symmetric] d2)
  show ?case
  proof (cases "avail_idx m4 av = q_last_avail vq1 \<or> n = 0")
    case True
    with r(1,2) d2 show ?thesis unfolding step if_P [OF True] by auto
  next
    case False
    then have "i \<noteq> N" using r(5) assms(3) by auto
    then have "Suc i \<le> N" "N < Suc i + k" using Suc.prems(3,4) by simp_all
    with False show ?thesis
      unfolding step if_not_P [OF False]
      by (intro Suc.IH) (use v r(1) d2 bound in simp_all)
  qed
qed simp

text \<open>
  C8: \<^bold>\<open>No wakeup is lost.\<close> With the event index negotiated and armed (it names the next entry), let the kick
  handler run while the guest publishes more and more entries, stopping at some point. The handler
  returns; the event index is armed again; and all published entries are consumed or the guest has
  kicked again meanwhile. So the queue never stalls with work in it.
\<close>

theorem no_wakeup_is_lost:
  assumes "vu_get_queue dev (int q) = Inr vuq" and "vq_vring vuq = r" and "ring_desc r \<noteq> 0"
    and "ring_avail r \<noteq> 0" and "ring_used r \<noteq> 0" and "ring_num r \<noteq> 0" and "bit f VIRTIO_RING_F_EVENT_IDX"
    and "aev = used_ring_addr (ring_used r) (ucast (ucast (ring_num r) :: u16))"
    and "handler_ok handle (ring_avail r) aev" and "guest_ok guest (ring_avail r) aev"
    and "quiet_from guest (2 * N) (ring_avail r)" and "N \<le> 32000"
    and "span (ring_avail r + 2) 2 \<inter> span aev 2 = {}" and "load16 (dv_mem dev) aev = vq_last_avail_idx vuq"
  shows "\<exists>kicked dev'. tx_kick handle guest (N + 1) f dev q = Inr (kicked, dev') \<and>
    load16 (dv_mem dev') aev = vq_last_avail_idx (dv_vq dev' ! q) \<and>
    (kicked \<or> avail_idx (dv_mem dev') (ring_avail r) = vq_last_avail_idx (dv_vq dev' ! q))"
proof -
  let ?vq = "\<lparr>q_desc = ring_desc r, q_avail = ring_avail r, q_used = ring_used r, q_num = ucast (ring_num r),
    q_last_avail = vq_last_avail_idx vuq\<rparr>"
  have q: "q < length (dv_vq dev)"
    using assms(1) by (auto simp: vu_get_queue_def get_vq_def split: if_splits)
  have "\<exists>t kk dev'. tx_loop handle guest True (build_mem dev) q (N + 1) 0 ?vq 0 False dev = Inr (t, kk, dev') \<and>
      load16 (dv_mem dev') aev = vq_last_avail_idx (dv_vq dev' ! q) \<and>
      (kk \<or> avail_idx (dv_mem dev') (ring_avail r) = vq_last_avail_idx (dv_vq dev' ! q))"
    by (rule tx_loop_armed [OF assms(9-11,13,12)])
      (use assms(8,14) q in \<open>simp_all add: tx_avail_event_def\<close>)
  then show ?thesis
    using assms(1-7) by (auto simp: tx_kick_def vu_emit_def)
qed

text \<open>A handler that consumes everything, and a guest that publishes five entries during the first round.\<close>

definition drain :: virtq_handler where
  "drain vq rs m =
     (uint (avail_idx m (q_avail vq) - q_last_avail vq), vq\<lparr>q_last_avail := avail_idx m (q_avail vq)\<rparr>, m, [])"

definition late_guest :: guest where
  "late_guest i m = (if i = 0 \<and> avail_idx m 0x200 = 0 then (store16 m 0x202 5, True) else (m, False))"

definition demo_kicked :: VuDev where
  "demo_kicked =
     demo_initial\<lparr>dv_mem := (\<lambda>_. 0), dv_vq := [fresh_vq, fresh_vq\<lparr>vq_vring :=
       \<lparr>ring_num = 4, ring_desc = 0x100, ring_avail = 0x200, ring_used = 0x300, ring_log_guest_addr = 0,
        ring_flags = 0\<rparr>\<rparr>]\<rparr>"

theorem no_wakeup_is_lost_witness:
  "\<exists>kicked dev'. tx_kick drain late_guest (1 + 1) (push_bit 29 1) demo_kicked 1 = Inr (kicked, dev') \<and>
    load16 (dv_mem dev') 0x324 = vq_last_avail_idx (dv_vq dev' ! 1) \<and>
    (kicked \<or> avail_idx (dv_mem dev') 0x200 = vq_last_avail_idx (dv_vq dev' ! 1))"
proof -
  have apart: "span (0x200 + 2) 2 \<inter> span (0x324 :: u64) 2 = {}" by (auto simp: span_2)
  have a: "0x324 = used_ring_addr (ring_used (vq_vring (dv_vq demo_kicked ! 1)))
      (ucast (ucast (ring_num (vq_vring (dv_vq demo_kicked ! 1))) :: u16))" by code_simp
  have h: "handler_ok drain 0x200 0x324" by (auto simp: handler_ok_def drain_def)
  have g: "guest_ok late_guest 0x200 0x324"
    using apart by (auto simp: guest_ok_def late_guest_def mem_simps split: if_splits)
  have q: "quiet_from late_guest (2 * 1) 0x200" by (simp add: quiet_from_def late_guest_def)
  have v: "vu_get_queue demo_kicked (int 1) = Inr (dv_vq demo_kicked ! 1)"
    "load16 (dv_mem demo_kicked) 0x324 = vq_last_avail_idx (dv_vq demo_kicked ! 1)"
    "bit (push_bit 29 1 :: u64) VIRTIO_RING_F_EVENT_IDX"
    by (simp_all add: vu_get_queue_def get_vq_def demo_kicked_def fresh_vq_def load16_def VIRTIO_RING_F_EVENT_IDX_def
        bit_simps, code_simp)
  have r: "vq_vring (dv_vq demo_kicked ! 1) = \<lparr>ring_num = 4, ring_desc = 0x100, ring_avail = 0x200, ring_used = 0x300,
      ring_log_guest_addr = 0, ring_flags = 0\<rparr>" by (simp add: demo_kicked_def)
  from no_wakeup_is_lost [OF v(1) r _ _ _ _ v(3) a [unfolded r] _ _ _ _ _ v(2), of drain late_guest 1]
  show ?thesis using h g q apart by simp
qed

end
