(* ===== verification/BackendLog.thy ===== *)
theory BackendLog
  imports Backend
begin

text \<open>
  A whole run of the backend's \<open>main\<close> (\<^verbatim>\<open>project_1/vhost/backend.c\<close>) and the log file it leaves: the
  main loop, the kick handler, the teardown of the device, the sink and the log store together.
\<close>

section \<open>What a run emits\<close>

definition emitted :: "vu_event list \<Rightarrow> string list" where
  "emitted = List.map_filter (\<lambda>e. case e of EvSinkEmit b \<Rightarrow> Some b | _ \<Rightarrow> None)"

lemma emitted_simps [simp]:
  "emitted [] = []"
  "emitted (e # es) = (case e of EvSinkEmit b \<Rightarrow> b # emitted es | _ \<Rightarrow> emitted es)"
  "emitted (es @ fs) = emitted es @ emitted fs"
  by (auto simp: emitted_def List.map_filter_def split: vu_event.splits)

lemma g_sink_emit_all: "g_sink s es = emit_all s (emitted es)"
  by (induction s es rule: g_sink.induct) simp_all

text \<open>The log of a sink just opened is the records of the emitted buffers, numbered from 0.\<close>

lemma opened_sink_log:
  assumes "list_all (\<lambda>b. length b < 2 ^ 32) bufs"
  shows "\<exists>snk. vlog_sink_open True True True = Some snk \<and>
    vlog_sink_close (Some (emit_all snk bufs)) = Some (numbered 0 (List.map_filter sink_parse bufs))"
proof -
  obtain snk where snk: "vlog_sink_open True True True = Some snk" "snk_seq snk = 0"
      "ls_stream (snk_store snk) = []"
    by (simp add: vlog_sink_open_def logstore_open_def ls_stream_def)
  have "snk_store (emit_all snk bufs) = fst (append_all logstore_append (snk_store snk) 0 (List.map_filter sink_parse bufs))"
    using emit_all_append_all [OF assms, of snk] snk(2) by (metis fst_conv)
  then have "ls_stream (snk_store (emit_all snk bufs)) = numbered 0 (List.map_filter sink_parse bufs)"
    using file_store.contents_append_all [OF short_msgs_parse [OF assms]] snk(3) by simp
  with snk(1) show ?thesis by (simp add: vlog_sink_close_def logstore_close_def ls_stream_def)
qed

section \<open>Tearing down emits nothing\<close>

definition same_log :: "VuDev \<Rightarrow> VuDev \<Rightarrow> bool" where
  "same_log d d' \<longleftrightarrow> emitted (dv_trace d') = emitted (dv_trace d)"

lemma same_log_fold: "(\<And>x d. same_log d (f x d)) \<Longrightarrow> same_log d (fold f xs d)"
  by (induction xs arbitrary: d) (simp_all add: same_log_def)

lemma deinit_queue_same_log: "same_log d (deinit_queue d i)"
  by (simp add: same_log_def deinit_queue_def close_call_fd_def close_kick_fd_def close_err_fd_def put_vq_def
      vu_emit_def Let_def)

lemma deinit_same_log: "emitted (dv_trace (vu_deinit dev)) = emitted (dv_trace dev)"
proof -
  define d1 where "d1 = fold (\<lambda>r d. if r_mmap_addr r \<noteq> - 1
      then vu_emit d (EvMunmap (r_mmap_addr r) (r_size r + r_mmap_offset r)) else d)
      (take (unat (dv_nregions dev)) (dv_regions dev)) dev"
  define d2 where "d2 = fold (\<lambda>i d. deinit_queue d i) [0..<unat (dv_max_queues dev)] (d1\<lparr>dv_nregions := 0\<rparr>)"
  have "same_log dev d1"
    unfolding d1_def by (rule same_log_fold) (simp add: same_log_def vu_emit_def)
  moreover have "same_log (d1\<lparr>dv_nregions := 0\<rparr>) d2"
    unfolding d2_def by (rule same_log_fold) (rule deinit_queue_same_log)
  ultimately have e: "emitted (dv_trace d2) = emitted (dv_trace dev)" by (simp add: same_log_def)
  show ?thesis
    unfolding vu_deinit_def d1_def [symmetric] d2_def [symmetric] Let_def
    by (simp add: vu_close_log_def vu_emit_def e)
qed

section \<open>The log of a run\<close>

text \<open>
  The calls of a run of the main loop so far, up to its \<open>exit\<close> if it called one; the file
  that emitted buffers make.
\<close>

fun run_calls :: "be_step \<Rightarrow> vu_event list" where
  "run_calls (Serving b) = dv_trace (be_dev b)"
| "run_calls (Disconnected b) = dv_trace (be_dev b)"
| "run_calls (Exited rc calls) = calls"

definition log_of :: "vu_event list \<Rightarrow> string" where
  "log_of calls = numbered 0 (List.map_filter sink_parse (emitted calls))"

lemma be_loop_append:
  "be_loop iface (ps @ qs) b =
     tbind (be_loop iface ps b) (\<lambda>s. case s of Serving b1 \<Rightarrow> be_loop iface qs b1 | _ \<Rightarrow> Inr s)"
proof (induction ps arbitrary: b)
  case (Cons p ps)
  show ?case by (cases "be_round iface p b") (auto simp: Cons split: be_step.splits)
qed simp

text \<open>
  A front end that is gone: \<open>recvmsg\<close> gives 0, the request is \<open>VHOST_USER_NONE\<close>, and the process calls
  \<open>exit (0)\<close>.
\<close>

lemma gone_exits:
  assumes "dv_recv (be_dev b) (length (dv_trace (be_dev b))) = RecvEof" and "if_process_msg iface = None"
    and "rev0 AND (POLLIN OR POLLHUP) \<noteq> 0"
  shows "be_round iface (Some (rev0, revs)) b =
    Inr (Exited 0 (dv_trace (be_dev b) @ [EvRecv (dv_sock (be_dev b))]))"
proof -
  have read: "vu_message_read_default (be_dev b) (dv_sock (be_dev b)) zero_msg =
      Inr (True, vu_emit (be_dev b) (EvRecv (dv_sock (be_dev b))), zero_msg)"
    using assms(1) by (simp add: vu_message_read_default_def vu_emit_def zero_msg_def Let_def)
  then have "vu_dispatch iface (be_dev b) = Inl ExitCalled"
    using assms(2) by (simp add: vu_dispatch_def vu_process_message_def zero_msg_def Let_def)
  with assms read show ?thesis
    by (simp add: be_round_def at_exit_def exit_calls_def vu_emit_def)
qed

lemma be_loop_gone:
  assumes "be_loop iface polls b0 = Inr (Serving b)"
    and "dv_recv (be_dev b) (length (dv_trace (be_dev b))) = RecvEof" and "if_process_msg iface = None"
    and "rev0 AND (POLLIN OR POLLHUP) \<noteq> 0"
  shows "be_loop iface (polls @ [Some (rev0, revs)]) b0 =
    Inr (Exited 0 (dv_trace (be_dev b) @ [EvRecv (dv_sock (be_dev b))]))"
  using assms(1) gone_exits [OF assms(2-4)] by (simp add: be_loop_append)

lemma g_sink_log:
  assumes "list_all (\<lambda>buf. length buf < 2 ^ 32) (emitted calls)"
    and "vlog_sink_open True True True = Some snk"
  shows "vlog_sink_close (Some (g_sink snk calls)) = Some (log_of calls)"
  using opened_sink_log [OF assms(1)] assms(2) by (auto simp: g_sink_emit_all log_of_def)

lemma opened_sink_empty_buf: "vlog_sink_open True True True = Some snk \<Longrightarrow> ls_buf (snk_store snk) = []"
  by (auto simp: vlog_sink_open_def logstore_open_def)

lemma emit_flushed: "ls_buf (snk_store k) = [] \<Longrightarrow> ls_buf (snk_store (vlog_sink_emit k b n)) = []"
  by (auto simp: vlog_sink_emit_def Let_def logstore_append_flushed split: prod.splits)

lemma g_sink_flushed: "ls_buf (snk_store k) = [] \<Longrightarrow> ls_buf (snk_store (g_sink k calls)) = []"
  by (induction k calls rule: g_sink.induct) (simp_all add: emit_flushed)

lemma g_sink_disk:
  assumes "list_all (\<lambda>buf. length buf < 2 ^ 32) (emitted calls)"
    and "vlog_sink_open True True True = Some snk"
  shows "ls_disk (snk_store (g_sink snk calls)) = log_of calls"
  using g_sink_log [OF assms] g_sink_flushed [OF opened_sink_empty_buf [OF assms(2)], of calls]
  by (simp add: vlog_sink_close_def logstore_close_def)

lemma backend_main_ends:
  assumes "3 \<le> argc" and "vu_init (dev0\<lparr>dv_trace := []\<rparr>) 2 cfd True = Inr (True, dev)"
    and "be_loop iface polls \<lparr>be_dev = dev, be_watches = []\<rparr> = Inr s"
    and "list_all (\<lambda>buf. length buf < 2 ^ 32) (emitted (run_calls s))"
    and "\<nexists>b. s = Serving b"
  shows "backend_main iface argc (vlog_sink_open True True True) True cfd dev0 polls =
    Inr (case s of Exited rc calls \<Rightarrow> rc | _ \<Rightarrow> 0, Some (log_of (run_calls s)))"
proof -
  obtain snk where snk: "vlog_sink_open True True True = Some snk" using opened_sink_log [of "[]"] by auto
  have "\<not> cfd < 0" using assms(2) by (auto simp: vu_init_def)
  moreover have "emitted (dv_trace (vu_deinit d)) = emitted (dv_trace d)" for d by (rule deinit_same_log)
  ultimately show ?thesis
    using assms g_sink_log [OF _ snk]
    by (cases s) (auto simp: backend_main_def snk log_of_def Let_def)
qed

text \<open>
  C10: \<^bold>\<open>The backend's log is what its queue handler emitted.\<close> Let the program's own device implementation, with any
  queue handler, run after the sink has opened and the connection come up, with whatever QEMU sends and \<open>poll\<close> reports.
  However the run has ended (\<open>exit (0)\<close> on the message of zeros, \<open>exit (1)\<close> from a panic, or a \<open>break\<close> of the loop),
  the log file then holds exactly the records of the buffers emitted until then, each parsed as one line, in the
  order in which they were emitted and numbered from 0, and the status is that of the \<open>exit\<close>, 0 after a \<open>break\<close>. While it is still
  serving the file already holds them all, and when the front end has gone (the next \<open>recvmsg\<close> gives end of file), the next
  round ends the process with status 0 and that log. Buffers are shorter than 4 GiB.
\<close>

theorem backend_log_is_what_was_emitted:
  assumes "3 \<le> argc" and "vu_init (dev0\<lparr>dv_trace := []\<rparr>) 2 cfd True = Inr (True, dev)"
    and "be_loop (backend_iface handle guest fuel) polls \<lparr>be_dev = dev, be_watches = []\<rparr> = Inr s"
    and "list_all (\<lambda>buf. length buf < 2 ^ 32) (emitted (run_calls s))"
    and "vlog_sink_open True True True = Some snk"
  shows "let main = backend_main (backend_iface handle guest fuel) argc (Some snk) True cfd dev0
    in case s of
         Disconnected b \<Rightarrow> main polls = Inr (0, Some (log_of (dv_trace (be_dev b))))
       | Exited rc calls \<Rightarrow> main polls = Inr (rc, Some (log_of calls))
       | Serving b \<Rightarrow>
           ls_disk (snk_store (g_sink snk (dv_trace (be_dev b)))) = log_of (dv_trace (be_dev b)) \<and>
           (\<forall>rev0 revs. rev0 AND (POLLIN OR POLLHUP) \<noteq> 0 \<longrightarrow>
              dv_recv (be_dev b) (length (dv_trace (be_dev b))) = RecvEof \<longrightarrow>
              main (polls @ [Some (rev0, revs)]) = Inr (0, Some (log_of (dv_trace (be_dev b)))))"
proof (cases s)
  case (Serving b)
  let ?iface = "backend_iface handle guest fuel"
  let ?calls = "dv_trace (be_dev b) @ [EvRecv (dv_sock (be_dev b))]"
  have em: "emitted ?calls = emitted (dv_trace (be_dev b))" by simp
  have none: "if_process_msg ?iface = None" by (simp add: backend_iface_def)
  have "backend_main ?iface argc (Some snk) True cfd dev0 (polls @ [Some (rev0, revs)]) =
      Inr (0, Some (log_of (dv_trace (be_dev b))))"
    if "rev0 AND (POLLIN OR POLLHUP) \<noteq> 0" "dv_recv (be_dev b) (length (dv_trace (be_dev b))) = RecvEof" for rev0 revs
    using backend_main_ends [OF assms(1,2) be_loop_gone [OF assms(3) [unfolded Serving] that(2) none that(1)], of revs]
      assms(4,5) Serving em by (simp add: log_of_def)
  with Serving g_sink_disk [OF _ assms(5)] assms(4) show ?thesis by (simp add: Let_def)
next
  case (Disconnected b)
  with backend_main_ends [OF assms(1-4)] assms(5) show ?thesis by simp
next
  case (Exited rc calls)
  with backend_main_ends [OF assms(1-4)] assms(5) show ?thesis by simp
qed

text \<open>
  The witness: a front end that sets up the memory and the transmit queue, kicks it twice and goes. The
  handler emits one record per call.
\<close>

definition log_session :: VuDev where
  "log_session =
     demo_dev\<lparr>dv_trace := [], dv_sys := (\<lambda>_. 0x5000),
              dv_recv := (\<lambda>i.
                if i = 1 then RecvHeader 5 1 72 [7] 72 demo_table
                else if i < 5 then RecvHeader 8 1 8 [] 8 (bytes_at 0 [1,0,0,0,8] (\<lambda>_. 0))
                else if i < 6 then RecvHeader 9 1 40 [] 40
                  (bytes_at 0 [1] (bytes_at 9 [0x90] (bytes_at 16 [0,0x92] (bytes_at 24 [0,0x91] (\<lambda>_. 0)))))
                else if i < 10 then RecvHeader 12 1 8 [20] 8 (bytes_at 0 [1] (\<lambda>_. 0))
                else RecvEof)\<rparr>"

definition greeter :: virtq_handler where
  "greeter vq regions m = (1, vq, m, [''3 hi'' @ [newline]])"

definition log_polls :: "(u16 \<times> u16 list) option list" where
  "log_polls = replicate 4 (Some (POLLIN, [])) @ [Some (0, [POLLIN]), Some (0, [POLLIN])]"

definition log_iface :: VuDevIface where
  "log_iface = backend_iface greeter (\<lambda>_ _ m. (m, False)) 5"

definition log_initial :: VuDev where
  "log_initial = snd (projr (vu_init log_session 2 5 True))"

lemma log_init: "vu_init (log_session\<lparr>dv_trace := []\<rparr>) 2 5 True = Inr (True, log_initial)"
proof -
  have "log_session\<lparr>dv_trace := []\<rparr> = log_session" by (simp add: log_session_def)
  moreover have "vu_init log_session 2 5 True = Inr (True, log_initial)"
    unfolding log_initial_def by (rule result_pair) code_simp+
  ultimately show ?thesis by simp
qed

theorem backend_log_is_what_was_emitted_witness:
  "\<exists>snk. vlog_sink_open True True True = Some snk \<and>
     backend_main log_iface 3 (Some snk) True 5 log_session (log_polls @ [Some (POLLHUP, [])]) =
       Inr (0, Some (numbered 0 [(3, ''hi''), (3, ''hi'')]))"
proof -
  obtain snk where snk: "vlog_sink_open True True True = Some snk" using opened_sink_log [of "[]"] by auto
  let ?r = "be_loop log_iface log_polls \<lparr>be_dev = log_initial, be_watches = []\<rparr>"
  let ?bufs = "[''3 hi'' @ [newline], ''3 hi'' @ [newline]]"
  have "(case ?r of
      Inr (Serving b) \<Rightarrow> emitted (dv_trace (be_dev b)) = ?bufs \<and>
        (case dv_recv (be_dev b) (length (dv_trace (be_dev b))) of RecvEof \<Rightarrow> True | _ \<Rightarrow> False)
    | _ \<Rightarrow> False)" by code_simp
  then obtain b where b: "?r = Inr (Serving b)" "emitted (dv_trace (be_dev b)) = ?bufs"
      and eof: "dv_recv (be_dev b) (length (dv_trace (be_dev b))) = RecvEof"
    by (auto split: sum.splits be_step.splits recv_result.splits)
  have parse: "List.map_filter sink_parse ?bufs = [(3, ''hi''), (3, ''hi'')]" by code_simp
  have hup: "POLLHUP AND (POLLIN OR POLLHUP) \<noteq> 0" by code_simp
  have log: "log_of (dv_trace (be_dev b)) = numbered 0 [(3, ''hi''), (3, ''hi'')]"
    by (simp only: log_of_def b(2) parse)
  show ?thesis
    unfolding log [symmetric]
    using backend_log_is_what_was_emitted [OF _ log_init b(1) [unfolded log_iface_def] _ snk, of 3] b(2) eof hup snk
    by (simp add: log_iface_def)
qed

end
