(* ===== verification/BackendFeatures.thy ===== *)
theory BackendFeatures
  imports Backend VuProtocol
begin

text \<open>
  The feature negotiation of the repository's backend: what \<open>vu_get_features_exec\<close> offers with the device
  implementation of \<^verbatim>\<open>project_1/vhost/backend.c\<close>, and what acknowledging it does to the rings.
\<close>

definition offered_features :: u64 where
  "offered_features =
     bits_or [VIRTIO_F_NOTIFY_ON_EMPTY, VIRTIO_RING_F_INDIRECT_DESC, VIRTIO_RING_F_EVENT_IDX,
       VIRTIO_F_VERSION_1, VHOST_F_LOG_ALL, unat VHOST_USER_F_PROTOCOL_FEATURES] OR push_bit VIRTIO_F_VERSION_1 1"

lemma offered:
  "vu_get_features_exec (backend_iface handle guest fuel) dev m = Inr (ok, dev', offer) \<Longrightarrow>
     payload_u64 offer = offered_features"
  by (auto simp: vu_get_features_exec_def backend_iface_def get_features_def offered_features_def
      payload_u64_def Let_def mem_simps)

lemma offered_bits: "\<forall>i \<in> {1, 2, 3, 4}. \<not> bit offered_features i"
  by code_simp

lemma backend_set_features_quiet: "quiet_set_features (backend_iface handle guest fuel)"
  by (simp add: quiet_set_features_def backend_iface_def set_features_def)

text \<open>
  C40: \<^bold>\<open>Negotiating protocol features does not keep the rings disabled\<close>. With the repository's own device implementation, let the front end
  acknowledge features that were offered to it, among them \<open>VHOST_USER_F_PROTOCOL_FEATURES\<close> (bit 30) and
  \<open>VIRTIO_F_VERSION_1\<close> (bit 32, without which the library panics). The protocol then wants every ring to stay disabled until
  a message enables it; but the library tests the number 30 as a mask (bits 1 to 4, none of which it offers), so every
  ring of the device is enabled at once.
\<close>

theorem protocol_features_do_not_keep_rings_disabled:
  assumes "vu_get_features_exec (backend_iface handle guest fuel) dev0 m0 = Inr (True, dev, offer)"
    and "payload_u64 m AND NOT (payload_u64 offer) = 0"
    and "bit (payload_u64 m) 30" and "bit (payload_u64 m) 32"
  shows "\<exists>dev'. vu_set_features_exec (backend_iface handle guest fuel) dev m = Inr (False, dev', m) \<and>
    vu_has_feature dev' 30 \<and> length (dv_vq dev') = length (dv_vq dev) \<and>
    (\<forall>q \<in> set (dv_vq dev'). vu_queue_enabled q)"
proof -
  have "\<not> bit (payload_u64 m) i" if "i \<in> {1, 2, 3, 4}" for i
  proof
    assume b: "bit (payload_u64 m) i"
    have "\<not> bit (payload_u64 m AND NOT offered_features) i" using assms(2) offered [OF assms(1)] by simp
    then show False using b that offered_bits by (auto simp: bit_and_iff bit_not_iff)
  qed
  with set_features_rings [OF assms(4) backend_set_features_quiet, of handle guest fuel dev] assms(3) show ?thesis
    by (auto simp: vu_has_feature_def has_feature_bit vu_queue_enabled_def)
qed

theorem protocol_features_do_not_keep_rings_disabled_witness:
  "\<exists>dev'. vu_set_features_exec (backend_iface vlog_virtq_handle (\<lambda>_ _ m. (m, False)) 5) demo_initial
        (demo_msg 2 8 [0, 0, 0, 64, 1]) = Inr (False, dev', demo_msg 2 8 [0, 0, 0, 64, 1]) \<and>
     vu_has_feature dev' 30 \<and> length (dv_vq dev') = 2 \<and> (\<forall>q \<in> set (dv_vq dev'). vu_queue_enabled q)"
proof -
  let ?iface = "backend_iface vlog_virtq_handle (\<lambda>_ _ m. (m, False)) 5"
  obtain offer where o: "vu_get_features_exec ?iface demo_initial (demo_msg 1 0 []) = Inr (True, demo_initial, offer)"
    by (simp add: vu_get_features_exec_def Let_def)
  have b: "bit (payload_u64 (demo_msg 2 8 [0, 0, 0, 64, 1])) 30" "bit (payload_u64 (demo_msg 2 8 [0, 0, 0, 64, 1])) 32"
    by code_simp+
  have "payload_u64 (demo_msg 2 8 [0, 0, 0, 64, 1]) AND NOT offered_features = 0" by code_simp
  then have s: "payload_u64 (demo_msg 2 8 [0, 0, 0, 64, 1]) AND NOT (payload_u64 offer) = 0" using offered [OF o] by simp
  have "length (dv_vq demo_initial) = 2" by code_simp
  with protocol_features_do_not_keep_rings_disabled [OF o s b] show ?thesis by simp
qed

end
