(* ===== verification/GuestInit.thy ===== *)
theory GuestInit
  imports BackendLog
begin

text \<open>
  \<^verbatim>\<open>project_1/vhost/guest/init.c\<close>: the first process of the guest behind the virtio backend. It writes four
  records to the console device and switches the machine off.
\<close>

datatype init_event =
    InMkdir string | InMount string | InOpen string | InWrite int string | InFsync int | InSync | InSleep nat | InReboot

definition init_recs :: "string list" where
  "init_recs =
     [''1 function runner started'' @ [newline], ''0 processing request 1'' @ [newline],
      ''2 cache miss'' @ [newline], ''3 request 1 failed'' @ [newline]]"

text \<open>\<open>fd\<close> is what \<open>open\<close> returns; what \<open>write\<close> returns is ignored. The result is the exit status, with the trace.\<close>

definition init_main :: "int \<Rightarrow> int \<times> init_event list" where
  "init_main fd =
     (let t0 = [InMkdir ''/dev'', InMount ''/dev'', InOpen ''/dev/hvc0'']
      in if fd < 0 then (1, t0 @ [InReboot])
         else (0, t0 @ map (InWrite fd) init_recs @ [InFsync fd, InSync, InSleep 1, InReboot]))"

definition hvc_writes :: "init_event list \<Rightarrow> string list" where
  "hvc_writes t = List.map_filter (\<lambda>e. case e of InWrite fd s \<Rightarrow> Some s | _ \<Rightarrow> None) t"

lemma hvc_writes_simps [simp]:
  "hvc_writes [] = []" "hvc_writes (InWrite fd s # t) = s # hvc_writes t" "hvc_writes (a @ b) = hvc_writes a @ hvc_writes b"
  "hvc_writes (map (InWrite fd) ss) = ss"
  "(\<forall>fd s. e \<noteq> InWrite fd s) \<Longrightarrow> hvc_writes (e # t) = hvc_writes t"
  by (auto simp: hvc_writes_def List.map_filter_def split: init_event.split)
     (induction ss; simp)

text \<open>The machine is switched off in any case, after at most the four writes.\<close>

lemma init_ends_with_reboot: "last (snd (init_main fd)) = InReboot"
  by (simp add: init_main_def Let_def)

lemma init_writes: "hvc_writes (snd (init_main fd)) = (if fd < 0 then [] else init_recs)"
  by (simp add: init_main_def Let_def)

text \<open>
  When each write reaches the sink as one buffer, the log of the run has the four records with their
  numbers and levels.
\<close>

definition init_log :: string where
  "init_log =
     concat (map (\<lambda>l. l @ [newline])
       [''[0] INFO function runner started'', ''[1] DEBUG processing request 1'',
        ''[2] WARN cache miss'', ''[3] ERROR request 1 failed''])"

lemma init_records_parse:
  "List.map_filter sink_parse init_recs =
     [(1, ''function runner started''), (0, ''processing request 1''), (2, ''cache miss''), (3, ''request 1 failed'')]"
  by code_simp

lemma init_records_reach_the_log:
  assumes "0 \<le> fd"
  shows "\<exists>snk. vlog_sink_open True True True = Some snk \<and>
    vlog_sink_close (Some (emit_all snk (hvc_writes (snd (init_main fd))))) = Some init_log"
proof -
  have "list_all (\<lambda>b. length b < 2 ^ 32) init_recs" by (simp add: init_recs_def)
  moreover have "numbered 0 (List.map_filter sink_parse init_recs) = init_log"
    unfolding init_records_parse by code_simp
  ultimately show ?thesis using opened_sink_log [of init_recs] assms by (simp add: init_writes)
qed

end
