(* ===== verification/VirtqTest.thy ===== *)
theory VirtqTest
  imports BackendLog
begin

text \<open>
  The synthetic guest of \<^verbatim>\<open>project_1/tests/virtq_test.c\<close>: it lays records out as descriptor chains in
  two memory regions, publishes them on the available ring, calls the queue handler, and compares the
  used ring and the log with what it expects.
\<close>

section \<open>The guest's memory\<close>

definition R0_BASE :: u64 where "R0_BASE = 0x40000000"
definition R1_BASE :: u64 where "R1_BASE = 0x50000000"
definition RSIZE :: nat where "RSIZE = 0x8000"
definition GMEM_SIZE :: nat where "GMEM_SIZE = 2 * RSIZE"
definition OFF_DESC :: nat where "OFF_DESC = 0"
definition OFF_AVAIL :: nat where "OFF_AVAIL = 0x1000"
definition OFF_USED :: nat where "OFF_USED = 0x2000"
definition OFF_PAY :: nat where "OFF_PAY = 0x3000"
definition QNUM :: nat where "QNUM = 8"

text \<open>Offsets into \<open>gmem\<close> are \<open>unsigned\<close> in the source and stay far below \<open>2 ^ 32\<close>.\<close>

definition gpa_of :: "nat \<Rightarrow> u64" where
  "gpa_of off = (if off < RSIZE then R0_BASE + of_nat off else R1_BASE + (of_nat off - of_nat RSIZE))"

text \<open>\<open>gmem\<close> is the address \<open>calloc\<close> returned; the two regions are its two halves.\<close>

definition test_regions :: "u64 \<Rightarrow> virtq_mem_region list" where
  "test_regions gmem =
     [\<lparr>vm_gpa = R0_BASE, vm_size = of_nat RSIZE, vm_hva = gmem\<rparr>,
      \<lparr>vm_gpa = R1_BASE, vm_size = of_nat RSIZE, vm_hva = gmem + of_nat RSIZE\<rparr>]"

text \<open>The xorshift generator: the result and the new seed.\<close>

definition rnd :: "u32 \<Rightarrow> u32 \<Rightarrow> u32 \<times> u32" where
  "rnd s n =
     (let s1 = s XOR push_bit 13 s; s2 = s1 XOR drop_bit 17 s1; s3 = s2 XOR push_bit 5 s2
      in (if n \<noteq> 0 then s3 mod n else 0, s3))"

section \<open>The translation stage\<close>

text \<open>
  \<open>virtq_gpa_to_hva\<close> is the student's: a parameter of the tests. In the repository it is a stub that
  returns \<open>NULL\<close>.
\<close>

type_synonym translator = "virtq_mem_region list \<Rightarrow> u64 \<Rightarrow> u64 \<Rightarrow> u64"

definition virtq_gpa_to_hva :: translator where
  "virtq_gpa_to_hva regions gpa len = 0"

definition translate_checks :: "u64 \<Rightarrow> (u64 \<times> u64 \<times> u64) list" where
  "translate_checks gmem =
     [(R0_BASE + 0x100, 16, gmem + 0x100),
      (R1_BASE + 0x100, 16, gmem + of_nat RSIZE + 0x100),
      (R0_BASE + of_nat RSIZE - 16, 16, gmem + of_nat RSIZE - 16),
      (R0_BASE + of_nat RSIZE - 16, 17, 0),
      (R0_BASE + of_nat RSIZE - 8, 64, 0),
      (0x48000000, 8, 0),
      (0x100, 8, 0),
      (R1_BASE + of_nat RSIZE, 8, 0),
      (0xfffffffffffffff0, 0x20, 0),
      (R0_BASE, 0, 0)]"

definition stage_translate :: "translator \<Rightarrow> u64 \<Rightarrow> nat" where
  "stage_translate tr gmem =
     length (filter (\<lambda>(gpa, len, want). tr (test_regions gmem) gpa len \<noteq> want) (translate_checks gmem))"

section \<open>Laying out chains\<close>

text \<open>\<open>align\<close> is a power of two. The result is the offset with the new \<open>pay\<close>.\<close>

definition alloc_pay :: "nat \<Rightarrow> nat \<Rightarrow> nat \<Rightarrow> nat \<times> nat" where
  "alloc_pay pay n align =
     (let at = (pay + align - 1) div align * align
      in if at + n > GMEM_SIZE - 64 then (OFF_PAY, OFF_PAY + n) else (at, at + n))"

definition put_bytes :: "u64 \<Rightarrow> nat \<Rightarrow> string \<Rightarrow> mem \<Rightarrow> mem" where
  "put_bytes gmem off s m = bytes_at (gmem + of_nat off) (map of_char s) m"

text \<open>
  The length \<open>take\<close> of a part, with \<open>rest\<close> bytes left and \<open>k\<close> parts to come after it.
\<close>

definition part_len :: "int \<Rightarrow> nat \<Rightarrow> u32 \<Rightarrow> int \<times> u32" where
  "part_len rest k seed =
     (if k = 0 then (rest, seed)
      else (let (r, seed1) = rnd seed (word_of_int (rest - int (Suc k))) in (1 + sint r, seed1)))"

text \<open>
  \<open>lay_chain\<close>: the loop over the parts, \<open>k\<close> of them left, with the memory, \<open>pay\<close> and the seed as its
  state. \<open>tbl\<close> is the offset of the table. Of a part longer than what is left only that is copied; with
  payloads longer than the number of parts this does not happen.
\<close>

type_synonym lay_state = "mem \<times> nat \<times> u32"

fun lay_parts :: "u64 \<Rightarrow> nat \<Rightarrow> nat \<Rightarrow> nat \<Rightarrow> string \<Rightarrow> nat \<Rightarrow> nat \<Rightarrow> nat \<Rightarrow> lay_state \<Rightarrow> lay_state" where
  "lay_parts gmem tbl base link_base payload p 0 off st = st"
| "lay_parts gmem tbl base link_base payload p (Suc k) off (m, pay, seed) =
     (let (t, seed1) = part_len (int (length payload) - int off) k seed;
          n = nat t;
          (b, pay1) = alloc_pay pay (if n \<noteq> 0 then n else 1) 1;
          m1 = put_bytes gmem b (take n (drop off payload)) m;
          m2 = store_desc m1 (gmem + of_nat tbl + 16 * of_nat (base + p))
                 \<lparr>d_addr = gpa_of b, d_len = of_nat n, d_flags = (if k = 0 then 0 else VRING_DESC_F_NEXT),
                  d_next = of_nat (link_base + p + 1)\<rparr>
      in lay_parts gmem tbl base link_base payload (p + 1) k (off + n) (m2, pay1, seed1))"

definition lay_chain :: "u64 \<Rightarrow> nat \<Rightarrow> nat \<Rightarrow> nat \<Rightarrow> string \<Rightarrow> nat \<Rightarrow> lay_state \<Rightarrow> lay_state" where
  "lay_chain gmem tbl base link_base payload nparts st =
     lay_parts gmem tbl base link_base payload 0 nparts 0 st"

section \<open>Publishing\<close>

record vtest =
  vt_mem :: mem
  vt_pay :: nat
  vt_seed :: u32
  vt_avail_idx :: u16
  vt_total :: u32
  vt_log :: "string list"
  vt_head :: "u16 list"

definition test_level_name :: "u32 \<Rightarrow> string" where
  "test_level_name l =
     (if l = 0 then ''DEBUG'' else if l = 1 then ''INFO'' else if l = 2 then ''WARN''
      else if l = 3 then ''ERROR'' else ''LVL?'')"

text \<open>\<open>snprintf\<close> into 512 bytes: what does not fit is cut.\<close>

definition expected_line :: "nat \<Rightarrow> u32 \<Rightarrow> string \<Rightarrow> string" where
  "expected_line n level text =
     take 511 (''['' @ dec n @ ''] '' @ test_level_name level @ '' '' @ text)"

definition publish :: "u64 \<Rightarrow> u16 \<Rightarrow> u32 \<Rightarrow> string \<Rightarrow> vtest \<Rightarrow> vtest" where
  "publish gmem head level text s =
     s\<lparr>vt_log := vt_log s @ [expected_line (length (vt_log s)) level text],
       vt_head := vt_head s @ [head],
       vt_mem := store16 (vt_mem s) (gmem + of_nat OFF_AVAIL + 4 + 2 * of_nat (unat (vt_avail_idx s) mod QNUM)) head,
       vt_avail_idx := vt_avail_idx s + 1,
       vt_total := vt_total s + 1\<rparr>"

section \<open>One record\<close>

fun rnd_text :: "nat \<Rightarrow> u32 \<Rightarrow> string \<times> u32" where
  "rnd_text 0 seed = ([], seed)"
| "rnd_text (Suc n) seed =
     (let (r, seed1) = rnd seed 26; (text, seed2) = rnd_text n seed1
      in (char_of (97 + unat r) # text, seed2))"

text \<open>Level, text and payload; \<open>snprintf\<close> into 128 bytes cuts nothing here.\<close>

definition record_payload :: "u32 \<Rightarrow> string \<Rightarrow> string" where
  "record_payload level text = dec (unat level) @ '' '' @ text @ [newline]"

definition rnd_record :: "u32 \<Rightarrow> u32 \<times> string \<times> string \<times> u32" where
  "rnd_record seed =
     (let (level, seed1) = rnd seed 6; (t, seed2) = rnd seed1 24; (text, seed3) = rnd_text (1 + unat t) seed2
      in (level, text, record_payload level text, seed3))"

datatype test_stage = S_TRANSLATE | S_SINGLE | S_CHAINED | S_INDIRECT

text \<open>What is appended to a chain in the chained stage.\<close>

datatype appended = NoMore | Writable | Unmapped

definition append_desc :: "u64 \<Rightarrow> nat \<Rightarrow> lay_state \<Rightarrow> appended \<times> nat \<times> lay_state" where
  "append_desc gmem slot st =
     (let (m, pay, seed) = st; (more, seed1) = rnd seed 2
      in if more = 0 then (NoMore, slot, (m, pay, seed1))
         else
           let p = gmem + of_nat OFF_DESC + 16 * of_nat (slot - 1);
               m1 = store16 m (p + 12) (load16 m (p + 12) OR VRING_DESC_F_NEXT);
               m2 = store16 m1 (p + 14) (of_nat slot);
               (writable, seed2) = rnd seed1 2
           in if writable \<noteq> 0
              then (let (b, pay1) = alloc_pay pay 8 1;
                        m3 = put_bytes gmem b ''XXXXXXXX'' m2;
                        m4 = store_desc m3 (gmem + of_nat OFF_DESC + 16 * of_nat slot)
                               \<lparr>d_addr = gpa_of b, d_len = 8, d_flags = VRING_DESC_F_WRITE, d_next = 0\<rparr>
                    in (Writable, slot + 1, (m4, pay1, seed2)))
              else (let m3 = store_desc m2 (gmem + of_nat OFF_DESC + 16 * of_nat slot)
                               \<lparr>d_addr = 0x48000000, d_len = 8, d_flags = 0, d_next = 0\<rparr>
                    in (Unmapped, slot + 1, (m3, pay, seed2))))"

definition lay_single :: "u64 \<Rightarrow> nat \<Rightarrow> string \<Rightarrow> lay_state \<Rightarrow> lay_state" where
  "lay_single gmem slot payload st =
     (let (m, pay, seed) = st;
          (b, pay1) = alloc_pay pay (length payload) 1;
          m1 = put_bytes gmem b payload m;
          m2 = store_desc m1 (gmem + of_nat OFF_DESC + 16 * of_nat slot)
                 \<lparr>d_addr = gpa_of b, d_len = of_nat (length payload), d_flags = 0, d_next = 0\<rparr>
      in (m2, pay1, seed))"

definition lay_indirect :: "u64 \<Rightarrow> nat \<Rightarrow> string \<Rightarrow> lay_state \<Rightarrow> lay_state" where
  "lay_indirect gmem slot payload st =
     (let (m, pay, seed) = st; (r, seed1) = rnd seed 2; nparts = 1 + unat r;
          (tbl, pay1) = alloc_pay pay (nparts * 16) 16;
          (m1, pay2, seed2) = lay_chain gmem tbl 0 0 payload nparts (m, pay1, seed1);
          m2 = store_desc m1 (gmem + of_nat OFF_DESC + 16 * of_nat slot)
                 \<lparr>d_addr = gpa_of tbl, d_len = of_nat (nparts * 16), d_flags = VRING_DESC_F_INDIRECT, d_next = 0\<rparr>
      in (m2, pay2, seed2))"

text \<open>The three stages of laying out one record from \<open>slot\<close> on; the second component is the next slot.\<close>

definition lay_record :: "test_stage \<Rightarrow> u64 \<Rightarrow> nat \<Rightarrow> string \<Rightarrow> lay_state \<Rightarrow> appended \<times> nat \<times> lay_state" where
  "lay_record stage gmem slot payload st =
     (case stage of
        S_SINGLE \<Rightarrow> (NoMore, slot + 1, lay_single gmem slot payload st)
      | S_CHAINED \<Rightarrow>
          (let (m, pay, seed) = st; (r, seed1) = rnd seed 2; nparts = 2 + unat r
           in append_desc gmem (slot + nparts) (lay_chain gmem OFF_DESC slot slot payload nparts (m, pay, seed1)))
      | _ \<Rightarrow> (NoMore, slot + 1, lay_indirect gmem slot payload st))"

definition lay_and_publish :: "test_stage \<Rightarrow> u64 \<Rightarrow> nat \<Rightarrow> vtest \<Rightarrow> appended \<times> nat \<times> vtest" where
  "lay_and_publish stage gmem slot s =
     (let (level, text, payload, seed) = rnd_record (vt_seed s);
          (app, slot1, m, pay, seed1) = lay_record stage gmem slot payload (vt_mem s, vt_pay s, seed)
      in (app, slot1, publish gmem (of_nat slot) level text (s\<lparr>vt_mem := m, vt_pay := pay, vt_seed := seed1\<rparr>)))"

section \<open>Rounds and the run\<close>

text \<open>The inner loop: \<open>c\<close> chains to go. The result counts those published.\<close>

fun publish_chains :: "test_stage \<Rightarrow> u64 \<Rightarrow> nat \<Rightarrow> nat \<Rightarrow> vtest \<Rightarrow> nat \<times> vtest" where
  "publish_chains stage gmem 0 slot s = (0, s)"
| "publish_chains stage gmem (Suc c) slot s =
     (if slot + 4 \<le> QNUM
      then (let (_, slot1, s1) = lay_and_publish stage gmem slot s;
                (n, s2) = publish_chains stage gmem c slot1 s1
            in (Suc n, s2))
      else (0, s))"

text \<open>A round, up to the call of the handler: the chains are published and \<open>avail->idx\<close> is stored.\<close>

definition publish_round :: "test_stage \<Rightarrow> u64 \<Rightarrow> vtest \<Rightarrow> nat \<times> vtest" where
  "publish_round stage gmem s =
     (let (r, seed) = rnd (vt_seed s) 2;
          (n, s1) = publish_chains stage gmem (1 + unat r) 0 (s\<lparr>vt_seed := seed\<rparr>)
      in (n, s1\<lparr>vt_mem := store16 (vt_mem s1) (gmem + of_nat OFF_AVAIL + 2) (vt_avail_idx s1)\<rparr>))"

text \<open>A round with its three checks: the queue, the sink and the number of failures go on.\<close>

definition test_round ::
    "virtq_handler \<Rightarrow> test_stage \<Rightarrow> u64 \<Rightarrow> vtest \<times> virtq \<times> vlog_sink \<times> nat \<Rightarrow> vtest \<times> virtq \<times> vlog_sink \<times> nat"
where
  "test_round handle stage gmem st =
     (let (s, vq, sink, failures) = st;
          (published, s1) = publish_round stage gmem s;
          (n, vq1, m1, recs) = handle vq (test_regions gmem) (vt_mem s1);
          fails = length (filter id [n \<noteq> int published,
                                     load16 m1 (used_idx_addr (q_used vq1)) \<noteq> ucast (vt_total s1),
                                     q_last_avail vq1 \<noteq> vt_avail_idx s1])
      in (s1\<lparr>vt_mem := m1\<rparr>, vq1, emit_all sink recs, failures + fails))"

definition test_vq :: "u64 \<Rightarrow> virtq" where
  "test_vq gmem =
     \<lparr>q_desc = gmem + of_nat OFF_DESC, q_avail = gmem + of_nat OFF_AVAIL, q_used = gmem + of_nat OFF_USED,
      q_num = of_nat QNUM, q_last_avail = 0\<rparr>"

definition test_start :: "u32 \<Rightarrow> mem \<Rightarrow> vtest" where
  "test_start seed m =
     \<lparr>vt_mem = m, vt_pay = OFF_PAY, vt_seed = seed, vt_avail_idx = 0, vt_total = 0, vt_log = [], vt_head = []\<rparr>"

text \<open>The ids of the last \<open>QNUM\<close> chains in the used ring.\<close>

definition used_failures :: "virtq \<Rightarrow> mem \<Rightarrow> u16 list \<Rightarrow> nat" where
  "used_failures vq m heads =
     length (filter (\<lambda>k. k + QNUM \<ge> length heads \<and>
         ue_id (load_used_elem m (used_ring_addr (q_used vq) (of_nat (k mod QNUM)))) \<noteq> ucast (heads ! k))
       [0..<length heads])"

text \<open>
  Reading the log back: \<open>fgets\<close> into 1024 bytes gives lines in pieces of at most 1023 characters; a NUL
  ends the string. The last line of the file may lack its newline.
\<close>

fun fgets_lines :: "nat \<Rightarrow> string \<Rightarrow> string \<Rightarrow> string list" where
  "fgets_lines n acc [] = (if acc = [] then [] else [acc])"
| "fgets_lines n acc (c # cs) =
     (if c = newline \<or> length acc + 1 = n then (acc @ [c]) # fgets_lines n [] cs else fgets_lines n (acc @ [c]) cs)"

definition c_line :: "string \<Rightarrow> string" where
  "c_line l =
     (let s = takeWhile (\<lambda>c. c \<noteq> nul) l
      in if s \<noteq> [] \<and> last s = newline then butlast s else s)"

text \<open>The comparison stops at the first line too many; missing lines count as one failure.\<close>

fun log_failures :: "string list \<Rightarrow> string list \<Rightarrow> nat" where
  "log_failures [] [] = 0"
| "log_failures (l # ls) [] = 1"
| "log_failures [] (e # es) = 1"
| "log_failures (l # ls) (e # es) = (if l \<noteq> e then 1 else 0) + log_failures ls es"

definition calloc_gmem :: "u64 \<Rightarrow> mem \<Rightarrow> mem" where
  "calloc_gmem gmem m = (\<lambda>a. if a - gmem < of_nat GMEM_SIZE then 0 else m a)"

text \<open>
  \<open>main\<close> after its arguments are read: \<open>gmem\<close> is 0 if \<open>calloc\<close> fails, \<open>sink\<close> is the result of
  \<open>vlog_sink_open\<close>, \<open>reopened\<close> says whether the log can be opened again. The result is the exit status.
\<close>

definition virtq_test ::
    "virtq_handler \<Rightarrow> translator \<Rightarrow> test_stage \<Rightarrow> u32 \<Rightarrow> u64 \<Rightarrow> mem \<Rightarrow> vlog_sink option \<Rightarrow> bool \<Rightarrow> int"
where
  "virtq_test handle tr stage seed0 gmem m sink reopened =
     (if gmem = 0 then 2
      else if stage = S_TRANSLATE then (if stage_translate tr gmem \<noteq> 0 then 1 else 0)
      else (case sink of
        None \<Rightarrow> 2
      | Some snk \<Rightarrow>
          (let seed = (if seed0 \<noteq> 0 then seed0 else 1);
               (s, vq, snk1, failures) =
                 (test_round handle stage gmem ^^ 6) (test_start seed (calloc_gmem gmem m), test_vq gmem, snk, 0);
               used_fails = used_failures vq (vt_mem s) (vt_head s)
           in case vlog_sink_close (Some snk1) of
                None \<Rightarrow> 1
              | Some log \<Rightarrow>
                  if \<not> reopened then 1
                  else if failures + used_fails + log_failures (map c_line (fgets_lines 1023 [] log)) (vt_log s) = 0
                  then 0 else 1)))"

definition stage_of :: "string \<Rightarrow> test_stage option" where
  "stage_of s =
     (if s = ''translate'' then Some S_TRANSLATE else if s = ''single'' then Some S_SINGLE
      else if s = ''chained'' then Some S_CHAINED else if s = ''indirect'' then Some S_INDIRECT else None)"

text \<open>The arguments are those after the name of the program; the third one is the path of the log.\<close>

definition virtq_test_main ::
    "virtq_handler \<Rightarrow> translator \<Rightarrow> string list \<Rightarrow> u64 \<Rightarrow> mem \<Rightarrow> vlog_sink option \<Rightarrow> bool \<Rightarrow> int"
where
  "virtq_test_main handle tr args gmem m sink reopened =
     (let stage_s = (case args of a # _ \<Rightarrow> a | [] \<Rightarrow> ''chained'');
          seed0 = (case args of _ # b # _ \<Rightarrow> ucast (strtoul10 b) | _ \<Rightarrow> 1)
      in case stage_of stage_s of
           None \<Rightarrow> 2
         | Some stage \<Rightarrow> virtq_test handle tr stage seed0 gmem m sink reopened)"

text \<open>The stub in the repository fails the first stage in its three valid ranges.\<close>

lemma stub_fails_translate:
  assumes "gmem \<noteq> 0" and "unat gmem + GMEM_SIZE \<le> 2 ^ 64"
  shows "stage_translate virtq_gpa_to_hva gmem = 3"
    and "virtq_test_main handle virtq_gpa_to_hva [''translate''] gmem m sink reopened = 1"
proof -
  have "gmem + of_nat k \<noteq> 0" if "k < GMEM_SIZE" for k
  proof -
    have "unat (gmem + of_nat k) = unat gmem + k"
      using assms(2) that unat_of_nat_u64 [of k] unat_add_lem [of gmem "of_nat k"]
      by (simp add: GMEM_SIZE_def RSIZE_def)
    then show ?thesis using assms(1) by (metis add_is_0 unat_0 unat_eq_zero)
  qed
  from this [of "0x100"] this [of "RSIZE + 0x100"] this [of "RSIZE - 16"]
  show "stage_translate virtq_gpa_to_hva gmem = 3"
    by (simp add: stage_translate_def translate_checks_def virtq_gpa_to_hva_def GMEM_SIZE_def RSIZE_def algebra_simps)
  then show "virtq_test_main handle virtq_gpa_to_hva [''translate''] gmem m sink reopened = 1"
    using assms(1) by (simp add: virtq_test_main_def stage_of_def virtq_test_def)
qed

section \<open>The expected log\<close>

text \<open>The level names are those of the log store.\<close>

lemma test_level_name: "test_level_name = level_name"
  by (simp add: fun_eq_iff test_level_name_def level_name_def)

text \<open>What the records must be for the comparison to mean anything; those the test draws are.\<close>

definition test_rec_ok :: "u32 \<times> string \<Rightarrow> bool" where
  "test_rec_ok r \<longleftrightarrow> fst r < 10 \<and> nul \<notin> set (snd r) \<and> newline \<notin> set (snd r) \<and> cr \<notin> set (snd r) \<and>
     length (snd r) \<le> 64"

definition publish_all :: "u64 \<Rightarrow> (u16 \<times> u32 \<times> string) list \<Rightarrow> vtest \<Rightarrow> vtest" where
  "publish_all gmem recs s = fold (\<lambda>(head, level, text). publish gmem head level text) recs s"

lemma publish_all_log:
  "vt_log (publish_all gmem recs s) = vt_log s @
     map (\<lambda>(i, head, level, text). expected_line i level text)
       (zip [length (vt_log s)..<length (vt_log s) + length recs] recs)"
proof (induction recs arbitrary: s)
  case (Cons r recs)
  obtain h l t where r: "r = (h, l, t)" by (cases r)
  let ?s = "publish gmem h l t s"
  have "publish_all gmem (r # recs) s = publish_all gmem recs ?s" by (simp add: publish_all_def r)
  moreover have "vt_log ?s = vt_log s @ [expected_line (length (vt_log s)) l t]" by (simp add: publish_def)
  moreover have "[n..<n + length (r # recs)] = n # [n + 1..<n + 1 + length recs]" for n
    by (subst upt_conv_Cons) simp_all
  ultimately show ?case using Cons [of ?s] by (simp only: length_append) (simp add: r)
qed (simp add: publish_all_def)

lemma log_failures_iff: "log_failures ls es = 0 \<longleftrightarrow> ls = es"
  by (induction ls es rule: log_failures.induct) simp_all

text \<open>Reading a file of short lines gives the lines.\<close>

lemma fgets_line:
  "newline \<notin> set l \<Longrightarrow> length acc + length l + 1 \<le> n \<Longrightarrow>
     fgets_lines n acc (l @ newline # rest) = (acc @ l @ [newline]) # fgets_lines n [] rest"
  by (induction l arbitrary: acc) auto

lemma fgets_all_lines:
  "list_all (\<lambda>l. newline \<notin> set l \<and> length l < n) ls \<Longrightarrow>
     fgets_lines n [] (concat (map (\<lambda>l. l @ [newline]) ls)) = map (\<lambda>l. l @ [newline]) ls"
  by (induction ls) (simp_all add: fgets_line)

lemma c_line_line: "nul \<notin> set l \<Longrightarrow> c_line (l @ [newline]) = l"
proof -
  assume "nul \<notin> set l"
  then have "takeWhile (\<lambda>c. c \<noteq> nul) (l @ [newline]) = l @ [newline]"
    by (subst takeWhile_append2) (auto simp: nul_def newline_def)
  then show ?thesis by (simp add: c_line_def)
qed

text \<open>A record of the log is the expected line.\<close>

definition log_line_of :: "nat \<Rightarrow> u32 \<Rightarrow> string \<Rightarrow> string" where
  "log_line_of n level text = ''['' @ dec n @ ''] '' @ test_level_name level @ '' '' @ text"

lemma dec_short: "n < 1000 \<Longrightarrow> length (dec n) \<le> 3"
  by (simp add: dec.simps [of n] dec.simps [of "n div 10"] dec.simps [of "n div 10 div 10"])

lemma log_line_of:
  assumes "n < 256" and "test_rec_ok (level, txt)"
  shows "expected_line n level txt = log_line_of n level txt"
    and "length (log_line_of n level txt) < 256"
    and "newline \<notin> set (log_line_of n level txt)" and "nul \<notin> set (log_line_of n level txt)"
    and "log_record (of_nat n) level txt = log_line_of n level txt @ [newline]"
proof -
  have "length (test_level_name level) \<le> 5" by (simp add: test_level_name_def)
  with assms dec_short [of n] show short: "length (log_line_of n level txt) < 256"
    by (simp add: log_line_of_def test_rec_ok_def)
  then show "expected_line n level txt = log_line_of n level txt"
    by (simp add: expected_line_def log_line_of_def)
  have "newline \<notin> set (dec n)" "nul \<notin> set (dec n)"
    using dec_digits [of newline n] dec_digits [of nul n] not_digit_chars by blast+
  with assms(2) show "newline \<notin> set (log_line_of n level txt)" "nul \<notin> set (log_line_of n level txt)"
    by (auto simp: log_line_of_def test_level_name_def test_rec_ok_def newline_def nul_def)
  have "unat (of_nat n :: u32) = n" using assms(1) by (simp add: unat_of_nat take_bit_nat_eq_self)
  then show "log_record (of_nat n) level txt = log_line_of n level txt @ [newline]"
    by (simp add: log_record_def log_header_def log_line_of_def test_level_name)
qed

lemma numbered_lines:
  assumes "list_all test_rec_ok rs" and "n + length rs \<le> 256"
  shows "numbered (of_nat n) rs =
    concat (map (\<lambda>l. l @ [newline]) (map (\<lambda>(i, level, txt). log_line_of i level txt) (zip [n..<n + length rs] rs)))"
  using assms
proof (induction rs arbitrary: n)
  case (Cons r rs)
  obtain l t where r: "r = (l, t)" by (cases r)
  have "log_record (of_nat n) l t = log_line_of n l t @ [newline]"
    using Cons.prems r by (intro log_line_of(5)) auto
  moreover have "[n..<n + length (r # rs)] = n # [n + 1..<n + 1 + length rs]" by (subst upt_conv_Cons) simp_all
  moreover have "numbered (of_nat n + 1) rs = concat (map (\<lambda>l. l @ [newline])
      (map (\<lambda>(i, level, txt). log_line_of i level txt) (zip [n + 1..<n + 1 + length rs] rs)))"
    using Cons.IH [of "n + 1"] Cons.prems by (simp add: ac_simps)
  ultimately show ?case by (simp add: r del: upt_Suc)
qed simp

lemma sink_parse_payload: "test_rec_ok (level, txt) \<Longrightarrow> sink_parse (record_payload level txt) = Some (level, txt)"
  using sink_parse_level_msg [of "unat level" "txt"]
  by (cases "txt" rule: rev_cases) (auto simp: test_rec_ok_def record_payload_def word_less_nat_alt)

lemma record_payload_short: "test_rec_ok (level, txt) \<Longrightarrow> length (record_payload level txt) < 2 ^ 32"
  using dec_short [of "unat level"] by (auto simp: test_rec_ok_def record_payload_def word_less_nat_alt)

lemma payloads_parse:
  "list_all (\<lambda>(head, r). test_rec_ok r) recs \<Longrightarrow>
     List.map_filter sink_parse (map (\<lambda>(head, level, txt). record_payload level txt) recs) = map snd recs"
  by (induction recs) (auto simp: sink_parse_payload)

text \<open>
  C17: \<^bold>\<open>The test expects what the sink writes.\<close> For records as the test draws them, no more than its table
  holds: when the queue handler hands the payloads to the sink in the order of publication, the log file, read
  back line by line, is exactly the list of expected lines, so that the comparison reports no failure.
\<close>
theorem test_expects_what_the_sink_writes:
  assumes "list_all (\<lambda>(head, r). test_rec_ok r) recs" and "length recs \<le> 256" and "vt_log s = []"
  shows "\<exists>snk log. vlog_sink_open True True True = Some snk \<and>
    vlog_sink_close (Some (emit_all snk (map (\<lambda>(head, level, txt). record_payload level txt) recs))) = Some log \<and>
    log_failures (map c_line (fgets_lines 1023 [] log)) (vt_log (publish_all gmem recs s)) = 0"
proof -
  let ?lines = "map (\<lambda>(i, level, txt). log_line_of i level txt) (zip [0..<length recs] (map snd recs))"
  let ?bufs = "map (\<lambda>(head, level, txt). record_payload level txt) recs"
  have ok: "list_all test_rec_ok (map snd recs)" using assms(1) by (auto simp: list_all_iff)
  have "list_all (\<lambda>b. length b < 2 ^ 32) ?bufs"
    using assms(1) record_payload_short by (fastforce simp: list_all_iff)
  from opened_sink_log [OF this] obtain snk where snk: "vlog_sink_open True True True = Some snk"
      "vlog_sink_close (Some (emit_all snk ?bufs)) = Some (numbered 0 (map snd recs))"
    by (auto simp: payloads_parse [OF assms(1)])
  have lines: "list_all (\<lambda>l. newline \<notin> set l \<and> nul \<notin> set l \<and> length l < 1023) ?lines"
    unfolding list_all_length
  proof (intro allI impI)
    fix n assume n: "n < length ?lines"
    obtain h level msg where r: "recs ! n = (h, level, msg)" by (cases "recs ! n")
    with ok n have "test_rec_ok (level, msg)" by (auto simp: list_all_length)
    from log_line_of(2-4) [OF _ this, of n] n assms(2) r
    show "newline \<notin> set (?lines ! n) \<and> nul \<notin> set (?lines ! n) \<and> length (?lines ! n) < 1023" by simp
  qed
  have "numbered 0 (map snd recs) = concat (map (\<lambda>l. l @ [newline]) ?lines)"
    using numbered_lines [OF ok, of 0] assms(2) by simp
  moreover have "fgets_lines 1023 [] (concat (map (\<lambda>l. l @ [newline]) ?lines)) = map (\<lambda>l. l @ [newline]) ?lines"
    using lines by (intro fgets_all_lines) (simp add: list_all_iff)
  moreover have "map c_line (map (\<lambda>l. l @ [newline]) ?lines) = ?lines"
    using lines by (auto simp: list_all_iff c_line_line)
  moreover have "vt_log (publish_all gmem recs s) = ?lines"
  proof (rule nth_equalityI)
    fix n assume "n < length (vt_log (publish_all gmem recs s))"
    then have n: "n < length recs" by (simp add: publish_all_log assms(3))
    obtain h level msg where r: "recs ! n = (h, level, msg)" by (cases "recs ! n")
    with assms(1) n have "test_rec_ok (level, msg)" by (auto simp: list_all_length)
    from log_line_of(1) [OF _ this, of n] n assms(2) r
    show "vt_log (publish_all gmem recs s) ! n = ?lines ! n" by (simp add: publish_all_log assms(3))
  qed (simp add: publish_all_log assms(3))
  ultimately show ?thesis using snk by (simp add: log_failures_iff)
qed

text \<open>The witness: a fresh test and three records, two of them with levels that have no name.\<close>

theorem test_expects_what_the_sink_writes_witness:
  "\<exists>snk log. vlog_sink_open True True True = Some snk \<and>
    vlog_sink_close (Some (emit_all snk (map (\<lambda>(head, level, txt). record_payload level txt)
      [(0 :: u16, 3, ''hi''), (1, 5, ''yo''), (2, 4, ''z'')]))) = Some log \<and>
    log_failures (map c_line (fgets_lines 1023 [] log))
      (vt_log (publish_all 0x10000 [(0, 3, ''hi''), (1, 5, ''yo''), (2, 4, ''z'')] (test_start 1 (\<lambda>_. 0)))) = 0"
  by (rule test_expects_what_the_sink_writes)
     (simp_all add: test_rec_ok_def test_start_def nul_def newline_def cr_def)

end
