(* ===== verification/VirtqPop.thy ===== *)
theory VirtqPop
  imports VirtqTest VuQueueFacts
begin

text \<open>
  The synthetic guest of \<open>VirtqTest\<close> against the library: what the guest lays out and publishes is what
  \<open>vu_queue_pop\<close> takes, byte for byte.
\<close>

section \<open>Walking a chain whose buffers fit\<close>

definition piece_of :: "VuDev \<Rightarrow> vring_desc \<Rightarrow> iovec" where
  "piece_of dev d = \<lparr>iov_base = fst (vu_gpa_to_va dev (ucast (d_len d)) (d_addr d)), iov_len = ucast (d_len d)\<rparr>"

definition maps_whole :: "VuDev \<Rightarrow> vring_desc \<Rightarrow> bool" where
  "maps_whole dev d \<longleftrightarrow> d_len d \<noteq> 0 \<and>
     (\<exists>p. p \<noteq> 0 \<and> vu_gpa_to_va dev (ucast (d_len d)) (d_addr d) = (p, ucast (d_len d)))"

lemma ucast_u32_eq_0 [simp]: "(ucast (n :: u32) :: u64) = 0 \<longleftrightarrow> n = 0"
  by (metis unat_ucast_u32 unsigned_eq_0_iff)

lemma map_desc_whole:
  assumes "maps_whole dev d" and "length iov < mx"
  shows "virtqueue_map_desc dev mx iov (d_addr d) (ucast (d_len d)) = Inr (Some (iov @ [piece_of dev d]), dev)"
proof -
  obtain p where p: "p \<noteq> 0" "vu_gpa_to_va dev (ucast (d_len d)) (d_addr d) = (p, ucast (d_len d))" "d_len d \<noteq> 0"
    using assms(1) by (auto simp: maps_whole_def)
  have "map_sg dev mx (iov @ [piece_of dev d]) a 0 = (Some (iov @ [piece_of dev d]), dev)" for a
    by (simp add: map_sg.simps)
  with p assms(2) show ?thesis
    by (simp add: virtqueue_map_desc_def map_sg.simps [of dev mx iov "d_addr d"] piece_of_def)
qed

lemma map_one_whole:
  assumes "maps_whole dev d" and "is_write d \<or> ins = []" and "length outs + length ins < VIRTQUEUE_MAX_SIZE"
  shows "map_one dev outs ins d =
    Inr (Some (if is_write d then (outs, ins @ [piece_of dev d]) else (outs @ [piece_of dev d], ins)), dev)"
proof -
  have "length ins < VIRTQUEUE_MAX_SIZE - length outs" "length outs < VIRTQUEUE_MAX_SIZE" using assms(3) by simp_all
  with map_desc_whole [OF assms(1)] assms(2) show ?thesis
    by (auto simp: map_one_def is_write_def)
qed

lemma map_chain_whole:
  assumes "desc_chain dev tbl mx i ds" and "list_all (maps_whole dev) ds"
    and "sorted_wrt (\<lambda>a b. is_write a \<longrightarrow> is_write b) ds" and "ins \<noteq> [] \<longrightarrow> list_all is_write ds"
    and "length outs + length ins + length ds \<le> min (unat mx) VIRTQUEUE_MAX_SIZE"
  shows "map_chain dev tbl i mx outs ins =
    Inr (Some (outs @ map (piece_of dev) (filter (\<lambda>d. \<not> is_write d) ds),
               ins @ map (piece_of dev) (filter is_write ds)), dev)"
  using assms
proof (induction arbitrary: outs ins rule: desc_chain.induct)
  case (last i d)
  from last.prems have "map_one dev outs ins d =
      Inr (Some (if is_write d then (outs, ins @ [piece_of dev d]) else (outs @ [piece_of dev d], ins)), dev)"
    by (intro map_one_whole) auto
  with last show ?case
    by (auto simp: map_chain.simps [of dev tbl i mx outs ins] virtqueue_read_next_desc_def has_next_def)
next
  case (more i d ds)
  let ?outs = "if is_write d then outs else outs @ [piece_of dev d]"
  let ?ins = "if is_write d then ins @ [piece_of dev d] else ins"
  from more.prems have one: "map_one dev outs ins d = Inr (Some (?outs, ?ins), dev)"
    by (subst map_one_whole) auto
  have "map_chain dev tbl (ucast (d_next d)) mx ?outs ?ins =
      Inr (Some (?outs @ map (piece_of dev) (filter (\<lambda>d. \<not> is_write d) ds),
                 ?ins @ map (piece_of dev) (filter is_write ds)), dev)"
    using more.prems by (intro more.IH) (auto simp: list_all_iff)
  moreover have "map_chain dev tbl i mx outs ins = map_chain dev tbl (ucast (d_next d)) mx ?outs ?ins"
    using more one by (simp add: map_chain.simps [of dev tbl i mx outs ins] virtqueue_read_next_desc_def has_next_def Let_def)
  ultimately show ?case by simp
qed

section \<open>Offsets into the guest's memory\<close>

lemma offset_in_span:
  assumes "j < 2 ^ 32" and "t + n \<le> 2 ^ 32"
  shows "gmem + of_nat j \<in> span (gmem + of_nat t) n \<longleftrightarrow> t \<le> j \<and> j < t + n"
proof -
  have "gmem + of_nat j \<in> span (gmem + of_nat t) n \<longleftrightarrow> (\<exists>i<n. (of_nat j :: u64) = of_nat (t + i))"
    by (auto simp: span_cases add.assoc)
  also have "\<dots> \<longleftrightarrow> (\<exists>i<n. j = t + i)"
  proof -
    have "(of_nat j :: u64) = of_nat (t + i) \<longleftrightarrow> j = t + i" if "i < n" for i
      using assms that by (intro of_nat_u64_inj) simp_all
    then show ?thesis by blast
  qed
  also have "\<dots> \<longleftrightarrow> t \<le> j \<and> j < t + n" by (auto intro: exI [of _ "j - t"])
  finally show ?thesis .
qed

lemma bytes_at_outside: "x \<notin> span a (length bs) \<Longrightarrow> bytes_at a bs m x = m x"
proof (induction bs arbitrary: a m)
  case (Cons b bs)
  have "a \<in> span a (length (b # bs))" by (force simp: span_cases)
  then have "x \<noteq> a" using Cons.prems by blast
  moreover have "span (a + 1) (length bs) \<subseteq> span a (length (b # bs))" using span_part [of 1 "length bs" _ a] by simp
  then have "x \<notin> span (a + 1) (length bs)" using Cons.prems by blast
  then have "bytes_at (a + 1) bs (m(a := b)) x = (m(a := b)) x" by (rule Cons.IH)
  ultimately show ?case by (simp only: bytes_at.simps fun_upd_apply if_False)
qed simp

text \<open>The byte at an offset.\<close>

definition cell :: "mem \<Rightarrow> u64 \<Rightarrow> nat \<Rightarrow> u8" where
  "cell m gmem j = m (gmem + of_nat j)"

lemma put_bytes_outside:
  assumes "j < off \<or> off + length s \<le> j" and "j < 2 ^ 16" and "off + length s \<le> 2 ^ 16"
  shows "cell (put_bytes gmem off s m) gmem j = cell m gmem j"
  unfolding put_bytes_def cell_def using assms by (intro bytes_at_outside) (auto simp: offset_in_span)

lemma put_bytes_inside:
  assumes "off + length s \<le> 2 ^ 16"
  shows "map (\<lambda>k. cell (put_bytes gmem off s m) gmem (off + k)) [0..<length s] = map of_char s"
  using assms
proof (induction s arbitrary: off m)
  case (Cons c s)
  let ?m = "m(gmem + of_nat off := of_char c)"
  have step: "put_bytes gmem off (c # s) m = put_bytes gmem (Suc off) s ?m"
    by (simp add: put_bytes_def ac_simps)
  have "cell (put_bytes gmem (Suc off) s ?m) gmem off = of_char c"
    using Cons.prems by (subst put_bytes_outside) (auto simp: cell_def)
  moreover have "map (\<lambda>k. cell (put_bytes gmem (Suc off) s ?m) gmem (Suc off + k)) [0..<length s] = map of_char s"
    using Cons.prems by (intro Cons.IH) simp
  moreover have upt: "[0..<length (c # s)] = 0 # map Suc [0..<length s]"
    by (simp add: map_Suc_upt upt_conv_Cons del: upt_Suc)
  ultimately show ?case unfolding step upt by (simp add: comp_def ac_simps)
qed simp

lemma store_desc_outside_at:
  assumes "j < tbl + 16 * i \<or> tbl + 16 * i + 16 \<le> j" and "j < 2 ^ 16" and "tbl + 16 * i + 16 \<le> 2 ^ 16"
  shows "cell (store_desc m (gmem + of_nat tbl + 16 * of_nat i) d) gmem j = cell m gmem j"
proof -
  have "gmem + of_nat j \<notin> span (gmem + of_nat (tbl + 16 * i)) 16"
    using assms by (subst offset_in_span) auto
  then have "gmem + of_nat j \<notin> span (gmem + of_nat tbl + 16 * of_nat i) 16" by (simp add: ac_simps)
  then show ?thesis unfolding cell_def by (rule store_desc_outside)
qed

lemma load_desc_cells:
  assumes "\<And>j. tbl + 16 * i \<le> j \<Longrightarrow> j < tbl + 16 * i + 16 \<Longrightarrow> cell m gmem j = cell m' gmem j"
  shows "load_desc m (gmem + of_nat tbl) (of_nat i) = load_desc m' (gmem + of_nat tbl) (of_nat i)"
proof (rule load_desc_cong)
  fix x assume "x \<in> span (gmem + of_nat tbl + 16 * of_nat i) 16"
  then obtain k where "k < 16" "x = gmem + of_nat (tbl + 16 * i + k)"
    by (auto simp: span_cases ac_simps)
  then show "m x = m' x" using assms [of "tbl + 16 * i + k"] by (simp add: cell_def)
qed

section \<open>What \<open>lay_chain\<close> leaves in memory\<close>

text \<open>A table whose entries from \<open>i\<close> on are the given ones, each linked to the next; \<open>fl\<close> are the last one's flags.\<close>

fun laid :: "mem \<Rightarrow> u64 \<Rightarrow> u16 \<Rightarrow> nat \<Rightarrow> vring_desc list \<Rightarrow> bool" where
  "laid m t fl i [] \<longleftrightarrow> True"
| "laid m t fl i (d # ds) \<longleftrightarrow> load_desc m t (of_nat i) = d \<and>
     (if ds = [] then d_flags d = fl else d_flags d = VRING_DESC_F_NEXT \<and> d_next d = of_nat (i + 1)) \<and>
     laid m t fl (i + 1) ds"

definition in_arena :: "nat \<Rightarrow> nat \<Rightarrow> vring_desc \<Rightarrow> bool" where
  "in_arena lo hi d \<longleftrightarrow> d_len d \<noteq> 0 \<and> (\<exists>b. d_addr d = gpa_of b \<and> lo \<le> b \<and> b + unat (d_len d) \<le> hi)"

definition desc_text :: "mem \<Rightarrow> u64 \<Rightarrow> vring_desc \<Rightarrow> u8 list" where
  "desc_text m gmem d = map (\<lambda>k. cell m gmem (unat (d_addr d - R0_BASE) + k)) [0..<unat (d_len d)]"

lemma desc_text_at:
  "b < RSIZE \<Longrightarrow> d_addr d = gpa_of b \<Longrightarrow>
     desc_text m gmem d = map (\<lambda>k. cell m gmem (b + k)) [0..<unat (d_len d)]"
  by (simp add: desc_text_def gpa_of_def RSIZE_def unat_of_nat take_bit_nat_eq_self)

lemma desc_text_cells:
  assumes "in_arena lo hi d" and "hi \<le> RSIZE" and "\<And>j. lo \<le> j \<Longrightarrow> j < hi \<Longrightarrow> cell m gmem j = cell m' gmem j"
  shows "desc_text m gmem d = desc_text m' gmem d"
proof -
  obtain b where b: "d_addr d = gpa_of b" "lo \<le> b" "b + unat (d_len d) \<le> hi" "d_len d \<noteq> 0"
    using assms(1) by (auto simp: in_arena_def)
  then have "b < RSIZE" using assms(2) unat_gt_0 [of "d_len d"] by linarith
  with b assms(3) show ?thesis by (auto simp: desc_text_at)
qed

lemma rnd_less: "n \<noteq> 0 \<Longrightarrow> fst (rnd s n) < n"
  by (simp add: rnd_def Let_def word_mod_less_divisor word_gt_0)

lemma alloc_pay_bump:
  "pay + n \<le> RSIZE \<Longrightarrow> alloc_pay pay n 1 = (pay, pay + n)"
  by (simp add: alloc_pay_def Let_def RSIZE_def GMEM_SIZE_def)

lemma sint_small: "unat (w :: u32) < 2 ^ 31 \<Longrightarrow> sint w = int (unat w)"
proof -
  assume "unat w < 2 ^ 31"
  then have "int (unat w) < int (2 ^ 31)" by (simp only: of_nat_less_iff)
  then have "uint w < 2 ^ 31" by simp
  have "0 \<le> uint w" by simp
  then have "- (2 ^ 31) \<le> uint w" by (rule order_trans [rotated]) simp
  then have "signed_take_bit 31 (uint w) = uint w" using \<open>uint w < 2 ^ 31\<close> by (rule signed_take_bit_int_eq_self)
  then show ?thesis by (simp add: sint_uint)
qed

text \<open>A part is not empty and leaves at least one byte for each part still to come.\<close>

lemma part_len_bounds:
  assumes "part_len (int rest) k seed = (t, seed1)" and "Suc k < rest" and "rest < 2 ^ 31"
  shows "0 < t \<and> nat t \<le> rest \<and> (if k = 0 then nat t = rest else nat t + k < rest)"
proof (cases "k = 0")
  case True
  with assms show ?thesis by (auto simp: part_len_def)
next
  case False
  let ?n = "word_of_int (int rest - int (Suc k)) :: u32"
  have "int rest - int (Suc k) = int (rest - Suc k)" using assms(2) by simp
  then have "?n = of_nat (rest - Suc k)" by (simp only: of_int_of_nat_eq)
  then have n: "unat ?n = rest - Suc k"
    using assms(3) by (simp only: unat_of_nat) (simp add: take_bit_nat_eq_self)
  have "?n \<noteq> 0" using n assms(2) by (metis diff_is_0_eq' not_less unat_0 zero_less_diff less_numeral_extra(3))
  define r where "r = fst (rnd seed ?n)"
  have "unat r < rest - Suc k"
    using rnd_less [OF \<open>?n \<noteq> 0\<close>, of seed] n by (simp only: r_def word_less_nat_alt)
  moreover from this have "sint r = int (unat r)" using assms(3) by (intro sint_small) simp
  moreover have "t = 1 + sint r"
    using assms(1) False by (simp add: part_len_def case_prod_beta r_def)
  ultimately have r: "unat r < rest - Suc k" "t = int (1 + unat r)" by simp_all
  have "nat t = 1 + unat r" "0 < t" unfolding r(2) by (simp_all only: nat_int of_nat_0_less_iff)
  moreover have "unat r + Suc k < rest" using r(1) by linarith
  ultimately show ?thesis using False by simp
qed

text \<open>One part: its bytes and its descriptor.\<close>

lemma part_laid:
  assumes "0 < length s" and "pay + length s \<le> RSIZE" and "tbl + 16 * i + 16 \<le> pay"
    and "d_addr d = gpa_of pay" and "d_len d = of_nat (length s)"
    and "m' = store_desc (put_bytes gmem pay s m) (gmem + of_nat tbl + 16 * of_nat i) d"
  shows "load_desc m' (gmem + of_nat tbl) (of_nat i) = d"
    and "desc_text m' gmem d = map of_char s" and "in_arena pay (pay + length s) d"
    and "j < 2 ^ 16 \<Longrightarrow> \<not> (tbl + 16 * i \<le> j \<and> j < tbl + 16 * i + 16) \<Longrightarrow> \<not> (pay \<le> j \<and> j < pay + length s) \<Longrightarrow>
      cell m' gmem j = cell m gmem j"
proof -
  have small: "pay + length s \<le> 2 ^ 16" "length s < 2 ^ 32" using assms(2) by (simp_all add: RSIZE_def)
  have len: "unat (d_len d) = length s"
    using small(2) by (simp add: assms(5) unat_of_nat take_bit_nat_eq_self)
  show "load_desc m' (gmem + of_nat tbl) (of_nat i) = d"
    unfolding assms(6) by (rule load_store_desc)
  have "pay < RSIZE" using assms(1,2) by linarith
  then have "desc_text m' gmem d = map (\<lambda>k. cell m' gmem (pay + k)) [0..<length s]"
    using assms(4) len by (simp add: desc_text_at)
  also have "\<dots> = map (\<lambda>k. cell (put_bytes gmem pay s m) gmem (pay + k)) [0..<length s]"
    using assms(3) small by (auto simp: assms(6) store_desc_outside_at)
  also have "\<dots> = map of_char s" by (rule put_bytes_inside [OF small(1)])
  finally show "desc_text m' gmem d = map of_char s" .
  have "d_len d \<noteq> 0" using len assms(1) by (metis less_numeral_extra(3) unat_0)
  then show "in_arena pay (pay + length s) d" using len assms(4) by (auto simp: in_arena_def)
  show "cell m' gmem j = cell m gmem j"
    if "j < 2 ^ 16" "\<not> (tbl + 16 * i \<le> j \<and> j < tbl + 16 * i + 16)" "\<not> (pay \<le> j \<and> j < pay + length s)"
  proof -
    have "cell m' gmem j = cell (put_bytes gmem pay s m) gmem j"
      unfolding assms(6) using that assms(3) small by (intro store_desc_outside_at) auto
    also have "\<dots> = cell m gmem j" using that small by (intro put_bytes_outside) auto
    finally show ?thesis .
  qed
qed

text \<open>
  The whole chain: its descriptors, their buffers in order in the arena, and nothing else changed.
\<close>

definition chain_laid ::
    "u64 \<Rightarrow> nat \<Rightarrow> nat \<Rightarrow> nat \<Rightarrow> nat \<Rightarrow> nat \<Rightarrow> string \<Rightarrow> mem \<Rightarrow> mem \<Rightarrow> bool"
where
  "chain_laid gmem tbl i k pay pay' s m m' \<longleftrightarrow>
     (\<forall>j < 2 ^ 16. \<not> (tbl + 16 * i \<le> j \<and> j < tbl + 16 * (i + k)) \<longrightarrow> \<not> (pay \<le> j \<and> j < pay') \<longrightarrow>
        cell m' gmem j = cell m gmem j) \<and>
     (\<exists>ds. length ds = k \<and> laid m' (gmem + of_nat tbl) 0 i ds \<and> list_all (in_arena pay pay') ds \<and>
        concat (map (desc_text m' gmem) ds) = map of_char s)"

lemma chain_laid_Cons:
  assumes d: "load_desc m1 (gmem + of_nat tbl) (of_nat i) = d" "desc_text m1 gmem d = map of_char s"
      "in_arena pay (pay + n) d" "d_flags d = (if k = 0 then 0 else VRING_DESC_F_NEXT)" "d_next d = of_nat (i + 1)"
    and frame: "\<And>j. j < 2 ^ 16 \<Longrightarrow> \<not> (tbl + 16 * i \<le> j \<and> j < tbl + 16 * i + 16) \<Longrightarrow> \<not> (pay \<le> j \<and> j < pay + n) \<Longrightarrow>
      cell m1 gmem j = cell m gmem j"
    and rest: "chain_laid gmem tbl (i + 1) k (pay + n) pay' s' m1 m'"
    and "tbl + 16 * (i + Suc k) \<le> pay" and "pay + n \<le> pay'" and "pay' \<le> RSIZE"
  shows "chain_laid gmem tbl i (Suc k) pay pay' (s @ s') m m'"
proof -
  obtain ds where ds: "length ds = k" "laid m' (gmem + of_nat tbl) 0 (i + 1) ds"
      "list_all (in_arena (pay + n) pay') ds" "concat (map (desc_text m' gmem) ds) = map of_char s'"
    using rest by (auto simp: chain_laid_def)
  have keep: "cell m' gmem j = cell m1 gmem j"
    if "j < pay + n" "\<not> (tbl + 16 * (i + 1) \<le> j \<and> j < tbl + 16 * (i + Suc k))" for j
    using rest that assms(9,10) by (auto simp: chain_laid_def RSIZE_def)
  have "load_desc m' (gmem + of_nat tbl) (of_nat i) = d"
    unfolding d(1) [symmetric] using assms(8) by (intro load_desc_cells keep) auto
  moreover have "desc_text m' gmem d = map of_char s"
    unfolding d(2) [symmetric] using assms(8-10) by (intro desc_text_cells [OF d(3)] keep) auto
  moreover have "cell m' gmem j = cell m gmem j"
    if "j < 2 ^ 16" "\<not> (tbl + 16 * i \<le> j \<and> j < tbl + 16 * (i + Suc k))" "\<not> (pay \<le> j \<and> j < pay')" for j
  proof -
    have "cell m' gmem j = cell m1 gmem j"
      using rest that assms(9) by (auto simp: chain_laid_def)
    also have "\<dots> = cell m gmem j" using that assms(9) by (intro frame) auto
    finally show ?thesis .
  qed
  moreover have "in_arena pay pay' d" "list_all (in_arena pay pay') ds"
    using d(3) ds(3) assms(9) by (fastforce simp: list_all_iff in_arena_def)+
  ultimately show ?thesis
    using ds d(4,5) unfolding chain_laid_def by (intro conjI exI [of _ "d # ds"]) auto
qed

lemma lay_parts_laid:
  assumes "lay_parts gmem tbl base base payload p k off (m, pay, seed) = (m', pay', seed')"
    and "if k = 0 then off = length payload else off + k < length payload"
    and "pay + (length payload - off) \<le> RSIZE" and "tbl + 16 * (base + p + k) \<le> pay"
  shows "pay' = pay + (length payload - off) \<and> chain_laid gmem tbl (base + p) k pay pay' (drop off payload) m m'"
  using assms
proof (induction k arbitrary: p off m pay seed)
  case 0
  then show ?case by (simp add: chain_laid_def)
next
  case (Suc k)
  let ?rest = "length payload - off"
  obtain t seed1 where t: "part_len (int ?rest) k seed = (t, seed1)" by fastforce
  let ?n = "nat t"
  let ?s = "take ?n (drop off payload)"
  have rest: "Suc k < ?rest" "?rest < 2 ^ 31" "off \<le> length payload"
    using Suc.prems(2,3) by (auto simp: RSIZE_def)
  note len = part_len_bounds [OF t rest(1,2)]
  have n: "0 < ?n" "?n \<le> ?rest" "length ?s = ?n" using len by auto
  have pay: "pay + ?n \<le> RSIZE" using Suc.prems(3) n(2) by simp
  let ?d = "\<lparr>d_addr = gpa_of pay, d_len = of_nat ?n, d_flags = (if k = 0 then 0 else VRING_DESC_F_NEXT),
    d_next = of_nat (base + p + 1)\<rparr>"
  define m2 where "m2 = store_desc (put_bytes gmem pay ?s m) (gmem + of_nat tbl + 16 * of_nat (base + p)) ?d"
  have rec: "lay_parts gmem tbl base base payload (p + 1) k (off + ?n) (m2, pay + ?n, seed1) = (m', pay', seed')"
    using Suc.prems(1) t n(1) alloc_pay_bump [OF pay] rest(3)
    by (simp add: m2_def of_nat_diff Let_def)
  have inv: "if k = 0 then off + ?n = length payload else off + ?n + k < length payload"
    using len rest by auto
  have "pay + ?n + (length payload - (off + ?n)) \<le> RSIZE" "tbl + 16 * (base + (p + 1) + k) \<le> pay + ?n"
    using Suc.prems(3,4) n(2) by auto
  note IH = Suc.IH [OF rec inv this]
  have pay': "pay' = pay + ?rest" using IH n(2) rest(3) by simp
  have pl: "0 < length ?s" "pay + length ?s \<le> RSIZE" "tbl + 16 * (base + p) + 16 \<le> pay"
    using n pay Suc.prems(4) by simp_all
  have dl: "d_addr ?d = gpa_of pay" "d_len ?d = of_nat (length ?s)" by (simp_all only: n(3) vring_desc.simps)
  note part = part_laid [OF pl dl m2_def, unfolded n(3)]
  have "chain_laid gmem tbl (base + p) (Suc k) pay pay' (?s @ drop (off + ?n) payload) m m'"
    using Suc.prems(3,4) n(2) pay' by (intro chain_laid_Cons [OF part(1-3) _ _ part(4)]) (use IH in \<open>auto simp: ac_simps\<close>)
  moreover have "?s @ drop (off + ?n) payload = drop off payload"
    using append_take_drop_id [of ?n "drop off payload"] by (simp only: drop_drop add.commute)
  ultimately show ?case using pay' by simp
qed

section \<open>A record in memory\<close>

lemma laid_nth:
  "laid m t fl i ds \<longleftrightarrow> (\<forall>q < length ds. load_desc m t (of_nat (i + q)) = ds ! q \<and>
     (if Suc q = length ds then d_flags (ds ! q) = fl
      else d_flags (ds ! q) = VRING_DESC_F_NEXT \<and> d_next (ds ! q) = of_nat (i + q + 1)))"
proof (induction ds arbitrary: i)
  case (Cons d ds)
  show ?case
    by (subst All_less_Suc2 [of "length ds", folded length_Cons [of d]]) (auto simp: Cons.IH ac_simps, metis One_nat_def diff_Suc_1)
qed simp

lemma laid_cells:
  assumes "laid m (gmem + of_nat tbl) fl i ds"
    and "\<And>j. tbl + 16 * i \<le> j \<Longrightarrow> j < tbl + 16 * (i + length ds) \<Longrightarrow> cell m gmem j = cell m' gmem j"
  shows "laid m' (gmem + of_nat tbl) fl i ds"
  using assms
proof (induction ds arbitrary: i)
  case (Cons d ds)
  have "load_desc m (gmem + of_nat tbl) (of_nat i) = load_desc m' (gmem + of_nat tbl) (of_nat i)"
    by (rule load_desc_cells, rule Cons.prems(2)) auto
  moreover have "laid m' (gmem + of_nat tbl) fl (i + 1) ds"
    using Cons.prems by (intro Cons.IH) auto
  ultimately show ?case using Cons.prems(1) by auto
qed simp

text \<open>A record laid out in the queue's table itself, or behind an indirect descriptor.\<close>

definition buffers_hold :: "mem \<Rightarrow> u64 \<Rightarrow> vring_desc list \<Rightarrow> u8 list \<Rightarrow> bool" where
  "buffers_hold m gmem ds bs \<longleftrightarrow> ds \<noteq> [] \<and> list_all (in_arena OFF_PAY RSIZE) ds \<and>
     concat (map (desc_text m gmem) (filter (\<lambda>d. \<not> is_write d) ds)) = bs"

definition holds_direct :: "mem \<Rightarrow> u64 \<Rightarrow> nat \<Rightarrow> u8 list \<Rightarrow> bool" where
  "holds_direct m gmem slot bs \<longleftrightarrow> (\<exists>ds fl. fl \<in> {0, VRING_DESC_F_WRITE} \<and> slot + length ds \<le> QNUM \<and>
     laid m (gmem + of_nat OFF_DESC) fl slot ds \<and> buffers_hold m gmem ds bs)"

definition holds_indirect :: "mem \<Rightarrow> u64 \<Rightarrow> nat \<Rightarrow> u8 list \<Rightarrow> bool" where
  "holds_indirect m gmem slot bs \<longleftrightarrow> slot < QNUM \<and> (\<exists>tbl ds. OFF_PAY \<le> tbl \<and> tbl + 16 * length ds \<le> RSIZE \<and> length ds \<le> QNUM \<and>
     load_desc m (gmem + of_nat OFF_DESC) (of_nat slot) =
       \<lparr>d_addr = gpa_of tbl, d_len = of_nat (length ds * 16), d_flags = VRING_DESC_F_INDIRECT, d_next = 0\<rparr> \<and>
     laid m (gmem + of_nat tbl) 0 0 ds \<and> buffers_hold m gmem ds bs)"

definition holds_record :: "mem \<Rightarrow> u64 \<Rightarrow> nat \<Rightarrow> u8 list \<Rightarrow> bool" where
  "holds_record m gmem slot bs \<longleftrightarrow> holds_direct m gmem slot bs \<or> holds_indirect m gmem slot bs"

lemma buffers_hold_cells:
  assumes "buffers_hold m gmem ds bs" and "\<And>j. OFF_PAY \<le> j \<Longrightarrow> j < RSIZE \<Longrightarrow> cell m gmem j = cell m' gmem j"
  shows "buffers_hold m' gmem ds bs"
proof -
  have "desc_text m gmem d = desc_text m' gmem d" if "d \<in> set ds" for d
    using assms that by (intro desc_text_cells [of OFF_PAY RSIZE]) (auto simp: buffers_hold_def list_all_iff)
  then have "map (desc_text m gmem) (filter (\<lambda>d. \<not> is_write d) ds) = map (desc_text m' gmem) (filter (\<lambda>d. \<not> is_write d) ds)"
    by simp
  with assms(1) show ?thesis by (simp add: buffers_hold_def)
qed

text \<open>Publishing stores into the available ring, which lies between the table and the arena.\<close>

lemma holds_record_cells:
  assumes "holds_record m gmem slot bs"
    and same: "\<And>j. j < OFF_AVAIL \<or> OFF_PAY \<le> j \<and> j < RSIZE \<Longrightarrow> cell m gmem j = cell m' gmem j"
  shows "holds_record m' gmem slot bs"
  using assms(1) unfolding holds_record_def
proof (elim disjE)
  assume "holds_direct m gmem slot bs"
  then obtain ds fl where d: "fl \<in> {0, VRING_DESC_F_WRITE}" "slot + length ds \<le> QNUM"
      "laid m (gmem + of_nat OFF_DESC) fl slot ds" "buffers_hold m gmem ds bs"
    by (auto simp: holds_direct_def)
  have "laid m' (gmem + of_nat OFF_DESC) fl slot ds"
    using d(2) by (intro laid_cells [OF d(3)] same) (auto simp: QNUM_def OFF_DESC_def OFF_AVAIL_def)
  with d buffers_hold_cells [OF d(4) same] show "holds_direct m' gmem slot bs \<or> holds_indirect m' gmem slot bs"
    unfolding holds_direct_def by blast
next
  assume "holds_indirect m gmem slot bs"
  then obtain tbl ds where d: "slot < QNUM" "OFF_PAY \<le> tbl" "tbl + 16 * length ds \<le> RSIZE"
     "load_desc m (gmem + of_nat OFF_DESC) (of_nat slot) =
       \<lparr>d_addr = gpa_of tbl, d_len = of_nat (length ds * 16), d_flags = VRING_DESC_F_INDIRECT, d_next = 0\<rparr>"
     "laid m (gmem + of_nat tbl) 0 0 ds" "buffers_hold m gmem ds bs" "length ds \<le> QNUM"
    by (auto simp: holds_indirect_def)
  have "load_desc m (gmem + of_nat OFF_DESC) (of_nat slot) = load_desc m' (gmem + of_nat OFF_DESC) (of_nat slot)"
    using d(1) by (intro load_desc_cells same) (auto simp: QNUM_def OFF_DESC_def OFF_AVAIL_def)
  moreover have "laid m' (gmem + of_nat tbl) 0 0 ds"
    using d(2,3) by (intro laid_cells [OF d(5)] same) auto
  ultimately show "holds_direct m' gmem slot bs \<or> holds_indirect m' gmem slot bs"
    using d buffers_hold_cells [OF d(6) same] unfolding holds_indirect_def by metis
qed

section \<open>Laying out leaves a record\<close>

lemma laid_reads:
  assumes "laid m t fl i ds" and "\<not> is_write \<lparr>d_addr = 0, d_len = 0, d_flags = fl, d_next = 0\<rparr>"
  shows "list_all (\<lambda>d. \<not> is_write d) ds"
  using assms by (induction ds arbitrary: i) (auto simp: is_write_def VRING_DESC_F_NEXT_def VRING_DESC_F_WRITE_def split: if_splits)

lemma chain_laid_holds:
  assumes "chain_laid gmem tbl i k pay pay' payload m m'" and "0 < k" and "OFF_PAY \<le> pay" and "pay' \<le> RSIZE"
  obtains ds where "length ds = k" and "laid m' (gmem + of_nat tbl) 0 i ds" and "buffers_hold m' gmem ds (map of_char payload)"
    and "list_all (\<lambda>d. \<not> is_write d) ds"
proof -
  obtain ds where ds: "length ds = k" "laid m' (gmem + of_nat tbl) 0 i ds" "list_all (in_arena pay pay') ds"
      "concat (map (desc_text m' gmem) ds) = map of_char payload"
    using assms(1) by (auto simp: chain_laid_def)
  have rd: "list_all (\<lambda>d. \<not> is_write d) ds"
    using laid_reads [OF ds(2)] by (simp add: is_write_def)
  then have "filter (\<lambda>d. \<not> is_write d) ds = ds" by (simp add: list_all_iff)
  moreover have "list_all (in_arena OFF_PAY RSIZE) ds"
    using ds(3) assms(3,4) by (fastforce simp: list_all_iff in_arena_def)
  ultimately have "buffers_hold m' gmem ds (map of_char payload)"
    using ds assms(2) by (auto simp: buffers_hold_def)
  with ds rd that show ?thesis by blast
qed

lemma lay_chain_laid:
  assumes "lay_chain gmem tbl base base payload k (m, pay, seed) = (m', pay', seed')"
    and "0 < k" and "k < length payload" and "pay + length payload \<le> RSIZE" and "tbl + 16 * (base + k) \<le> pay"
  shows "pay' = pay + length payload \<and> chain_laid gmem tbl base k pay pay' payload m m'"
  using assms lay_parts_laid [of gmem tbl base payload 0 k 0 m pay seed m' pay' seed'] by (auto simp: lay_chain_def)

lemma alloc_pay_16:
  assumes "alloc_pay pay n 16 = (b, pay1)" and "pay + 15 + n \<le> RSIZE"
  shows "pay \<le> b \<and> b \<le> pay + 15 \<and> pay1 = b + n"
proof -
  have "(pay + 15) div 16 * 16 \<le> pay + 15" "pay \<le> (pay + 15) div 16 * 16" by simp_all
  with assms show ?thesis by (auto simp: alloc_pay_def Let_def RSIZE_def GMEM_SIZE_def split: if_splits)
qed

lemma rnd_2: "unat (fst (rnd s 2)) < 2"
  using rnd_less [of 2 s] by (simp add: word_less_nat_alt)

lemma lay_single_holds:
  assumes "lay_single gmem slot payload (m, pay, seed) = (m', pay', seed')" and "payload \<noteq> []"
    and "slot < QNUM" and "OFF_PAY \<le> pay" and "pay + length payload \<le> RSIZE"
  shows "holds_record m' gmem slot (map of_char payload) \<and> pay' = pay + length payload"
proof -
  let ?d = "\<lparr>d_addr = gpa_of pay, d_len = of_nat (length payload), d_flags = 0, d_next = 0\<rparr>"
  have eq: "m' = store_desc (put_bytes gmem pay payload m) (gmem + of_nat OFF_DESC + 16 * of_nat slot) ?d"
    "pay' = pay + length payload"
    using assms(1) alloc_pay_bump [OF assms(5)] by (simp_all add: lay_single_def)
  have pl: "0 < length payload" "OFF_DESC + 16 * slot + 16 \<le> pay"
    using assms(2-4) by (simp_all add: OFF_DESC_def OFF_PAY_def QNUM_def)
  note part = part_laid [OF pl(1) assms(5) pl(2) _ _ eq(1), simplified]
  have "in_arena OFF_PAY RSIZE ?d" using part(3) assms(4,5) by (fastforce simp: in_arena_def)
  then have "buffers_hold m' gmem [?d] (map of_char payload)"
    using part(2) by (simp add: buffers_hold_def is_write_def)
  moreover have "laid m' (gmem + of_nat OFF_DESC) 0 slot [?d]" using part(1) by simp
  ultimately have "holds_direct m' gmem slot (map of_char payload)"
    using assms(3) by (auto simp: holds_direct_def intro!: exI [of _ "[?d]"] exI [of _ 0])
  with eq(2) show ?thesis by (simp add: holds_record_def)
qed

lemma lay_indirect_holds:
  assumes lay: "lay_indirect gmem slot payload (m, pay, seed) = (m', pay', seed')" and "3 < length payload"
    and "slot < QNUM" and "OFF_PAY \<le> pay" and "pay + length payload + 47 \<le> RSIZE"
  shows "holds_record m' gmem slot (map of_char payload) \<and> pay' \<le> pay + length payload + 47"
proof -
  obtain r seed1 where r: "rnd seed 2 = (r, seed1)" by fastforce
  let ?n = "1 + unat r"
  have n: "0 < ?n" "?n \<le> 2" using rnd_2 [of seed] r by simp_all
  obtain tbl pay1 where a: "alloc_pay pay (?n * 16) 16 = (tbl, pay1)" by fastforce
  have tbl: "pay \<le> tbl" "tbl \<le> pay + 15" "pay1 = tbl + ?n * 16"
    using alloc_pay_16 [OF a] assms(5) n(2) by auto
  obtain m1 pay2 seed2 where c: "lay_chain gmem tbl 0 0 payload ?n (m, pay1, seed1) = (m1, pay2, seed2)"
    by (metis prod_cases3)
  let ?d = "\<lparr>d_addr = gpa_of tbl, d_len = of_nat (?n * 16), d_flags = VRING_DESC_F_INDIRECT, d_next = 0\<rparr>"
  have eq: "m' = store_desc m1 (gmem + of_nat OFF_DESC + 16 * of_nat slot) ?d" "pay' = pay2"
    using lay r a c by (simp_all add: lay_indirect_def Let_def)
  have "pay1 + length payload \<le> RSIZE" "?n < length payload" "tbl + 16 * (0 + ?n) \<le> pay1"
    using tbl n assms(2,5) by auto
  from lay_chain_laid [OF c n(1) this(2,1,3)]
  have pay2: "pay2 = pay1 + length payload" and laid: "chain_laid gmem tbl 0 ?n pay1 pay2 payload m m1" by auto
  have bounds: "OFF_PAY \<le> pay1" "pay2 \<le> RSIZE" using tbl assms(4,5) n(2) pay2 by auto
  obtain ds where ds: "length ds = ?n" "laid m1 (gmem + of_nat tbl) 0 0 ds" "buffers_hold m1 gmem ds (map of_char payload)"
    by (rule chain_laid_holds [OF laid n(1) bounds])
  have keep: "cell m1 gmem j = cell m' gmem j" if "OFF_PAY \<le> j" "j < RSIZE" for j
    unfolding eq(1) using that assms(3)
    by (intro store_desc_outside_at [symmetric]) (auto simp: OFF_DESC_def OFF_PAY_def RSIZE_def QNUM_def)
  have "laid m' (gmem + of_nat tbl) 0 0 ds"
    using tbl assms(4) bounds pay2 ds(1) by (intro laid_cells [OF ds(2)] keep) auto
  moreover have "load_desc m' (gmem + of_nat OFF_DESC) (of_nat slot) = ?d" unfolding eq(1) by (rule load_store_desc)
  moreover have "OFF_PAY \<le> tbl" "tbl + 16 * length ds \<le> RSIZE" "length ds \<le> QNUM"
    using tbl assms(4,5) ds(1) n(2) by (auto simp: QNUM_def)
  ultimately have "holds_indirect m' gmem slot (map of_char payload)"
    using buffers_hold_cells [OF ds(3) keep] ds(1) assms(3) unfolding holds_indirect_def by metis
  then show ?thesis using eq(2) pay2 tbl n(2) by (simp add: holds_record_def)
qed

text \<open>Linking a descriptor to a further one changes its flags and its successor only.\<close>

lemma load_desc_relink:
  "load_desc (store16 (store16 m (t + 16 * i + 12) f) (t + 16 * i + 14) nx) t i
     = (load_desc m t i)\<lparr>d_flags := f, d_next := nx\<rparr>"
proof -
  let ?p = "t + 16 * i"
  have s: "span ?p 8 \<inter> span (?p + 12) 2 = {}" "span ?p 8 \<inter> span (?p + 14) 2 = {}"
      "span (?p + 12) 2 \<inter> span (?p + 8) 4 = {}" "span (?p + 14) 2 \<inter> span (?p + 8) 4 = {}"
      "span (?p + 14) 2 \<inter> span (?p + 12) 2 = {}"
    using span_parts_apart [of 0 8 12 2 ?p] span_parts_apart [of 0 8 14 2 ?p]
      span_parts_apart [of 12 2 8 4 ?p] span_parts_apart [of 14 2 8 4 ?p] span_parts_apart [of 14 2 12 2 ?p]
    by simp_all
  have "load64 (store16 (store16 m (?p + 12) f) (?p + 14) nx) ?p = load64 m ?p"
    by (rule load64_cong) (use s(1,2) in \<open>simp add: store16_outside disjoint_iff\<close>)
  then show ?thesis using s(3-5) by (simp add: load_desc_def Let_def mem_simps)
qed

lemma store16_outside_at:
  assumes "j < t \<or> t + 2 \<le> j" and "j < 2 ^ 16" and "t + 2 \<le> 2 ^ 16"
  shows "cell (store16 m (gmem + of_nat t) v) gmem j = cell m gmem j"
  unfolding cell_def using assms by (intro store16_outside) (auto simp: offset_in_span)

lemma relink_outside_at:
  assumes "j < tbl + 16 * i \<or> tbl + 16 * i + 16 \<le> j" and "j < 2 ^ 16" and "tbl + 16 * i + 16 \<le> 2 ^ 16"
    and "p = gmem + of_nat tbl + 16 * of_nat i"
  shows "cell (store16 (store16 m (p + 12) f) (p + 14) nx) gmem j = cell m gmem j"
proof -
  have p: "p + 12 = gmem + of_nat (tbl + 16 * i + 12)" "p + 14 = gmem + of_nat (tbl + 16 * i + 14)"
    by (simp_all add: assms(4))
  have "cell (store16 (store16 m (p + 12) f) (p + 14) nx) gmem j = cell (store16 m (p + 12) f) gmem j"
    unfolding p using assms(1-3) by (intro store16_outside_at) auto
  also have "\<dots> = cell m gmem j" unfolding p using assms(1-3) by (intro store16_outside_at) auto
  finally show ?thesis .
qed

definition linked :: "nat \<Rightarrow> vring_desc \<Rightarrow> vring_desc" where
  "linked i d = d\<lparr>d_flags := VRING_DESC_F_NEXT, d_next := of_nat i\<rparr>"

lemma laid_link:
  assumes "laid m t 0 i ds" and "ds \<noteq> []"
    and "\<And>q. i \<le> q \<Longrightarrow> q + 1 < i + length ds \<Longrightarrow> load_desc m' t (of_nat q) = load_desc m t (of_nat q)"
    and "load_desc m' t (of_nat (i + length ds - 1)) = linked (i + length ds) (last ds)"
    and "load_desc m' t (of_nat (i + length ds)) = w"
  shows "laid m' t (d_flags w) i (butlast ds @ [linked (i + length ds) (last ds), w])"
  using assms
proof (induction ds arbitrary: i)
  case (Cons d ds)
  show ?case
  proof (cases "ds = []")
    case True
    with Cons.prems show ?thesis by (simp add: linked_def)
  next
    case False
    have "laid m' t (d_flags w) (i + 1) (butlast ds @ [linked (i + 1 + length ds) (last ds), w])"
      using Cons.prems False by (intro Cons.IH) (auto simp: ac_simps)
    moreover have "load_desc m' t (of_nat i) = d"
      using Cons.prems(1,3) False by auto
    ultimately show ?thesis using Cons.prems(1) False by simp
  qed
qed simp

lemma append_writable:
  assumes "append_desc gmem slot1 (m, pay, seed) = (app, slot', m', pay', seed')" and "app = Writable"
    and "pay + 8 \<le> RSIZE"
  obtains m2 p where "p = gmem + of_nat OFF_DESC + 16 * of_nat (slot1 - 1)"
    and "m2 = store16 (store16 m (p + 12) (load16 m (p + 12) OR VRING_DESC_F_NEXT)) (p + 14) (of_nat slot1)"
    and "m' = store_desc (put_bytes gmem pay ''XXXXXXXX'' m2) (gmem + of_nat OFF_DESC + 16 * of_nat slot1)
      \<lparr>d_addr = gpa_of pay, d_len = of_nat (length ''XXXXXXXX''), d_flags = VRING_DESC_F_WRITE, d_next = 0\<rparr>"
    and "pay' = pay + 8" and "slot' = slot1 + 1"
proof -
  obtain r1 seed1 where r1: "rnd seed 2 = (r1, seed1)" by fastforce
  obtain r2 seed2 where r2: "rnd seed1 2 = (r2, seed2)" by fastforce
  have a: "alloc_pay pay 8 (Suc 0) = (pay, pay + 8)" using alloc_pay_bump [OF assms(3)] by simp
  have "r1 \<noteq> 0" "r2 \<noteq> 0" using assms(1,2) r1 r2 by (auto simp: append_desc_def Let_def split: if_splits)
  with assms(1) r1 r2 a that [OF refl refl] show ?thesis
    by (simp add: append_desc_def Let_def)
qed

lemma append_nothing:
  "append_desc gmem slot1 (m, pay, seed) = (NoMore, slot', m', pay', seed') \<Longrightarrow> m' = m \<and> pay' = pay \<and> slot' = slot1"
  by (auto simp: append_desc_def Let_def case_prod_beta split: if_splits prod.splits)

lemma buffers_link:
  assumes "ds \<noteq> []" and "list_all (\<lambda>d. \<not> is_write d) ds" and "list_all (in_arena OFF_PAY RSIZE) ds"
    and "concat (map (desc_text m gmem) ds) = bs"
    and "\<And>d. d \<in> set ds \<Longrightarrow> desc_text m' gmem d = desc_text m gmem d"
    and "is_write w" and "in_arena OFF_PAY RSIZE w"
  shows "buffers_hold m' gmem (butlast ds @ [linked i (last ds), w]) bs"
proof -
  let ?l = "linked i (last ds)"
  have "desc_text m' gmem ?l = desc_text m gmem (last ds)"
    using assms(5) [of "last ds"] assms(1) by (simp add: desc_text_def linked_def)
  then have "concat (map (desc_text m' gmem) (butlast ds @ [?l])) = concat (map (desc_text m gmem) (butlast ds @ [last ds]))"
    using assms(5) by (simp add: in_set_butlastD cong: map_cong)
  then have "concat (map (desc_text m' gmem) (butlast ds @ [?l])) = bs" using assms(1,4) by simp
  moreover have "list_all (\<lambda>d. \<not> is_write d) (butlast ds @ [?l])"
    using assms(2) by (auto simp: list_all_iff is_write_def linked_def VRING_DESC_F_NEXT_def VRING_DESC_F_WRITE_def
        dest: in_set_butlastD)
  then have "filter (\<lambda>d. \<not> is_write d) (butlast ds @ [?l, w]) = butlast ds @ [?l]"
    using assms(6) by (auto simp: list_all_iff)
  moreover have "in_arena OFF_PAY RSIZE ?l"
    using assms(1,3) last_in_set [of ds] by (auto simp: list_all_iff in_arena_def linked_def)
  then have "list_all (in_arena OFF_PAY RSIZE) (butlast ds @ [?l, w])"
    using assms(3,7) by (auto simp: list_all_iff dest: in_set_butlastD)
  ultimately show ?thesis by (simp add: buffers_hold_def)
qed

text \<open>
  The appended descriptor for writing is linked in; the table before the chain's last entry and the
  arena are as before.
\<close>

lemma append_writable_memory:
  assumes app: "append_desc gmem slot1 (m, pay, seed) = (Writable, slot', m', pay', seed')"
    and last: "load_desc m (gmem + of_nat OFF_DESC) (of_nat (slot1 - 1)) = d" "d_flags d = 0"
    and "0 < slot1" and "slot1 < QNUM" and "OFF_PAY \<le> pay" and "pay + 8 \<le> RSIZE"
    and "w = \<lparr>d_addr = gpa_of pay, d_len = of_nat (length ''XXXXXXXX''), d_flags = VRING_DESC_F_WRITE, d_next = 0\<rparr>"
  shows "load_desc m' (gmem + of_nat OFF_DESC) (of_nat (slot1 - 1)) = linked slot1 d"
    and "load_desc m' (gmem + of_nat OFF_DESC) (of_nat slot1) = w" and "in_arena OFF_PAY RSIZE w"
    and "j < OFF_DESC + 16 * (slot1 - 1) \<or> OFF_PAY \<le> j \<and> j < pay \<Longrightarrow> cell m' gmem j = cell m gmem j"
    and "pay' = pay + 8" and "slot' = slot1 + 1"
proof -
  let ?t = "gmem + of_nat OFF_DESC"
  obtain m2 p where p: "p = ?t + 16 * of_nat (slot1 - 1)"
    and m2: "m2 = store16 (store16 m (p + 12) (load16 m (p + 12) OR VRING_DESC_F_NEXT)) (p + 14) (of_nat slot1)"
    and m': "m' = store_desc (put_bytes gmem pay ''XXXXXXXX'' m2) (?t + 16 * of_nat slot1) w"
    and eq: "pay' = pay + 8" "slot' = slot1 + 1"
    unfolding assms(8) by (rule append_writable [OF app refl assms(7)])
  show "pay' = pay + 8" "slot' = slot1 + 1" by (fact eq)+
  have bounds: "slot1 < 8" "OFF_PAY \<le> pay" "pay < 2 ^ 15" "OFF_DESC = 0" "OFF_PAY = 0x3000"
    using assms(5-7) by (simp_all add: QNUM_def RSIZE_def OFF_DESC_def OFF_PAY_def)
  have len: "0 < length ''XXXXXXXX''" "pay + length ''XXXXXXXX'' \<le> RSIZE" "OFF_DESC + 16 * slot1 + 16 \<le> pay"
    using bounds assms(7) by simp_all
  have w: "d_addr w = gpa_of pay" "d_len w = of_nat (length ''XXXXXXXX'')" by (simp_all add: assms(8))
  note part = part_laid [OF len w m']
  show "load_desc m' ?t (of_nat slot1) = w" by (rule part(1))
  show "in_arena OFF_PAY RSIZE w" using part(3) len(2) bounds(2) by (fastforce simp: in_arena_def)
  have keep2: "cell m' gmem j = cell m2 gmem j" if "j < OFF_DESC + 16 * slot1 \<or> OFF_PAY \<le> j \<and> j < pay" for j
    using that bounds by (intro part(4)) auto
  show "cell m' gmem j = cell m gmem j" if "j < OFF_DESC + 16 * (slot1 - 1) \<or> OFF_PAY \<le> j \<and> j < pay" for j
  proof -
    have "cell m' gmem j = cell m2 gmem j" using that by (intro keep2) auto
    also have "\<dots> = cell m gmem j"
      unfolding m2 using that bounds by (intro relink_outside_at [OF _ _ _ p]) auto
    finally show ?thesis .
  qed
  have "load_desc m' ?t (of_nat (slot1 - 1)) = load_desc m2 ?t (of_nat (slot1 - 1))"
    using assms(4) by (intro load_desc_cells keep2) auto
  moreover have "load16 m (p + 12) = d_flags d" unfolding last(1) [symmetric] p by (simp add: load_desc_def Let_def)
  ultimately show "load_desc m' ?t (of_nat (slot1 - 1)) = linked slot1 d"
    unfolding m2 p using last load_desc_relink [of m ?t "of_nat (slot1 - 1)"] by (simp add: p linked_def)
qed

lemma append_writable_holds:
  assumes app: "append_desc gmem slot1 (m, pay, seed) = (Writable, slot', m', pay', seed')"
    and ds: "laid m (gmem + of_nat OFF_DESC) 0 slot ds" "ds \<noteq> []" "list_all (\<lambda>d. \<not> is_write d) ds"
      "list_all (in_arena OFF_PAY pay) ds" "concat (map (desc_text m gmem) ds) = bs"
    and slot1: "slot1 = slot + length ds" "slot1 < QNUM" and pay: "OFF_PAY \<le> pay" "pay + 8 \<le> RSIZE"
  shows "holds_direct m' gmem slot bs \<and> pay' = pay + 8 \<and> slot' = slot1 + 1"
proof -
  let ?t = "gmem + of_nat OFF_DESC"
  let ?w = "\<lparr>d_addr = gpa_of pay, d_len = of_nat (length ''XXXXXXXX''), d_flags = VRING_DESC_F_WRITE, d_next = 0\<rparr>"
  have n: "0 < length ds" "0 < slot1" using ds(2) slot1(1) by simp_all
  have last: "load_desc m ?t (of_nat (slot1 - 1)) = last ds" "d_flags (last ds) = 0"
  proof -
    have "Suc (length ds - 1) = length ds" "slot + (length ds - 1) = slot1 - 1" using n slot1(1) by linarith+
    moreover from this have "length ds - 1 < length ds" by linarith
    ultimately show "load_desc m ?t (of_nat (slot1 - 1)) = last ds" "d_flags (last ds) = 0"
      using ds(1) [unfolded laid_nth, rule_format, of "length ds - 1"] ds(2)
      by (simp_all only: last_conv_nth if_True simp_thms)
  qed
  note new = append_writable_memory [OF app last n(2) slot1(2) pay refl]
  have "load_desc m' ?t (of_nat q) = load_desc m ?t (of_nat q)" if "slot \<le> q" "q + 1 < slot + length ds" for q
    using that slot1(1) by (intro load_desc_cells new(4)) auto
  from laid_link [OF ds(1,2) this, of ?w] new(1,2)
  have laid: "laid m' ?t VRING_DESC_F_WRITE slot (butlast ds @ [linked slot1 (last ds), ?w])"
    using slot1(1) by simp
  have "desc_text m' gmem d = desc_text m gmem d" if "d \<in> set ds" for d
    using that ds(4) pay by (intro desc_text_cells [of OFF_PAY pay] new(4)) (auto simp: list_all_iff)
  moreover have "list_all (in_arena OFF_PAY RSIZE) ds"
    using ds(4) pay(2) by (fastforce simp: list_all_iff in_arena_def)
  ultimately have "buffers_hold m' gmem (butlast ds @ [linked slot1 (last ds), ?w]) bs"
    using new(3) ds(2,3,5) by (intro buffers_link) (simp_all add: is_write_def VRING_DESC_F_WRITE_def)
  with laid have "holds_direct m' gmem slot bs"
    using slot1 ds(2) unfolding holds_direct_def
    by (intro exI [of _ "butlast ds @ [linked slot1 (last ds), ?w]"] exI [of _ VRING_DESC_F_WRITE]) auto
  with new(5,6) show ?thesis by blast
qed

lemma lay_chained_holds:
  assumes lay: "lay_record S_CHAINED gmem slot payload (m, pay, seed) = (app, slot', m', pay', seed')" and "app \<noteq> Unmapped"
    and "3 < length payload" and "slot + 4 \<le> QNUM" and "OFF_PAY \<le> pay" and "pay + length payload + 8 \<le> RSIZE"
  shows "holds_direct m' gmem slot (map of_char payload) \<and> pay' \<le> pay + length payload + 8 \<and> slot' \<le> slot + 4"
proof -
  obtain r seed1 where r: "rnd seed 2 = (r, seed1)" by fastforce
  let ?n = "2 + unat r"
  have n: "0 < ?n" "?n \<le> 3" using rnd_2 [of seed] r by simp_all
  obtain m1 pay1 seed2 where c: "lay_chain gmem OFF_DESC slot slot payload ?n (m, pay, seed1) = (m1, pay1, seed2)"
    by (metis prod_cases3)
  have a: "append_desc gmem (slot + ?n) (m1, pay1, seed2) = (app, slot', m', pay', seed')"
    using lay r c by (simp add: lay_record_def)
  have "?n < length payload" "pay + length payload \<le> RSIZE" "OFF_DESC + 16 * (slot + ?n) \<le> pay"
    using n assms(3-6) by (simp_all add: OFF_DESC_def OFF_PAY_def QNUM_def)
  from lay_chain_laid [OF c n(1) this]
  have pay1: "pay1 = pay + length payload" and laid: "chain_laid gmem OFF_DESC slot ?n pay pay1 payload m m1" by auto
  have bounds: "OFF_PAY \<le> pay1" "pay1 \<le> RSIZE" "pay1 + 8 \<le> RSIZE" using pay1 assms(5,6) by auto
  obtain ds where ds: "length ds = ?n" "laid m1 (gmem + of_nat OFF_DESC) 0 slot ds" "list_all (in_arena pay pay1) ds"
      "concat (map (desc_text m1 gmem) ds) = map of_char payload"
    using laid by (auto simp: chain_laid_def)
  have rd: "list_all (\<lambda>d. \<not> is_write d) ds" using laid_reads [OF ds(2)] by (simp add: is_write_def)
  have ne: "ds \<noteq> []" using ds(1) n(1) by auto
  have in1: "list_all (in_arena OFF_PAY pay1) ds" using ds(3) assms(5) by (fastforce simp: list_all_iff in_arena_def)
  have slot: "slot + ?n = slot + length ds" "slot + ?n < QNUM" using ds(1) n(2) assms(4) by simp_all
  show ?thesis
  proof (cases app)
    case NoMore
    with append_nothing a have "m' = m1" "pay' = pay1" "slot' = slot + ?n" by blast+
    moreover have "list_all (in_arena OFF_PAY RSIZE) ds" using in1 bounds(2) by (fastforce simp: list_all_iff in_arena_def)
    moreover have "filter (\<lambda>d. \<not> is_write d) ds = ds" using rd by (simp add: list_all_iff)
    ultimately show ?thesis
      using ds(2,4) ne slot n(2) pay1 unfolding holds_direct_def buffers_hold_def
      by (intro conjI exI [of _ ds] exI [of _ 0]) auto
  next
    case Writable
    from append_writable_holds [OF a [unfolded Writable] ds(2) ne rd in1 ds(4) slot bounds(1,3)] pay1 n(2)
    show ?thesis by simp
  qed (use assms(2) in simp)
qed

text \<open>The random record: at least four and at most 27 characters.\<close>

lemma rnd_text_length: "length (fst (rnd_text n seed)) = n"
  by (induction n arbitrary: seed) (simp_all add: Let_def case_prod_beta)

lemma rnd_record_length:
  assumes "rnd_record seed = (level, txt, payload, seed1)"
  shows "3 < length payload \<and> length payload \<le> 27"
proof -
  have l: "unat (fst (rnd seed 6)) < 6" using rnd_less [of 6 seed] by (simp add: word_less_nat_alt)
  let ?s = "snd (rnd seed 6)"
  have t: "unat (fst (rnd ?s 24)) < 24" using rnd_less [of 24 ?s] by (simp add: word_less_nat_alt)
  have "length (dec (unat (fst (rnd seed 6)))) = 1" using l by (simp add: dec.simps)
  then show ?thesis
    using assms t by (auto simp: rnd_record_def record_payload_def rnd_text_length case_prod_beta)
qed

lemma letter:
  fixes n :: nat assumes "n < 26" shows "(char_of (97 + n) :: char) \<notin> {nul, newline, cr}"
proof -
  have "take_bit 8 (97 + n) = 97 + n" using assms by (simp add: take_bit_nat_eq_self)
  then show ?thesis by (auto simp: nul_def newline_def cr_def char_of_eq_iff)
qed

lemma rnd_text_letters: "set (fst (rnd_text n seed)) \<inter> {nul, newline, cr} = {}"
proof (induction n arbitrary: seed)
  case (Suc n)
  have "unat (fst (rnd seed 26)) < 26" using rnd_less [of 26 seed] by (simp add: word_less_nat_alt)
  from letter [OF this] Suc [of "snd (rnd seed 26)"] show ?case by (simp add: Let_def case_prod_beta)
qed simp

text \<open>The records the test draws are those \<open>test_expects_what_the_sink_writes\<close> is about.\<close>

lemma rnd_record_ok:
  assumes "rnd_record seed = (level, msg, payload, seed1)"
  shows "test_rec_ok (level, msg)" and "payload = record_payload level msg"
proof -
  let ?s = "snd (rnd seed 6)"
  have "fst (rnd seed 6) < 6" "unat (fst (rnd ?s 24)) < 24"
    using rnd_less [of 6 seed] rnd_less [of 24 ?s] by (simp_all add: word_less_nat_alt)
  moreover have "level = fst (rnd seed 6)"
      "msg = fst (rnd_text (1 + unat (fst (rnd ?s 24))) (snd (rnd ?s 24)))"
      and pay: "payload = record_payload level msg"
    using assms by (auto simp: rnd_record_def case_prod_beta Let_def simp del: rnd_text.simps)
  ultimately show "test_rec_ok (level, msg)"
    using rnd_text_letters [of "1 + unat (fst (rnd ?s 24))" "snd (rnd ?s 24)"]
    by (auto simp: test_rec_ok_def rnd_text_length word_less_nat_alt simp del: rnd_text.simps)
  from pay show "payload = record_payload level msg" .
qed

lemma lay_record_holds:
  assumes "lay_record stage gmem slot payload (m, pay, seed) = (app, slot', m', pay', seed')"
    and "stage \<noteq> S_TRANSLATE" and "app \<noteq> Unmapped" and "3 < length payload" and "slot + 4 \<le> QNUM"
    and "OFF_PAY \<le> pay" and "pay + length payload + 47 \<le> RSIZE"
  shows "holds_record m' gmem slot (map of_char payload) \<and> pay' \<le> pay + length payload + 47 \<and> slot' \<le> slot + 4"
proof (cases stage)
  case S_TRANSLATE
  with assms(2) show ?thesis by simp
next
  case S_SINGLE
  with assms(1) have "lay_single gmem slot payload (m, pay, seed) = (m', pay', seed')" "slot' = slot + 1"
    by (simp_all add: lay_record_def)
  moreover have "payload \<noteq> []" "slot < QNUM" "pay + length payload \<le> RSIZE" using assms(4,5,7) by auto
  ultimately show ?thesis using lay_single_holds assms(6) by fastforce
next
  case S_CHAINED
  with assms lay_chained_holds [of gmem slot payload m pay seed app slot' m' pay' seed'] show ?thesis
    by (simp add: holds_record_def)
next
  case S_INDIRECT
  with assms(1) have "lay_indirect gmem slot payload (m, pay, seed) = (m', pay', seed')" "slot' = slot + 1"
    by (simp_all add: lay_record_def)
  moreover have "slot < QNUM" using assms(5) by simp
  ultimately show ?thesis using lay_indirect_holds assms(4,6,7) by fastforce
qed

section \<open>The device on the guest's memory\<close>

text \<open>
  A device that shares the synthetic guest's two regions, and a queue on its rings. \<open>ready_dev\<close> says that the
  device is healthy, that the optional features the pop looks at are off, and that \<open>malloc\<close> succeeds.
\<close>

definition guest_dev :: "u64 \<Rightarrow> VuDev \<Rightarrow> bool" where
  "guest_dev gmem dev \<longleftrightarrow> gmem \<noteq> 0 \<and> unat gmem + GMEM_SIZE \<le> 2 ^ 64 \<and> unat (dv_nregions dev) \<le> 32 \<and>
     build_mem dev = test_regions gmem"

definition ready_dev :: "VuDev \<Rightarrow> bool" where
  "ready_dev dev \<longleftrightarrow> \<not> dv_broken dev \<and> \<not> vu_has_feature dev VIRTIO_RING_F_EVENT_IDX \<and>
     \<not> vu_has_protocol_feature dev VHOST_USER_PROTOCOL_F_INFLIGHT_SHMFD \<and> dv_sys dev (length (dv_trace dev)) \<noteq> 0"

definition guest_queue :: "u64 \<Rightarrow> VuVirtq \<Rightarrow> bool" where
  "guest_queue gmem vq \<longleftrightarrow> vq_resubmit_list vq = None \<and> vq_inuse vq < ring_num (vq_vring vq) \<and>
     ring_num (vq_vring vq) = of_nat QNUM \<and> ring_desc (vq_vring vq) = gmem + of_nat OFF_DESC \<and>
     ring_avail (vq_vring vq) = gmem + of_nat OFF_AVAIL"

lemma guest_regions:
  assumes "guest_dev gmem dev"
  obtains r0 r1 where "regions_of dev = [r0, r1]" and "r_gpa r0 = R0_BASE" and "r_size r0 = of_nat RSIZE"
    and "r_mmap_addr r0 + r_mmap_offset r0 = gmem"
proof -
  have "take (min (unat (dv_nregions dev)) VHOST_USER_MAX_RAM_SLOTS) (dv_regions dev) = regions_of dev"
    using assms by (simp add: guest_dev_def regions_of_def VHOST_USER_MAX_RAM_SLOTS_def min_absorb1)
  with assms that show ?thesis
    by (auto simp: guest_dev_def build_mem_def test_regions_def map_eq_Cons_conv)
qed

lemma guest_translation:
  assumes "guest_dev gmem dev" and "0 < n" and "b + n \<le> RSIZE"
  shows "vu_gpa_to_va dev (of_nat n) (gpa_of b) = (gmem + of_nat b, of_nat n)" and "gmem + of_nat b \<noteq> 0"
proof -
  obtain r0 r1 where r: "regions_of dev = [r0, r1]" "r_gpa r0 = R0_BASE" "r_size r0 = of_nat RSIZE"
      "r_mmap_addr r0 + r_mmap_offset r0 = gmem"
    by (rule guest_regions [OF assms(1)])
  have b: "b < RSIZE" "n < 2 ^ 16" "b + n < 2 ^ 16" using assms(2,3) by (simp_all add: RSIZE_def)
  have u: "unat (gpa_of b) = 0x40000000 + b" "unat (gpa_of b + of_nat n) = 0x40000000 + b + n"
    "unat (R0_BASE + of_nat RSIZE :: u64) = 0x40000000 + RSIZE"
    using b by (simp_all add: gpa_of_def R0_BASE_def RSIZE_def unat_word_ariths unat_of_nat take_bit_nat_eq_self)
  have "(of_nat n :: u64) \<noteq> 0" using assms(2) b by (simp add: of_nat_u64_inj [of n 0, simplified])
  moreover have "R0_BASE \<le> gpa_of b" "gpa_of b < R0_BASE + of_nat RSIZE" "\<not> R0_BASE + of_nat RSIZE < gpa_of b + of_nat n"
    using b(1) assms(3) unfolding word_le_nat_alt word_less_nat_alt u by (simp_all add: R0_BASE_def)
  moreover have "gpa_of b - R0_BASE + r_mmap_addr r0 + r_mmap_offset r0 = gmem + of_nat b"
    using b(1) r(4) by (simp add: gpa_of_def algebra_simps)
  ultimately show "vu_gpa_to_va dev (of_nat n) (gpa_of b) = (gmem + of_nat b, of_nat n)"
    using r(1-3) by (simp add: vu_gpa_to_va_def regions_of_def)
  have "unat (gmem + of_nat b) = unat gmem + b"
    using assms(1) b(1) by (simp add: guest_dev_def unat_word_ariths unat_of_nat take_bit_nat_eq_self GMEM_SIZE_def RSIZE_def)
  moreover have "0 < unat gmem" using assms(1) by (simp add: guest_dev_def unat_gt_0)
  ultimately show "gmem + of_nat b \<noteq> 0" by (metis add_is_0 less_numeral_extra(3) unat_0)
qed

lemma guest_buffer:
  assumes "guest_dev gmem dev" and "in_arena OFF_PAY RSIZE d"
  shows "maps_whole dev d" and "map (dv_mem dev) (iov_bytes [piece_of dev d]) = desc_text (dv_mem dev) gmem d"
proof -
  obtain b where b: "d_addr d = gpa_of b" "b + unat (d_len d) \<le> RSIZE" "d_len d \<noteq> 0"
    using assms(2) by (auto simp: in_arena_def)
  have n: "0 < unat (d_len d)" using b(3) by (simp add: unat_gt_0)
  have c: "of_nat (unat (d_len d)) = (ucast (d_len d) :: u64)" by simp
  note t = guest_translation [OF assms(1) n b(2), unfolded c, folded b(1)]
  show "maps_whole dev d" using t b(3) by (auto simp: maps_whole_def)
  have "b < RSIZE" using b(2) n by linarith
  with t(1) show "map (dv_mem dev) (iov_bytes [piece_of dev d]) = desc_text (dv_mem dev) gmem d"
    by (simp add: desc_text_at [OF _ b(1)] piece_of_def iov_bytes_def cell_def comp_def ac_simps)
qed

lemma guest_buffers:
  assumes "guest_dev gmem dev" and "list_all (in_arena OFF_PAY RSIZE) ds"
  shows "map (dv_mem dev) (iov_bytes (map (piece_of dev) ds)) = concat (map (desc_text (dv_mem dev) gmem) ds)"
  using assms(2)
proof (induction ds)
  case (Cons d ds)
  have "iov_bytes (map (piece_of dev) (d # ds)) = iov_bytes [piece_of dev d] @ iov_bytes (map (piece_of dev) ds)"
    by (simp add: iov_bytes_def)
  with Cons guest_buffer(2) [OF assms(1), of d] show ?case by simp
qed (simp add: iov_bytes_def)

text \<open>A laid chain is a chain as the library reads it.\<close>

lemma laid_chain:
  assumes "laid (dv_mem dev) t fl i ds" and "ds \<noteq> []" and "t \<noteq> 0" and "i + length ds \<le> unat mx"
    and "unat mx \<le> 2 ^ 15" and "fl AND VRING_DESC_F_NEXT = 0"
  shows "desc_chain dev (DescAt t mx) mx (of_nat i) ds"
  using assms(1,2,4)
proof (induction ds arbitrary: i)
  case (Cons d ds)
  have i: "i < 2 ^ 15" "(of_nat i :: u32) < 0x80000000"
    using Cons.prems(3) assms(5) by (simp_all add: word_less_nat_alt unat_of_nat take_bit_nat_eq_self)
  have "unat (of_nat i :: u32) = i" using i(1) by (simp add: unat_of_nat take_bit_nat_eq_self)
  then have below: "of_nat i < mx" using Cons.prems(3) by (simp add: word_less_nat_alt)
  have "(scast (of_nat i :: u32) :: u64) = of_nat i"
    using i by (simp add: scast_small) (simp add: word_unat_eq_iff unsigned_ucast_eq unat_of_nat take_bit_nat_eq_self)
  then have read: "read_desc dev (DescAt t mx) (of_nat i) = Inr d"
    using Cons.prems(1) assms(3) below by (simp add: read_desc_def)
  show ?case
  proof (cases "ds = []")
    case True
    with Cons.prems(1) assms(6) read show ?thesis by (auto simp: has_next_def intro!: desc_chain.last)
  next
    case False
    then have d: "has_next d" "d_next d = of_nat (i + 1)" using Cons.prems(1) by (auto simp: has_next_def VRING_DESC_F_NEXT_def)
    have "i + 1 < unat mx" using Cons.prems(3) False by (cases ds) auto
    then have nx: "(ucast (d_next d) :: u32) = of_nat (i + 1)" "(of_nat (i + 1) :: u32) < mx"
      using assms(5) unfolding d(2)
      by (simp_all add: word_unat_eq_iff word_less_nat_alt unsigned_ucast_eq unat_of_nat take_bit_nat_eq_self
          del: of_nat_add of_nat_Suc)
    have "desc_chain dev (DescAt t mx) mx (of_nat (i + 1)) ds" using Cons.prems False by (intro Cons.IH) auto
    with nx show ?thesis by (intro desc_chain.more [OF read d(1)]) simp_all
  qed
qed simp

lemma laid_sorted: "laid m t fl i ds \<Longrightarrow> sorted_wrt (\<lambda>a b. is_write a \<longrightarrow> is_write b) ds"
  by (induction ds arbitrary: i) (auto simp: is_write_def VRING_DESC_F_NEXT_def VRING_DESC_F_WRITE_def split: if_splits)

text \<open>Walking the laid chain maps it, and the mapped bytes are the record.\<close>

lemma walk_laid:
  assumes "guest_dev gmem dev" and "laid (dv_mem dev) t fl i ds" and "buffers_hold (dv_mem dev) gmem ds bs"
    and "t \<noteq> 0" and "i + length ds \<le> unat mx" and "unat mx \<le> VIRTQUEUE_MAX_SIZE" and "fl \<in> {0, VRING_DESC_F_WRITE}"
  shows "\<exists>outs ins. map_chain dev (DescAt t mx) (of_nat i) mx [] [] = Inr (Some (outs, ins), dev) \<and>
    map (dv_mem dev) (iov_bytes outs) = bs"
proof -
  have ds: "ds \<noteq> []" "list_all (in_arena OFF_PAY RSIZE) ds"
      "concat (map (desc_text (dv_mem dev) gmem) (filter (\<lambda>d. \<not> is_write d) ds)) = bs"
    using assms(3) by (auto simp: buffers_hold_def)
  have "fl AND VRING_DESC_F_NEXT = 0" using assms(7) by (auto simp: VRING_DESC_F_NEXT_def VRING_DESC_F_WRITE_def)
  then have chain: "desc_chain dev (DescAt t mx) mx (of_nat i) ds"
    using assms(2,4,5,6) ds(1) by (intro laid_chain) (auto simp: VIRTQUEUE_MAX_SIZE_def)
  have "list_all (maps_whole dev) ds" using ds(2) guest_buffer(1) [OF assms(1)] by (simp add: list_all_iff)
  from map_chain_whole [OF chain this laid_sorted [OF assms(2)], of "[]" "[]"] assms(5,6)
  have "map_chain dev (DescAt t mx) (of_nat i) mx [] [] =
      Inr (Some (map (piece_of dev) (filter (\<lambda>d. \<not> is_write d) ds), map (piece_of dev) (filter is_write ds)), dev)"
    by simp
  moreover have "list_all (in_arena OFF_PAY RSIZE) (filter (\<lambda>d. \<not> is_write d) ds)" using ds(2) by (simp add: list_all_iff)
  ultimately show ?thesis using guest_buffers [OF assms(1)] ds(3) by auto
qed

lemma map_desc_direct:
  assumes "read_desc dev (DescAt (ring_desc (vq_vring vq)) (ring_num (vq_vring vq))) idx = Inr d" and "d_flags d AND VRING_DESC_F_INDIRECT = 0"
    and "map_chain dev (DescAt (ring_desc (vq_vring vq)) (ring_num (vq_vring vq))) idx (ring_num (vq_vring vq)) [] [] = Inr (Some (outs, ins), dev)"
    and "ready_dev dev" and "32 \<le> sz"
  shows "\<exists>dev'. vu_queue_map_desc dev vq idx sz = Inr (Some \<lparr>el_index = idx, el_out_sg = outs, el_in_sg = ins\<rparr>, dev') \<and>
    dv_mem dev' = dv_mem dev \<and> dv_protocol_features dev' = dv_protocol_features dev"
  using assms
  by (simp add: vu_queue_map_desc_def virtqueue_alloc_element_def vu_call_def ready_dev_def Let_def)

lemma map_desc_indirect:
  assumes "read_desc dev (DescAt (ring_desc (vq_vring vq)) (ring_num (vq_vring vq))) idx = Inr d" and "d_flags d AND VRING_DESC_F_INDIRECT \<noteq> 0"
    and "d_len d mod 16 = 0" and "vu_gpa_to_va dev (ucast (d_len d)) (d_addr d) = (t, ucast (d_len d))" and "t \<noteq> 0"
    and "map_chain dev (DescAt t (d_len d div 16)) 0 (d_len d div 16) [] [] = Inr (Some (outs, ins), dev)"
    and "ready_dev dev" and "32 \<le> sz"
  shows "\<exists>dev'. vu_queue_map_desc dev vq idx sz = Inr (Some \<lparr>el_index = idx, el_out_sg = outs, el_in_sg = ins\<rparr>, dev') \<and>
    dv_mem dev' = dv_mem dev \<and> dv_protocol_features dev' = dv_protocol_features dev"
  using assms
  by (simp add: vu_queue_map_desc_def open_indirect_def virtqueue_alloc_element_def vu_call_def ready_dev_def Let_def)

text \<open>Mapping the head of a record, in either form.\<close>

definition maps_record :: "VuDev \<Rightarrow> VuVirtq \<Rightarrow> nat \<Rightarrow> u64 \<Rightarrow> u8 list \<Rightarrow> bool" where
  "maps_record dev vq slot sz bs \<longleftrightarrow> slot < QNUM \<and>
     (\<exists>e dev'. vu_queue_map_desc dev vq (of_nat slot) sz = Inr (Some e, dev') \<and> el_index e = of_nat slot \<and>
        map (dv_mem dev) (iov_bytes (el_out_sg e)) = bs \<and>
        dv_mem dev' = dv_mem dev \<and> dv_protocol_features dev' = dv_protocol_features dev)"

lemma map_record_direct:
  assumes dev: "guest_dev gmem dev" "ready_dev dev" and vq: "guest_queue gmem vq"
    and "holds_direct (dv_mem dev) gmem slot bs" and "32 \<le> sz"
  shows "maps_record dev vq slot sz bs"
proof -
  let ?t = "gmem + of_nat OFF_DESC"
  have q: "ring_desc (vq_vring vq) = ?t" "ring_num (vq_vring vq) = 8" using vq by (simp_all add: guest_queue_def QNUM_def)
  have t: "?t \<noteq> 0" using dev(1) by (simp add: guest_dev_def OFF_DESC_def)
  obtain ds fl where d: "fl \<in> {0, VRING_DESC_F_WRITE}" "slot + length ds \<le> 8"
      "laid (dv_mem dev) ?t fl slot ds" "buffers_hold (dv_mem dev) gmem ds bs"
    using assms(4) by (auto simp: holds_direct_def QNUM_def)
  have ne: "ds \<noteq> []" using d(4) by (simp add: buffers_hold_def)
  obtain outs ins where w: "map_chain dev (DescAt ?t 8) (of_nat slot) 8 [] [] = Inr (Some (outs, ins), dev)"
      "map (dv_mem dev) (iov_bytes outs) = bs"
    using walk_laid [OF dev(1) d(3,4) t, where mx = 8] d(1,2) by (auto simp: VIRTQUEUE_MAX_SIZE_def)
  have "desc_chain dev (DescAt ?t 8) 8 (of_nat slot) ds"
    using d(1,2) ne by (intro laid_chain [OF d(3) _ t]) (auto simp: VRING_DESC_F_NEXT_def VRING_DESC_F_WRITE_def)
  from desc_chain_start [OF this] have r: "read_desc dev (DescAt ?t 8) (of_nat slot) = Inr (hd ds)" by auto
  have "d_flags (hd ds) \<in> {fl, VRING_DESC_F_NEXT}" using d(3) ne by (cases ds) (auto split: if_splits)
  then have "d_flags (hd ds) AND VRING_DESC_F_INDIRECT = 0"
    using d(1) by (auto simp: VRING_DESC_F_NEXT_def VRING_DESC_F_WRITE_def VRING_DESC_F_INDIRECT_def)
  then have "\<exists>dev'. vu_queue_map_desc dev vq (of_nat slot) sz =
      Inr (Some \<lparr>el_index = of_nat slot, el_out_sg = outs, el_in_sg = ins\<rparr>, dev') \<and>
      dv_mem dev' = dv_mem dev \<and> dv_protocol_features dev' = dv_protocol_features dev"
    using r w(1) dev(2) assms(5) by (intro map_desc_direct) (simp_all only: q)
  moreover have "slot < QNUM" using d(2) ne by (cases ds) (auto simp: QNUM_def)
  ultimately show ?thesis using w(2) by (auto simp: maps_record_def)
qed

lemma map_record_indirect:
  assumes dev: "guest_dev gmem dev" "ready_dev dev" and vq: "guest_queue gmem vq"
    and "holds_indirect (dv_mem dev) gmem slot bs" and "32 \<le> sz"
  shows "maps_record dev vq slot sz bs"
proof -
  let ?t = "gmem + of_nat OFF_DESC"
  have q: "ring_desc (vq_vring vq) = ?t" "ring_num (vq_vring vq) = 8" using vq by (simp_all add: guest_queue_def QNUM_def)
  have t: "?t \<noteq> 0" using dev(1) by (simp add: guest_dev_def OFF_DESC_def)
  obtain tbl ds where d: "slot < 8" "tbl + 16 * length ds \<le> RSIZE" "length ds \<le> 8"
      "load_desc (dv_mem dev) ?t (of_nat slot) =
        \<lparr>d_addr = gpa_of tbl, d_len = of_nat (length ds * 16), d_flags = VRING_DESC_F_INDIRECT, d_next = 0\<rparr>"
      "laid (dv_mem dev) (gmem + of_nat tbl) 0 0 ds" "buffers_hold (dv_mem dev) gmem ds bs"
    using assms(4) by (auto simp: holds_indirect_def QNUM_def)
  let ?d = "\<lparr>d_addr = gpa_of tbl, d_len = of_nat (length ds * 16), d_flags = VRING_DESC_F_INDIRECT, d_next = 0\<rparr>"
  have n: "0 < length ds * 16" "length ds * 16 < 2 ^ 8" using d(3,6) by (auto simp: buffers_hold_def)
  have "(scast (of_nat slot :: u32) :: u64) = of_nat slot"
    using d(1) by (simp add: scast_small word_less_nat_alt unat_of_nat take_bit_nat_eq_self)
      (simp add: word_unat_eq_iff unsigned_ucast_eq unat_of_nat take_bit_nat_eq_self)
  then have r: "read_desc dev (DescAt ?t 8) (of_nat slot) = Inr ?d"
    using d(1,4) t by (simp add: read_desc_def word_less_nat_alt unat_of_nat take_bit_nat_eq_self)
  have l: "unat (of_nat (length ds * 16) :: u32) = length ds * 16"
    using n(2) by (simp only: unat_of_nat) (simp add: take_bit_nat_eq_self)
  have l64: "unat (of_nat (length ds * 16) :: u64) = length ds * 16"
    using n(2) by (simp only: unat_of_nat) (simp add: take_bit_nat_eq_self)
  have len: "unat (of_nat (length ds) :: u32) = length ds" using d(3) by (simp add: unat_of_nat take_bit_nat_eq_self)
  have div: "d_len ?d mod 16 = 0" "d_len ?d div 16 = of_nat (length ds)"
    by (simp_all only: vring_desc.simps word_unat_eq_iff unat_mod_distrib unat_div_distrib l len) simp_all
  have wide: "ucast (d_len ?d) = (of_nat (length ds * 16) :: u64)"
    by (simp only: vring_desc.simps word_unat_eq_iff unat_ucast_u32 l l64)
  have "tbl + length ds * 16 \<le> RSIZE" using d(2) by simp
  note tr = guest_translation [OF dev(1) n(1) this]
  obtain outs ins where w: "map_chain dev (DescAt (gmem + of_nat tbl) (of_nat (length ds))) 0 (of_nat (length ds)) [] [] = Inr (Some (outs, ins), dev)"
      "map (dv_mem dev) (iov_bytes outs) = bs"
    using walk_laid [OF dev(1) d(5,6) tr(2), where mx = "of_nat (length ds)"] d(3) len
    by (auto simp: VIRTQUEUE_MAX_SIZE_def)
  have "\<exists>dev'. vu_queue_map_desc dev vq (of_nat slot) sz =
      Inr (Some \<lparr>el_index = of_nat slot, el_out_sg = outs, el_in_sg = ins\<rparr>, dev') \<and>
      dv_mem dev' = dv_mem dev \<and> dv_protocol_features dev' = dv_protocol_features dev"
  proof (rule map_desc_indirect [OF _ _ div(1) _ tr(2) _ dev(2) assms(5)])
    show "read_desc dev (DescAt (ring_desc (vq_vring vq)) (ring_num (vq_vring vq))) (of_nat slot) = Inr ?d" using r by (simp only: q)
    show "vu_gpa_to_va dev (ucast (d_len ?d)) (d_addr ?d) = (gmem + of_nat tbl, ucast (d_len ?d))"
      using tr(1) unfolding wide by simp
    show "map_chain dev (DescAt (gmem + of_nat tbl) (d_len ?d div 16)) 0 (d_len ?d div 16) [] [] = Inr (Some (outs, ins), dev)"
      using w(1) unfolding div(2) by simp
  qed (simp add: VRING_DESC_F_INDIRECT_def)
  with d(1) w(2) show ?thesis by (auto simp: maps_record_def QNUM_def)
qed

section \<open>Popping what was published\<close>

lemma map_record:
  assumes "guest_dev gmem dev" "ready_dev dev" "guest_queue gmem vq" "holds_record (dv_mem dev) gmem slot bs" "32 \<le> sz"
  shows "maps_record dev vq slot sz bs"
  using assms map_record_direct map_record_indirect by (auto simp: holds_record_def)

text \<open>The available ring after a record was published and the index stored.\<close>

lemma published_ring:
  assumes "m = store16 (store16 m0 (gmem + of_nat OFF_AVAIL + 4 + 2 * of_nat (unat i mod QNUM)) head) (gmem + of_nat OFF_AVAIL + 2) (i + 1)"
  shows "avail_idx m (gmem + of_nat OFF_AVAIL) = i + 1"
    and "avail_ring m (gmem + of_nat OFF_AVAIL) (of_nat (unat i mod QNUM)) = head"
    and "j < OFF_AVAIL \<or> OFF_PAY \<le> j \<and> j < RSIZE \<Longrightarrow> cell m gmem j = cell m0 gmem j"
proof -
  let ?av = "gmem + of_nat OFF_AVAIL" and ?k = "unat i mod QNUM"
  have k: "?k < 8" by (simp add: QNUM_def)
  have "span (?av + 2) 2 \<inter> span (?av + of_nat (4 + 2 * ?k)) 2 = {}"
    using span_parts_apart [of 2 2 "4 + 2 * ?k" 2 ?av] k by simp
  then have apart: "span (?av + 2) 2 \<inter> span (?av + 4 + 2 * of_nat ?k) 2 = {}" by (simp add: ac_simps)
  show "avail_idx m ?av = i + 1" by (simp only: assms avail_idx_def mem_simps)
  show "avail_ring m ?av (of_nat ?k) = head"
    by (simp only: assms avail_ring_def load16_store16_apart [OF apart] load16_store16)
  show "cell m gmem j = cell m0 gmem j" if "j < OFF_AVAIL \<or> OFF_PAY \<le> j \<and> j < RSIZE"
  proof -
    have eq: "?av + 2 = gmem + of_nat (OFF_AVAIL + 2)" "?av + 4 + 2 * of_nat ?k = gmem + of_nat (OFF_AVAIL + 4 + 2 * ?k)"
      by (simp_all add: ac_simps)
    have b: "j < 2 ^ 16" "OFF_AVAIL + 4 + 2 * ?k + 2 \<le> OFF_PAY" "OFF_PAY \<le> 2 ^ 16" "OFF_AVAIL + 2 + 2 \<le> OFF_PAY"
      using that k by (auto simp: OFF_AVAIL_def OFF_PAY_def RSIZE_def)
    have "cell m gmem j = cell (store16 m0 (gmem + of_nat (OFF_AVAIL + 4 + 2 * ?k)) head) gmem j"
      unfolding assms eq using that b by (intro store16_outside_at) linarith+
    also have "\<dots> = cell m0 gmem j" using that b by (intro store16_outside_at) linarith+
    finally show ?thesis .
  qed
qed

lemma head_available:
  assumes "ring_num (vq_vring vq) = 8" and "slot < 8"
    and "avail_ring (dv_mem dev) (ring_avail (vq_vring vq)) (of_nat (unat i mod 8)) = of_nat slot"
  shows "virtqueue_get_head dev vq (ucast (i :: u16)) = Inr (Some (of_nat slot), dev)"
proof -
  have u: "unat (ucast i mod 8 :: u32) = unat i mod 8"
    by (simp only: unat_mod_distrib) (simp add: unsigned_ucast_eq take_bit_nat_eq_self order_less_le_trans [OF unat_bounds(2)])
  then have "(ucast i mod 8 :: u32) < 0x80000000"
    by (simp add: word_less_nat_alt order_less_le_trans [OF mod_less_divisor])
  then have "(scast (ucast i mod 8 :: u32) :: u64) = of_nat (unat i mod 8)"
    by (simp only: scast_small word_unat_eq_iff unat_ucast_u32 u)
       (simp add: unat_of_nat take_bit_nat_eq_self order_less_le_trans [OF mod_less_divisor])
  then have "vring_avail_ring dev vq (ucast i mod 8) = of_nat slot"
    using assms(3) by (simp add: vring_avail_ring_def)
  moreover have "(ucast (of_nat slot :: u16) :: u32) = of_nat slot" "(of_nat slot :: u32) < 8"
    using assms(2) by (simp_all add: word_unat_eq_iff word_less_nat_alt unsigned_ucast_eq unat_of_nat take_bit_nat_eq_self)
  ultimately show ?thesis by (simp add: virtqueue_get_head_def assms(1) Let_def)
qed

lemma pop_record:
  assumes dev: "guest_dev gmem dev" "ready_dev dev" and vq: "guest_queue gmem vq"
    and idx: "avail_idx (dv_mem dev) (gmem + of_nat OFF_AVAIL) \<noteq> vq_last_avail_idx vq"
    and head: "avail_ring (dv_mem dev) (gmem + of_nat OFF_AVAIL) (of_nat (unat (vq_last_avail_idx vq) mod QNUM)) = of_nat slot"
    and rec: "holds_record (dv_mem dev) gmem slot bs" and "32 \<le> sz"
  shows "\<exists>e dev' vq'. vu_queue_pop dev vq sz = Inr (Some e, dev', vq') \<and> el_index e = of_nat slot \<and>
    map (dv_mem dev) (iov_bytes (el_out_sg e)) = bs"
proof -
  let ?av = "gmem + of_nat OFF_AVAIL" and ?i = "vq_last_avail_idx vq"
  have q: "vq_resubmit_list vq = None" "vq_inuse vq < 8" "ring_num (vq_vring vq) = 8" "ring_avail (vq_vring vq) = ?av"
    using vq by (auto simp: guest_queue_def QNUM_def)
  have "?av \<noteq> 0"
    using guest_translation(2) [OF dev(1), of 1 OFF_AVAIL] by (simp add: OFF_AVAIL_def RSIZE_def)
  then have av: "ring_avail (vq_vring vq) \<noteq> 0" by (simp only: q(4) not_False_eq_True)
  have broken: "\<not> dv_broken dev" using dev(2) by (simp add: ready_dev_def)
  obtain sh where e: "vu_queue_empty dev vq = (False, vq\<lparr>vq_shadow_avail_idx := sh\<rparr>)"
  proof (cases "vq_shadow_avail_idx vq = ?i")
    case True
    then show ?thesis using that idx broken av by (simp add: vu_queue_empty_def vring_avail_idx_def q(4) Let_def)
  next
    case False
    then show ?thesis using that [of "vq_shadow_avail_idx vq"] broken av by (simp add: vu_queue_empty_def)
  qed
  let ?vq = "vq\<lparr>vq_shadow_avail_idx := sh, vq_last_avail_idx := ?i + 1\<rparr>"
  have "guest_queue gmem ?vq" using vq by (auto simp: guest_queue_def)
  from map_record [OF dev this rec assms(7)] obtain el dev' where m: "slot < 8"
      "vu_queue_map_desc dev ?vq (of_nat slot) sz = Inr (Some el, dev')" "el_index el = of_nat slot"
      "map (dv_mem dev) (iov_bytes (el_out_sg el)) = bs" "dv_protocol_features dev' = dv_protocol_features dev"
    by (auto simp: maps_record_def QNUM_def)
  have "virtqueue_get_head dev ?vq (ucast ?i) = Inr (Some (of_nat slot), dev)"
    using q(3,4) head m(1) by (intro head_available) (simp_all add: QNUM_def)
  moreover have "\<not> vu_has_feature dev VIRTIO_RING_F_EVENT_IDX" "\<not> vu_has_protocol_feature dev' VHOST_USER_PROTOCOL_F_INFLIGHT_SHMFD"
    using dev(2) m(5) by (simp_all add: ready_dev_def vu_has_protocol_feature_def)
  ultimately have "vu_queue_pop dev vq sz = Inr (Some el, dev', ?vq\<lparr>vq_inuse := vq_inuse vq + 1\<rparr>)"
    using broken av e q(1,2,3) m(2)
    by (simp add: vu_queue_pop_def pop_avail_def vu_queue_inflight_get_def Let_def)
  with m(3,4) show ?thesis by blast
qed

text \<open>
  C3: \<^bold>\<open>What the guest publishes is what the library pops.\<close> The synthetic guest draws a record from any
  seed, lays it out in one of the three ways (one buffer; a chain of two or three with or without a
  buffer for writing after it; an indirect table), publishes its head and stores the index. On a device
  that shares the guest's memory \<open>vu_queue_pop\<close> then returns the element of that head, and the bytes of its
  readable pieces are the record, whole and in order.
\<close>
theorem published_record_is_popped:
  assumes "lay_and_publish stage gmem slot s = (app, slot', s')" and "stage \<noteq> S_TRANSLATE" and "app \<noteq> Unmapped"
    and "slot + 4 \<le> QNUM" and "OFF_PAY \<le> vt_pay s" and "vt_pay s + 74 \<le> RSIZE"
    and "rnd_record (vt_seed s) = (level, txt, payload, seed)"
    and "guest_dev gmem dev" and "ready_dev dev" and "guest_queue gmem vq" and "32 \<le> sz"
    and "vq_last_avail_idx vq = vt_avail_idx s"
    and "dv_mem dev = store16 (vt_mem s') (gmem + of_nat OFF_AVAIL + 2) (vt_avail_idx s')"
  shows "\<exists>e dev' vq'. vu_queue_pop dev vq sz = Inr (Some e, dev', vq') \<and> el_index e = of_nat slot \<and>
    map (dv_mem dev) (iov_bytes (el_out_sg e)) = map of_char payload"
proof -
  obtain m pay seed1 where l: "lay_record stage gmem slot payload (vt_mem s, vt_pay s, seed) = (app, slot', m, pay, seed1)"
    and s': "s' = publish gmem (of_nat slot) level txt (s\<lparr>vt_mem := m, vt_pay := pay, vt_seed := seed1\<rparr>)"
    using assms(1,7) by (auto simp: lay_and_publish_def split: prod.splits)
  have "3 < length payload" "vt_pay s + length payload + 47 \<le> RSIZE"
    using rnd_record_length [OF assms(7)] assms(6) by auto
  with lay_record_holds [OF l assms(2,3) _ assms(4,5)] have "holds_record m gmem slot (map of_char payload)" by simp
  moreover have "dv_mem dev = store16 (store16 m (gmem + of_nat OFF_AVAIL + 4 + 2 * of_nat (unat (vt_avail_idx s) mod QNUM))
      (of_nat slot)) (gmem + of_nat OFF_AVAIL + 2) (vt_avail_idx s + 1)"
    using assms(13) by (simp add: s' publish_def)
  note ring = published_ring [OF this]
  ultimately have "holds_record (dv_mem dev) gmem slot (map of_char payload)"
    using holds_record_cells ring(3) by metis
  from pop_record [OF assms(8-10) _ _ this assms(11)] ring(1,2) show ?thesis by (simp add: assms(12))
qed

text \<open>The witness: from the seed 2, a record behind an indirect table.\<close>

definition guest_base :: u64 where "guest_base = 0x10000"

definition demo_guest :: vtest where "demo_guest = test_start 2 (\<lambda>_. 0)"

definition demo_guest_dev :: "mem \<Rightarrow> VuDev" where
  "demo_guest_dev m =
     demo_dev\<lparr>dv_nregions := 2, dv_mem := m,
       dv_regions := [\<lparr>r_gpa = R0_BASE, r_size = 0x8000, r_qva = 0, r_mmap_offset = 0, r_mmap_addr = guest_base\<rparr>,
                      \<lparr>r_gpa = R1_BASE, r_size = 0x8000, r_qva = 0, r_mmap_offset = 0x8000, r_mmap_addr = guest_base\<rparr>]\<rparr>"

definition demo_guest_vq :: VuVirtq where
  "demo_guest_vq =
     demo_vq\<lparr>vq_vring := \<lparr>ring_num = 8, ring_desc = guest_base, ring_avail = guest_base + 0x1000,
                         ring_used = guest_base + 0x2000, ring_log_guest_addr = 0, ring_flags = 0\<rparr>\<rparr>"

lemma demo_guest_ready:
  "guest_dev guest_base (demo_guest_dev m)" "ready_dev (demo_guest_dev m)" "guest_queue guest_base demo_guest_vq"
proof -
  show "guest_dev guest_base (demo_guest_dev m)"
    by (simp add: guest_dev_def guest_base_def demo_guest_dev_def build_mem_def test_regions_def demo_dev_def
          GMEM_SIZE_def RSIZE_def VHOST_USER_MAX_RAM_SLOTS_def)
  show "ready_dev (demo_guest_dev m)"
    by (simp add: ready_dev_def demo_guest_dev_def demo_dev_def vu_has_feature_def vu_has_protocol_feature_def
          has_feature_def)
  show "guest_queue guest_base demo_guest_vq"
    by (simp add: guest_queue_def demo_guest_vq_def demo_vq_def guest_base_def QNUM_def OFF_DESC_def OFF_AVAIL_def)
qed

theorem published_record_is_popped_witness:
  "\<exists>s' e dev' vq'. lay_and_publish S_INDIRECT guest_base 0 demo_guest = (NoMore, 1, s') \<and>
     (let m = store16 (vt_mem s') 0x11002 1 in
      vu_queue_pop (demo_guest_dev m) demo_guest_vq 32 = Inr (Some e, dev', vq') \<and> el_index e = 0 \<and>
      map m (iov_bytes (el_out_sg e)) = map of_char (fst (snd (snd (rnd_record 2)))))"
proof -
  let ?l = "lay_and_publish S_INDIRECT guest_base 0 demo_guest"
  have "(case ?l of (app, slot, s') \<Rightarrow> app = NoMore \<and> slot = 1 \<and> vt_avail_idx s' = 1)"
    by (simp add: lay_and_publish_def lay_record_def publish_def demo_guest_def test_start_def case_prod_beta)
  then obtain s' where l: "?l = (NoMore, 1, s')" "vt_avail_idx s' = 1" by (cases ?l) auto
  obtain level msg payload seed where r: "rnd_record (vt_seed demo_guest) = (level, msg, payload, seed)"
    by (metis prod_cases4)
  have m: "guest_base + of_nat OFF_AVAIL + 2 = 0x11002" by (simp add: guest_base_def OFF_AVAIL_def)
  define m where "m = store16 (vt_mem s') 0x11002 1"
  have "\<exists>e dev' vq'. vu_queue_pop (demo_guest_dev m) demo_guest_vq 32 = Inr (Some e, dev', vq') \<and> el_index e = of_nat 0 \<and>
    map (dv_mem (demo_guest_dev m)) (iov_bytes (el_out_sg e)) = map of_char payload"
    by (rule published_record_is_popped [OF l(1) _ _ _ _ _ r demo_guest_ready])
       (simp_all add: l(2) m_def m [simplified] QNUM_def demo_guest_def test_start_def OFF_PAY_def RSIZE_def
         demo_guest_dev_def demo_guest_vq_def demo_vq_def m)
  moreover have "fst (snd (snd (rnd_record 2))) = payload" using r by (simp add: demo_guest_def test_start_def)
  ultimately show ?thesis using l(1) by (auto simp: Let_def m_def demo_guest_dev_def)
qed

end
