(* ===== verification/Spec2Isabelle.thy ===== *)
theory Spec2Isabelle
  imports Emulator Transports VringLayout VuLog VuQueueFacts VuRegions VuProtocol VuInflight VuMsgFacts VuRequests VuQueueSafe
    BackendLog BackendFeatures GuestInit VirtqTest VirtqPop
begin

text \<open>
  A verification library of the logging system in \<^verbatim>\<open>project_1\<close>: a log store, three ways into it and
  the runner that produces records.

  \<^bold>\<open>The program.\<close> Guests and services write log records, lines of the form \<open><level> <message>\<close>. The log
  store (\<^verbatim>\<open>emulator/logstore.c\<close>) numbers, names the level and appends them to a file, from several
  threads. Records come in over TCP (\<^verbatim>\<open>emulator/netlog.c\<close>, one thread around \<open>poll\<close>), from a
  virtio queue (\<^verbatim>\<open>vhost/sink.c\<close> behind \<^verbatim>\<open>vhost/backend.c\<close>, a vhost-user backend on the library
  \<^verbatim>\<open>vhost/libvhost-user.c\<close>) and from an MMIO device (\<^verbatim>\<open>emulator/device.c\<close>, a stub). The function runner
  (\<^verbatim>\<open>runner/runner.c\<close>) answers commands on a port and sends its records to a collector. The emulator
  (\<^verbatim>\<open>emulator/main.c\<close>, \<^verbatim>\<open>vmm.c\<close>) runs a guest next to the listener, or the listener alone; guests reach the device
  through \<^verbatim>\<open>guest/vlog.c\<close>.

  \<^bold>\<open>Theories.\<close>
  \<^item> \<open>Prelude\<close>: machine integers, traps as values (\<open>trap + 'a\<close>, \<open>tbind\<close>), characters, C strings, decimal
    printing and parsing, the \<open>poll\<close> bits.
  \<^item> \<open>LogStore\<close>: \<^verbatim>\<open>logstore.c\<close>, once as functions on \<open>logstore\<close> and once as \<open>mutex\<close> and stdio operations
    of many threads (\<open>ls_step\<close>); the interface \<open>record_store\<close> of its users, interpreted on it.
  \<^item> \<open>Sink\<close>: \<^verbatim>\<open>sink.c\<close>, with \<open>sink_parse\<close> as the reference parser. \<open>Netlog\<close>: \<^verbatim>\<open>netlog.c\<close>, line assembly
    (\<open>feed\<close>), one round of the poll loop, the listener from start to stop.
  \<^item> \<open>Memory\<close> and \<open>Vring\<close>: the address space as bytes and the split ring as it lies there
    (\<^verbatim>\<open>standard-headers/linux/virtio_ring.h\<close>); \<open>VringLayout\<close>: its layout in one chunk.
  \<^item> \<open>VuDev\<close>: messages, device and queue state of \<^verbatim>\<open>libvhost-user.c\<close>, translation of guest addresses, reading
    and writing messages, the dirty log; \<open>VuLog\<close> shows what the dirty log marks.
  \<^item> \<open>VuQueue\<close>: the queue operations, from the available ring to \<open>vu_queue_push\<close>; \<open>VuQueueFacts\<close> their properties,
    \<open>VuQueueSafe\<close> that no guest can crash a pop.
  \<^item> \<open>VuMsg\<close>: every message handler, the dispatcher, \<open>vu_init\<close> and \<open>vu_deinit\<close>. \<open>VuServe\<close> shows what no message
    can break, \<open>VuMsgFacts\<close> which messages can trap, \<open>VuRegions\<close> is about memory regions, \<open>VuProtocol\<close> about
    features, replies, ring bases and tearing down, \<open>VuInflight\<close> about resubmission.
  \<^item> \<open>Backend\<close>: \<^verbatim>\<open>backend.c\<close>, its watch table, the kick handler and the main loop; the contract of a device
    implementation as the locale \<open>device_callbacks\<close>, interpreted on the backend's callbacks, and the library's
    view of the watch table, a map of bounded size, as the locale \<open>watch_table\<close>, interpreted on the table. \<open>BackendLog\<close>: the log
    file a whole run leaves, however it ends. \<open>BackendFeatures\<close>: what its front end negotiates.
  \<^item> \<open>Device\<close>: the provided part of \<^verbatim>\<open>device.c\<close>, the guest's library and sample programs over any bus.
    \<open>Emulator\<close>: creating and destroying the VMM, boot parameters, \<open>main\<close>, with an observer of what is held.
  \<^item> \<open>VuRequests\<close>: the requests by name, the dispatcher as the switch over them, and requests it does not know.
  \<^item> \<open>VirtqTest\<close>: \<^verbatim>\<open>tests/virtq_test.c\<close>, the synthetic guest that lays records out as chains, and its checks of
    used ring and log; \<open>VirtqPop\<close> runs that guest against \<open>vu_queue_pop\<close>. \<open>GuestInit\<close>: \<^verbatim>\<open>vhost/guest/init.c\<close>.
  \<^item> \<open>Runner\<close> and \<open>RunnerFacts\<close>: \<^verbatim>\<open>runner.c\<close>. \<open>Transports\<close>: the compositions, from the runner to the log
    and of the two transports.

  \<^bold>\<open>How the code is modelled.\<close> C structs are records with their widths as words; pointers into the
  process are 64-bit addresses of a byte memory, null is 0. Undefined behaviour and aborts the code can
  reach are values of \<open>trap\<close>: null dereference, access out of bounds, division by zero, signed overflow,
  a failed assertion; \<open>Diverges\<close> stands for fuel that ran out. Calls of the operating system are recorded
  in a trace and their results read from the environment (\<open>dv_sys\<close>, \<open>dv_recv\<close>, \<open>rn_sys\<close>, \<open>rn_in\<close>) at
  the position of the call, so that theorems quantify over everything the outside can do. The trace of a device also has the two
  stores to the used ring that publish an element and the write barrier between them, because their order is what the driver
  relies on. Descriptor tables carry the number of their entries, so that reading past one is a trap. Callbacks that
  only change state of the backend are carried out from the trace. A process that calls \<open>exit\<close> (in \<open>panic_cb\<close>, or in the library on
  the message of zeros that a closed connection reads as) ends with the calls made until then (\<open>Exited\<close>). Failing writes to \<open>stderr\<close> and
  debug output are left out.

  \<^bold>\<open>Fuel.\<close> \<open>log_pages\<close> gets \<open>len div 4096 + 2\<close> rounds, one for each page and the border; a descriptor chain is
  walked with the fuel of the code's own bound \<open>max\<close>, one more for the test; \<open>vu_queue_get_avail_bytes\<close>
  uses the number of heads and of descriptors left, so \<open>Diverges\<close> is reached only where the code loops
  (the theorems about termination say when). \<open>tx_loop\<close> and \<open>serve_loop\<close> wait for the guest and for clients:
  their fuel is an argument, and \<open>no_wakeup_is_lost\<close> shows how much is enough for the former.

  \<^bold>\<open>Properties.\<close> Each is a theorem after a text that starts with its number. They cover the data path (an
  element is the guest's chain and stays in shared memory, what a guest publishes is popped byte for byte, a push
  publishes, a notification is sent when asked for, records reach the log whole and in order over every transport), state (well-formed
  devices, watch tables and line buffers, whole records under concurrency, descriptors closed once, and the one that is leaked),
  termination and liveness (endless chains, avail bytes, no deadlock of the log store, no lost wakeup),
  round trips, and the errors the code has: each error that is a property states exactly when it happens.

  \<^bold>\<open>Not modelled.\<close> Parts of \<^verbatim>\<open>emulator/vmm.c\<close>, \<^verbatim>\<open>emulator/device.c\<close> and all of \<^verbatim>\<open>vhost/virtio.c\<close> are exercises whose
  functions are stubs in the repository. The stubs are modelled as they stand; what calls them takes
  functions in their place (\<open>load\<close>, \<open>run\<close>, the queue handler, the bus), with the contract the headers state as
  hypothesis. \<^verbatim>\<open>virtq_gpa_to_hva\<close> is called by that exercise and by its test. The Unicorn engine and the
  kernel are the environment. The assembly start code, the other tests of the exercises
  (\<^verbatim>\<open>virtq_private.c\<close>, the guest programs under \<^verbatim>\<open>tests\<close>) and their oracle are left out, and so are the rest of
  \<^verbatim>\<open>standard-headers\<close> (input event codes, packed rings, console structures), which the program does not use, and
  debug output. In \<open>Backend\<close> a trap that the library would run into after a panic in the same message is reported as that trap, although
  \<open>panic_cb\<close> has ended the process by then.
\<close>

end
